(* ===== verification/Prelude.thy ===== *)
theory Prelude
  imports Main "HOL-Library.Word" "HOL-Library.Char_ord" "HOL-Library.List_Lexorder"
    "HOL-Library.Multiset"
begin

text \<open>
  Shared ground of the development: Go strings and the functions of package
  \<^verbatim>\<open>strings\<close> and \<^verbatim>\<open>strconv\<close> the program calls, the enumeration orders of Go maps,
  generic lemmas on keyed rows, and a contract for state machines.

  A Go string is a sequence of bytes: a HOL \<open>string\<close>, whose \<open>char\<close>s are bytes.
  \<^verbatim>\<open>strings.TrimSpace\<close>, \<^verbatim>\<open>strings.ToLower\<close>, \<^verbatim>\<open>strings.ToUpper\<close> and \<^verbatim>\<open>strings.Fields\<close>
  are modelled on ASCII: a byte from 128 on is neither a space nor a letter here.
\<close>

named_theorems go_string \<open>definitions of the modelled string functions\<close>
named_theorems sql \<open>definitions of the modelled statements of the store\<close>

type_synonym byte = "8 word"

lemma unat_byte_less [simp]: "unat (b :: byte) < 256"
  using unsigned_less [of b] by simp

section \<open>Package strings\<close>

definition is_space :: "char \<Rightarrow> bool" where
  [go_string]: "is_space c \<longleftrightarrow>
     (let n = (of_char c :: nat) in 9 \<le> n \<and> n \<le> 13 \<or> n = 32)"

definition lower_char :: "char \<Rightarrow> char" where
  [go_string]: "lower_char c =
     (let n = (of_char c :: nat) in if 65 \<le> n \<and> n \<le> 90 then char_of (n + 32) else c)"

definition upper_char :: "char \<Rightarrow> char" where
  [go_string]: "upper_char c =
     (let n = (of_char c :: nat) in if 97 \<le> n \<and> n \<le> 122 then char_of (n - 32) else c)"

definition to_lower :: "string \<Rightarrow> string" where
  [go_string]: "to_lower s = map lower_char s"

definition to_upper :: "string \<Rightarrow> string" where
  [go_string]: "to_upper s = map upper_char s"

definition trim_right :: "(char \<Rightarrow> bool) \<Rightarrow> string \<Rightarrow> string" where
  [go_string]: "trim_right p s = rev (dropWhile p (rev s))"

definition trim_space :: "string \<Rightarrow> string" where
  [go_string]: "trim_space s = trim_right is_space (dropWhile is_space s)"

definition replace_char :: "char \<Rightarrow> char \<Rightarrow> string \<Rightarrow> string" where
  [go_string]: "replace_char a b s = map (\<lambda>c. if c = a then b else c) s"

definition remove_char :: "char \<Rightarrow> string \<Rightarrow> string" where
  [go_string]: "remove_char a s = filter (\<lambda>c. c \<noteq> a) s"

definition has_prefix :: "string \<Rightarrow> string \<Rightarrow> bool" where
  [go_string]: "has_prefix s p \<longleftrightarrow> take (length p) s = p"

definition trim_suffix :: "string \<Rightarrow> string \<Rightarrow> string" where
  [go_string]: "trim_suffix s p =
     (if length p \<le> length s \<and> drop (length s - length p) s = p
      then take (length s - length p) s else s)"

text \<open>\<^verbatim>\<open>strings.Split\<close> at a one-byte separator: never empty, \<^verbatim>\<open>Split("", ":")\<close> is one empty part.\<close>

fun split_on :: "char \<Rightarrow> string \<Rightarrow> string list" where
  "split_on c [] = [[]]"
| "split_on c (x # xs) =
     (if x = c then [] # split_on c xs
      else (case split_on c xs of [] \<Rightarrow> [[x]] | p # ps \<Rightarrow> (x # p) # ps))"

fun join :: "string \<Rightarrow> string list \<Rightarrow> string" where
  "join sep [] = []"
| "join sep [p] = p"
| "join sep (p # q # ps) = p @ sep @ join sep (q # ps)"

text \<open>\<^verbatim>\<open>strings.Fields\<close>: the maximal runs of non-space bytes.\<close>

fun str_fields_aux :: "string \<Rightarrow> string \<Rightarrow> string list" where
  "str_fields_aux acc [] = (if acc = [] then [] else [rev acc])"
| "str_fields_aux acc (x # xs) =
     (if is_space x then (if acc = [] then str_fields_aux [] xs else rev acc # str_fields_aux [] xs)
      else str_fields_aux (x # acc) xs)"

definition str_fields :: "string \<Rightarrow> string list" where
  [go_string]: "str_fields s = str_fields_aux [] s"

text \<open>\<^verbatim>\<open>strings.IndexByte\<close> and \<^verbatim>\<open>strings.IndexAny\<close>: the first position whose byte satisfies \<open>p\<close>,
  \<open>None\<close> for -1.\<close>

fun index_where :: "(char \<Rightarrow> bool) \<Rightarrow> string \<Rightarrow> nat option" where
  "index_where p [] = None"
| "index_where p (x # xs) = (if p x then Some 0 else map_option Suc (index_where p xs))"

lemma index_where_Some:
  "index_where p s = Some i \<Longrightarrow> i < length s \<and> p (s ! i) \<and> (\<forall>j<i. \<not> p (s ! j))"
proof (induction s arbitrary: i)
  case Nil
  then show ?case by simp
next
  case (Cons x xs)
  then show ?case
    by (auto split: if_splits simp: nth_Cons' less_Suc_eq_0_disj)
qed

lemma index_where_None: "index_where p s = None \<longleftrightarrow> (\<forall>c \<in> set s. \<not> p c)"
  by (induction s) auto

lemma split_on_nonempty [simp]: "split_on c s \<noteq> []"
  by (induction s) (auto split: list.splits)

lemma split_on_no_sep: "p \<in> set (split_on c s) \<Longrightarrow> c \<notin> set p"
proof (induction s arbitrary: p)
  case Nil
  then show ?case by simp
next
  case (Cons x xs)
  then show ?case by (cases "split_on c xs") (auto split: if_splits)
qed

lemma join_split [simp]: "join [c] (split_on c s) = s"
proof (induction s)
  case Nil
  then show ?case by simp
next
  case (Cons x xs)
  obtain p ps where "split_on c xs = p # ps"
    using split_on_nonempty [of c xs] by (cases "split_on c xs") auto
  with Cons show ?case by (cases ps) auto
qed

lemma split_on_append_sep:
  "c \<notin> set p \<Longrightarrow> split_on c (p @ c # s) = p # split_on c s"
  by (induction p) auto

lemma split_on_free: "c \<notin> set p \<Longrightarrow> split_on c p = [p]"
  by (induction p) auto

lemma split_join:
  assumes "ps \<noteq> []" and "\<forall>p \<in> set ps. c \<notin> set p"
  shows "split_on c (join [c] ps) = ps"
  using assms
  by (induction "[c]" ps rule: join.induct) (auto simp: split_on_append_sep split_on_free)

lemma map_split_on:
  assumes "\<And>x. x \<in> set s \<Longrightarrow> (f x = c) = (x = c)"
  shows "split_on c (map f s) = map (map f) (split_on c s)"
  using assms
proof (induction s)
  case Nil
  then show ?case by simp
next
  case (Cons x xs)
  have IH: "split_on c (map f xs) = map (map f) (split_on c xs)"
    using Cons by simp
  obtain p ps where "split_on c xs = p # ps"
    using split_on_nonempty [of c xs] by (cases "split_on c xs") auto
  with Cons.prems [of x] IH show ?case by auto
qed

text \<open>Characters are compared through their byte values.\<close>

lemma char_eq_nat: "a = b \<longleftrightarrow> (of_char a :: nat) = of_char b"
  by simp

lemma of_char_lower: "(of_char (lower_char c) :: nat) =
    (if 65 \<le> (of_char c :: nat) \<and> (of_char c :: nat) \<le> 90 then of_char c + 32 else of_char c)"
  by (simp add: lower_char_def Let_def)

lemma of_char_upper: "(of_char (upper_char c) :: nat) =
    (if 97 \<le> (of_char c :: nat) \<and> (of_char c :: nat) \<le> 122 then of_char c - 32 else of_char c)"
  using nat_of_char_less_256 [of c] by (auto simp: upper_char_def Let_def)

lemma lower_char_idem [simp]: "lower_char (lower_char c) = lower_char c"
  by (simp only: char_eq_nat of_char_lower) simp

lemma lower_upper_char [simp]: "lower_char (upper_char c) = lower_char c"
  by (simp only: char_eq_nat of_char_lower of_char_upper) auto

lemma is_space_lower [simp]: "is_space (lower_char c) = is_space c"
  by (auto simp: is_space_def Let_def of_char_lower)

lemma is_space_upper [simp]: "is_space (upper_char c) = is_space c"
  by (auto simp: is_space_def Let_def of_char_upper)

lemma lower_char_eq_punct:
  assumes "(of_char d :: nat) < 65 \<or> 122 < (of_char d :: nat)"
  shows "lower_char c = d \<longleftrightarrow> c = d"
  using assms by (simp only: char_eq_nat of_char_lower) auto

lemma dropWhile_hd: "s \<noteq> [] \<Longrightarrow> \<not> p (hd s) \<Longrightarrow> dropWhile p s = s"
  by (cases s) auto

lemma trim_right_id: "s \<noteq> [] \<Longrightarrow> \<not> p (last s) \<Longrightarrow> trim_right p s = s"
  by (simp add: trim_right_def dropWhile_hd hd_rev)

lemma trim_right_Nil [simp]: "trim_right p [] = []"
  by (simp add: trim_right_def)

lemma trim_space_Nil [simp]: "trim_space [] = []"
  by (simp add: trim_space_def)

lemma trim_right_last: "trim_right p s \<noteq> [] \<Longrightarrow> \<not> p (last (trim_right p s))"
  by (metis trim_right_def hd_dropWhile last_rev rev_is_Nil_conv)

lemma trim_right_prefix: "\<exists>t. s = trim_right p s @ t"
  by (metis trim_right_def rev_append rev_rev_ident takeWhile_dropWhile_id)

lemma trim_space_id:
  "s \<noteq> [] \<Longrightarrow> \<not> is_space (hd s) \<Longrightarrow> \<not> is_space (last s) \<Longrightarrow> trim_space s = s"
  by (simp add: trim_space_def dropWhile_hd trim_right_id)

lemma trim_space_ends:
  assumes "trim_space s \<noteq> []"
  shows "\<not> is_space (hd (trim_space s)) \<and> \<not> is_space (last (trim_space s))"
proof -
  let ?d = "dropWhile is_space s"
  obtain t where t: "?d = trim_space s @ t"
    using trim_right_prefix [of ?d is_space] by (auto simp: trim_space_def)
  with assms have "?d \<noteq> []" by auto
  then have "\<not> is_space (hd ?d)" by (rule hd_dropWhile)
  with t assms have "\<not> is_space (hd (trim_space s))" by simp
  moreover have "\<not> is_space (last (trim_space s))"
    using assms unfolding trim_space_def by (rule trim_right_last)
  ultimately show ?thesis by simp
qed

lemma trim_space_map:
  assumes "\<And>c. is_space (f c) = is_space c"
  shows "trim_space (map f s) = map f (trim_space s)"
proof -
  have "is_space \<circ> f = is_space" using assms by (simp add: fun_eq_iff)
  then show ?thesis
    by (simp add: trim_space_def trim_right_def dropWhile_map rev_map)
qed

section \<open>Go maps: iteration order\<close>

text \<open>
  A Go map is a HOL map. A \<^verbatim>\<open>range\<close> over it visits every key once in an unspecified order, so
  a function of the model that ranges over a map takes the order as an argument; theorems hold
  for every list that enumerates the keys.
\<close>

definition enumerates :: "'k list \<Rightarrow> 'k set \<Rightarrow> bool" where
  "enumerates ks A \<longleftrightarrow> distinct ks \<and> set ks = A"

lemma enumerates_empty [simp]: "enumerates ks {} \<longleftrightarrow> ks = []"
  by (auto simp: enumerates_def)

lemma enumerates_mset:
  "enumerates xs A \<Longrightarrow> enumerates ys A \<Longrightarrow> mset xs = mset ys"
  by (auto simp: enumerates_def set_eq_iff_mset_eq_distinct)

text \<open>A loop that updates one key per turn, by a value of the key alone, is the pointwise update.\<close>

lemma fold_upd_pointwise:
  "distinct ks \<Longrightarrow>
   fold (\<lambda>k m. m(k := g k (m k))) ks m = (\<lambda>k. if k \<in> set ks then g k (m k) else m k)"
  by (induction ks arbitrary: m) (auto simp: fun_eq_iff)

lemma set_map_filter_iff: "y \<in> set (List.map_filter f xs) \<longleftrightarrow> (\<exists>x \<in> set xs. f x = Some y)"
  by (induction xs) (auto simp: map_filter_simps split: option.splits)

lemma list_all2_in_set2: "list_all2 P xs ys \<Longrightarrow> y \<in> set ys \<Longrightarrow> \<exists>x \<in> set xs. P x y"
  by (induction xs ys rule: list_all2_induct) auto

lemma filter_imp: "(\<And>x. P x \<Longrightarrow> Q x) \<Longrightarrow> filter P (filter Q xs) = filter P xs"
  by (induction xs) auto

section \<open>sort.Slice\<close>

text \<open>
  \<^verbatim>\<open>sort.Slice\<close> with a comparison \<open>lt\<close>: insertion sort stands for the unspecified
  algorithm. For a strict weak order the result is sorted and a permutation; where the
  comparison tells all elements apart, every correct algorithm gives this same list.
\<close>

fun insert_by :: "('a \<Rightarrow> 'a \<Rightarrow> bool) \<Rightarrow> 'a \<Rightarrow> 'a list \<Rightarrow> 'a list" where
  "insert_by lt x [] = [x]"
| "insert_by lt x (y # ys) = (if lt y x then y # insert_by lt x ys else x # y # ys)"

fun sort_slice :: "('a \<Rightarrow> 'a \<Rightarrow> bool) \<Rightarrow> 'a list \<Rightarrow> 'a list" where
  "sort_slice lt [] = []"
| "sort_slice lt (x # xs) = insert_by lt x (sort_slice lt xs)"

lemma mset_insert_by [simp]: "mset (insert_by lt x ys) = add_mset x (mset ys)"
  by (induction ys) auto

lemma mset_sort_slice [simp]: "mset (sort_slice lt xs) = mset xs"
  by (induction xs) auto

lemma set_sort_slice [simp]: "set (sort_slice lt xs) = set xs"
  by (metis mset_sort_slice set_mset_mset)

lemma set_insert_by [simp]: "set (insert_by lt x ys) = insert x (set ys)"
  by (induction ys) auto

locale slice_order =
  fixes lt :: "'a \<Rightarrow> 'a \<Rightarrow> bool"
  assumes lt_asym: "lt a b \<Longrightarrow> \<not> lt b a"
    and lt_neg_trans: "\<not> lt a b \<Longrightarrow> \<not> lt b c \<Longrightarrow> \<not> lt a c"
begin

lemma insert_by_sorted:
  "sorted_wrt (\<lambda>a b. \<not> lt b a) ys \<Longrightarrow> sorted_wrt (\<lambda>a b. \<not> lt b a) (insert_by lt x ys)"
  by (induction ys) (auto dest: lt_asym lt_neg_trans)

lemma sort_slice_sorted: "sorted_wrt (\<lambda>a b. \<not> lt b a) (sort_slice lt xs)"
  by (induction xs) (auto intro: insert_by_sorted)

lemma sorted_unique:
  assumes "\<And>a b. a \<in> set xs \<Longrightarrow> b \<in> set xs \<Longrightarrow> a \<noteq> b \<Longrightarrow> lt a b \<or> lt b a"
    and "mset xs = mset ys"
    and "sorted_wrt (\<lambda>a b. \<not> lt b a) xs" and "sorted_wrt (\<lambda>a b. \<not> lt b a) ys"
  shows "xs = ys"
  using assms
proof (induction xs arbitrary: ys)
  case Nil
  then show ?case by simp
next
  case (Cons x xs)
  then obtain y ys' where ys: "ys = y # ys'" by (cases ys) auto
  have s: "set (x # xs) = set ys" using Cons.prems(2) by (metis set_mset_mset)
  have "x = y"
  proof (rule ccontr)
    assume "x \<noteq> y"
    then have "y \<in> set xs" "x \<in> set ys'" using s ys by auto
    then have "\<not> lt y x" "\<not> lt x y" using Cons.prems(3,4) ys by auto
    with Cons.prems(1) \<open>x \<noteq> y\<close> \<open>y \<in> set xs\<close> show False by auto
  qed
  moreover have "xs = ys'"
    using Cons.prems \<open>x = y\<close> ys by (intro Cons.IH) auto
  ultimately show ?case using ys by simp
qed

lemma sort_slice_unique:
  assumes "\<And>a b. a \<in> set xs \<Longrightarrow> b \<in> set xs \<Longrightarrow> a \<noteq> b \<Longrightarrow> lt a b \<or> lt b a"
    and "mset xs = mset ys"
  shows "sort_slice lt xs = sort_slice lt ys"
  using assms by (intro sorted_unique) (auto simp: sort_slice_sorted)

end

section \<open>State machines\<close>

inductive reachable :: "('s \<Rightarrow> bool) \<Rightarrow> ('s \<Rightarrow> 's \<Rightarrow> bool) \<Rightarrow> 's \<Rightarrow> bool" for init step where
  reach_init: "init s \<Longrightarrow> reachable init step s"
| reach_step: "reachable init step s \<Longrightarrow> step s t \<Longrightarrow> reachable init step t"

text \<open>The contract of an inductive invariant; each concurrent component interprets it.\<close>

locale state_machine =
  fixes init :: "'s \<Rightarrow> bool" and step :: "'s \<Rightarrow> 's \<Rightarrow> bool" and inv :: "'s \<Rightarrow> bool"
  assumes inv_init: "init s \<Longrightarrow> inv s"
    and inv_step: "inv s \<Longrightarrow> step s t \<Longrightarrow> inv t"
begin

lemma reachable_inv: "reachable init step s \<Longrightarrow> inv s"
  by (induction rule: reachable.induct) (auto intro: inv_init inv_step)

end

text \<open>
  A machine whose steps are the enabled actions of a type, each a function on the state, and its
  sequential runs: \<open>None\<close> when an action of the list is not enabled where its turn comes.
\<close>

fun run_actions :: "('a \<Rightarrow> 's \<Rightarrow> bool) \<Rightarrow> ('a \<Rightarrow> 's \<Rightarrow> 's) \<Rightarrow> 'a list \<Rightarrow> 's \<Rightarrow> 's option" where
  "run_actions enabled perform [] s = Some s"
| "run_actions enabled perform (a # as) s =
     (if enabled a s then run_actions enabled perform as (perform a s) else None)"

lemma run_actions_append: "run_actions en pf (as @ bs) x = Option.bind (run_actions en pf as x) (run_actions en pf bs)"
  by (induction as arbitrary: x) auto

locale action_machine = state_machine init step inv
  for init :: "'s \<Rightarrow> bool" and step :: "'s \<Rightarrow> 's \<Rightarrow> bool" and inv :: "'s \<Rightarrow> bool" +
  fixes enabled :: "'a \<Rightarrow> 's \<Rightarrow> bool" and perform :: "'a \<Rightarrow> 's \<Rightarrow> 's"
  assumes act_step: "enabled a s \<Longrightarrow> step s (perform a s)"
begin

lemma run_reachable:
  "reachable init step s \<Longrightarrow> run_actions enabled perform as s = Some t \<Longrightarrow> reachable init step t"
  by (induction as arbitrary: s) (auto split: if_splits intro: reach_step act_step)

lemma inv_perform: "inv s \<Longrightarrow> enabled a s \<Longrightarrow> inv (perform a s)"
  using inv_step act_step by blast

lemma run_inv: "inv s \<Longrightarrow> run_actions enabled perform as s = Some t \<Longrightarrow> inv t"
  by (induction as arbitrary: s) (auto split: if_splits intro: inv_perform)

end

end
