(* ===== verification/Tables.thy ===== *)
theory Tables
  imports Prelude "HOL-Library.Product_Order"
begin

text \<open>
  The SQL the store issues, as functions on row lists: a table is the list of its rows in rowid
  order, \<open>UPDATE\<close>, \<open>DELETE\<close>, \<open>INSERT\<close> and \<open>SELECT ... WHERE mac=?\<close> are list functions, and
  \<open>table_map\<close> abstracts a table with a primary key to a map from keys to rows. The locale
  \<open>upsert_table\<close> states what an \<open>INSERT ... ON CONFLICT DO UPDATE\<close> owes its clients; the
  store interprets it for each of its two upserts.
\<close>

section \<open>Statements on row lists\<close>

definition update_where :: "('r \<Rightarrow> bool) \<Rightarrow> ('r \<Rightarrow> 'r) \<Rightarrow> 'r list \<Rightarrow> 'r list" where
  [sql]: "update_where p g rows = map (\<lambda>r. if p r then g r else r) rows"

definition delete_where :: "('r \<Rightarrow> bool) \<Rightarrow> 'r list \<Rightarrow> 'r list" where
  [sql]: "delete_where p rows = filter (\<lambda>r. \<not> p r) rows"

definition insert_or_ignore :: "'r \<Rightarrow> 'r list \<Rightarrow> 'r list" where
  [sql]: "insert_or_ignore x rows = (if x \<in> set rows then rows else rows @ [x])"

text \<open>\<open>INSERT ... ON CONFLICT(key) DO UPDATE\<close>: \<open>merge excluded old\<close> is the updated row.\<close>

definition upsert :: "('r \<Rightarrow> 'k) \<Rightarrow> ('r \<Rightarrow> 'r \<Rightarrow> 'r) \<Rightarrow> 'r \<Rightarrow> 'r list \<Rightarrow> 'r list" where
  "upsert key merge x rows =
     (if \<exists>r \<in> set rows. key r = key x
      then update_where (\<lambda>r. key r = key x) (merge x) rows
      else rows @ [x])"

definition table_map :: "('r \<Rightarrow> 'k) \<Rightarrow> 'r list \<Rightarrow> ('k \<Rightarrow> 'r option)" where
  "table_map key rows k = find (\<lambda>r. key r = k) rows"

definition primary_key :: "('r \<Rightarrow> 'k) \<Rightarrow> 'r list \<Rightarrow> bool" where
  "primary_key key rows \<longleftrightarrow> distinct (map key rows)"

section \<open>A table as a map\<close>

lemma table_map_Nil [simp]: "table_map key [] k = None"
  by (simp add: table_map_def)

lemma table_map_Cons [simp]:
  "table_map key (r # rows) k = (if key r = k then Some r else table_map key rows k)"
  by (simp add: table_map_def)

lemma table_map_append:
  "table_map key (xs @ ys) k = (case table_map key xs k of None \<Rightarrow> table_map key ys k | Some r \<Rightarrow> Some r)"
  by (induction xs) auto

lemma table_map_key: "table_map key rows k = Some r \<Longrightarrow> key r = k \<and> r \<in> set rows"
  by (induction rows) (auto split: if_splits)

lemma table_map_None: "table_map key rows k = None \<longleftrightarrow> k \<notin> key ` set rows"
  by (induction rows) auto

lemma table_map_notin: "k \<notin> key ` set rows \<Longrightarrow> table_map key rows k = None"
  by (simp add: table_map_None)

lemma table_map_in:
  "primary_key key rows \<Longrightarrow> r \<in> set rows \<Longrightarrow> table_map key rows (key r) = Some r"
  by (induction rows) (auto simp: primary_key_def image_iff)

lemma dom_table_map: "dom (table_map key rows) = key ` set rows"
  using table_map_None [of key rows] by (auto simp: dom_def)

lemma table_map_update:
  assumes "\<And>r. key (g r) = key r"
  shows "table_map key (update_where (\<lambda>r. key r = k \<and> p r) g rows) j =
    (case table_map key rows j of None \<Rightarrow> None
     | Some r \<Rightarrow> Some (if j = k \<and> p r then g r else r))"
  by (induction rows) (auto simp: update_where_def assms)

lemma table_map_update_key:
  assumes "\<And>r. key (g r) = key r"
  shows "table_map key (update_where (\<lambda>r. key r = k) g rows) j =
    (if j = k then map_option g (table_map key rows j) else table_map key rows j)"
  using table_map_update [of key g k "\<lambda>_. True" rows j, OF assms]
  by (auto split: option.splits)

lemma table_map_delete:
  "table_map key (delete_where (\<lambda>r. key r = k) rows) j = (if j = k then None else table_map key rows j)"
  by (induction rows) (auto simp: delete_where_def)

lemma primary_key_map:
  assumes "\<And>r. key (h r) = key r"
  shows "primary_key key (map h rows) = primary_key key rows"
  by (simp add: primary_key_def comp_def assms)

lemma primary_key_update:
  assumes "\<And>r. key (g r) = key r"
  shows "primary_key key (update_where p g rows) = primary_key key rows"
  unfolding update_where_def by (rule primary_key_map) (simp add: assms)

lemma primary_key_delete: "primary_key key rows \<Longrightarrow> primary_key key (delete_where p rows)"
  by (simp add: primary_key_def delete_where_def distinct_map inj_on_def)

lemma set_update_where: "set (update_where p g rows) = (\<lambda>r. if p r then g r else r) ` set rows"
  by (simp add: update_where_def)

lemma set_delete_where: "set (delete_where p rows) = {r \<in> set rows. \<not> p r}"
  by (auto simp: delete_where_def)

lemma keys_update_where:
  assumes "\<And>r. key (g r) = key r"
  shows "map key (update_where p g rows) = map key rows"
  by (simp add: update_where_def assms)

lemma table_map_delete_other:
  assumes "primary_key key rows"
  shows "table_map key (delete_where p rows) k =
    (case table_map key rows k of None \<Rightarrow> None | Some r \<Rightarrow> if p r then None else Some r)"
  using assms
  by (induction rows) (auto simp: delete_where_def primary_key_def table_map_notin
      split: option.splits)

lemma table_map_ex: "k \<in> key ` set rows \<Longrightarrow> \<exists>r. table_map key rows k = Some r"
  using table_map_None [of key rows k] by auto

section \<open>The upsert contract\<close>

locale upsert_table =
  fixes key :: "'r \<Rightarrow> 'k"
    and merge :: "'r \<Rightarrow> 'r \<Rightarrow> 'r"
  assumes key_merge: "key (merge x r) = key r"
begin

lemma table_map_upsert:
  "table_map key (upsert key merge x rows) j =
    (if j = key x
     then Some (case table_map key rows j of None \<Rightarrow> x | Some r \<Rightarrow> merge x r)
     else table_map key rows j)"
proof (cases "\<exists>r \<in> set rows. key r = key x")
  case True
  then have "key x \<in> key ` set rows"
    by (metis image_eqI)
  then obtain r where "table_map key rows (key x) = Some r"
    by (auto simp: dom_table_map [symmetric])
  then show ?thesis
    using True by (auto simp: upsert_def table_map_update_key key_merge)
next
  case False
  then have "table_map key rows (key x) = None"
    by (auto simp: table_map_None)
  with False show ?thesis
    by (auto simp: upsert_def table_map_append split: option.splits)
qed

lemma primary_key_upsert:
  "primary_key key rows \<Longrightarrow> primary_key key (upsert key merge x rows)"
  using primary_key_update [of key "merge x" "\<lambda>r. key r = key x" rows]
  by (auto simp: upsert_def key_merge primary_key_def)

lemma set_upsert: "r \<in> set (upsert key merge x rows) \<Longrightarrow>
  r = x \<or> r \<in> set rows \<or> (\<exists>r0 \<in> set rows. key r0 = key x \<and> r = merge x r0)"
  by (auto simp: upsert_def set_update_where split: if_splits)

end

end
