(* ===== verification/Macs.thy ===== *)
theory Macs
  imports Prelude
begin

text \<open>
  MAC addresses, the durable identity of a device: \<^verbatim>\<open>NormMAC\<close> of \<^verbatim>\<open>store/store.go\<close>,
  \<^verbatim>\<open>normMAC\<close> of \<^verbatim>\<open>neigh/neigh.go\<close>, the pattern \<^verbatim>\<open>macRe\<close> of \<^verbatim>\<open>server/api.go\<close>, and the
  functions of package \<^verbatim>\<open>net\<close> they meet (\<^verbatim>\<open>net.ParseMAC\<close>, \<^verbatim>\<open>HardwareAddr.String\<close>).
  The lemmas show that every route a MAC takes into the program ends in one canonical spelling.
\<close>

section \<open>Hexadecimal digits\<close>

definition hex_val :: "char \<Rightarrow> nat option" where
  "hex_val c = (let n = (of_char c :: nat) in
     if 48 \<le> n \<and> n \<le> 57 then Some (n - 48)
     else if 97 \<le> n \<and> n \<le> 102 then Some (n - 87)
     else if 65 \<le> n \<and> n \<le> 70 then Some (n - 55) else None)"

definition hex_lower :: "nat \<Rightarrow> char" where
  "hex_lower v = char_of (if v < 10 then 48 + v else 87 + v)"

definition is_hex :: "char \<Rightarrow> bool" where
  "is_hex c \<longleftrightarrow> hex_val c \<noteq> None"

lemma hex_val_less: "hex_val c = Some v \<Longrightarrow> v < 16"
  by (auto simp: hex_val_def Let_def split: if_splits)

lemma of_char_hex_lower:
  "v < 16 \<Longrightarrow> (of_char (hex_lower v) :: nat) = (if v < 10 then 48 + v else 87 + v)"
  by (auto simp: hex_lower_def)

lemma hex_val_lower [simp]: "v < 16 \<Longrightarrow> hex_val (hex_lower v) = Some v"
  by (auto simp: hex_val_def Let_def of_char_hex_lower)

lemma lower_hex: "hex_val c = Some v \<Longrightarrow> lower_char c = hex_lower v"
  by (simp only: char_eq_nat of_char_lower)
    (auto simp: hex_val_def hex_lower_def Let_def split: if_splits)

lemma lower_hex_lower [simp]: "v < 16 \<Longrightarrow> lower_char (hex_lower v) = hex_lower v"
  by (rule lower_hex) simp

lemma hex_lower_not_space [simp]: "v < 16 \<Longrightarrow> \<not> is_space (hex_lower v)"
  by (auto simp: is_space_def Let_def of_char_hex_lower)

lemma hex_lower_neq [simp]:
  assumes "v < 16"
  shows "hex_lower v \<noteq> CHR '':''" "hex_lower v \<noteq> CHR ''-''" "hex_lower v \<noteq> CHR ''.''"
  using assms by (simp_all only: char_eq_nat of_char_hex_lower) auto

lemma is_hex_not_sep:
  assumes "is_hex c"
  shows "c \<noteq> CHR '':''" "c \<noteq> CHR ''-''" "\<not> is_space c"
  using assms by (auto simp: is_hex_def hex_val_def is_space_def Let_def split: if_splits)

section \<open>HardwareAddr.String and ParseMAC\<close>

definition octet_string :: "byte \<Rightarrow> string" where
  "octet_string b = [hex_lower (unat b div 16), hex_lower (unat b mod 16)]"

definition hw_string :: "byte list \<Rightarrow> string" where
  "hw_string hw = join '':'' (map octet_string hw)"

text \<open>The two-digit byte read by \<^verbatim>\<open>xtoi2\<close>.\<close>

definition hex_byte :: "char \<Rightarrow> char \<Rightarrow> byte option" where
  "hex_byte a b = (case (hex_val a, hex_val b) of
     (Some x, Some y) \<Rightarrow> Some (of_nat (16 * x + y)) | _ \<Rightarrow> None)"

fun mac_groups :: "char \<Rightarrow> string \<Rightarrow> byte list option" where
  "mac_groups e [a, b] = map_option (\<lambda>x. [x]) (hex_byte a b)"
| "mac_groups e (a # b # c # r) =
     (if c \<noteq> e then None
      else (case hex_byte a b of None \<Rightarrow> None
            | Some x \<Rightarrow> map_option ((#) x) (mac_groups e r)))"
| "mac_groups e _ = None"

fun mac_quads :: "string \<Rightarrow> byte list option" where
  "mac_quads [a, b, c, d] =
     (case (hex_byte a b, hex_byte c d) of (Some x, Some y) \<Rightarrow> Some [x, y] | _ \<Rightarrow> None)"
| "mac_quads (a # b # c # d # e # r) =
     (if e \<noteq> CHR ''.'' then None
      else (case (hex_byte a b, hex_byte c d) of
              (Some x, Some y) \<Rightarrow> map_option (\<lambda>t. x # y # t) (mac_quads r) | _ \<Rightarrow> None))"
| "mac_quads _ = None"

definition ParseMAC :: "string \<Rightarrow> byte list option" where
  "ParseMAC s =
     (if length s < 14 then None
      else if s ! 2 = CHR '':'' \<or> s ! 2 = CHR ''-'' then
        (let n = (length s + 1) div 3 in
         if (length s + 1) mod 3 \<noteq> 0 \<or> n \<notin> {6, 8, 20} then None
         else mac_groups (s ! 2) s)
      else if s ! 4 = CHR ''.'' then
        (let n = 2 * (length s + 1) div 5 in
         if (length s + 1) mod 5 \<noteq> 0 \<or> n \<notin> {6, 8, 20} then None
         else mac_quads s)
      else None)"

section \<open>NormMAC, normMAC, macRe\<close>

definition pad_octet :: "string \<Rightarrow> string" where
  "pad_octet p = (if length p = 1 then CHR ''0'' # p else p)"

definition NormMAC :: "string \<Rightarrow> string" where
  "NormMAC m =
     (let m1 = to_lower (trim_space m);
          m2 = replace_char (CHR ''-'') (CHR '':'') m1;
          parts = split_on (CHR '':'') m2
      in if length parts \<noteq> 6 then m2 else join '':'' (map pad_octet parts))"

definition neigh_normMAC :: "string \<Rightarrow> string" where
  "neigh_normMAC m =
     (let m1 = to_lower (trim_space (replace_char (CHR ''-'') (CHR '':'') m));
          parts = split_on (CHR '':'') m1
      in if length parts \<noteq> 6 then m1 else join '':'' (map pad_octet parts))"

text \<open>The pattern \<^verbatim>\<open>^([0-9a-fA-F]{2}[:\-]){5}[0-9a-fA-F]{2}$\<close>, matched group by group.\<close>

fun mac_re_groups :: "nat \<Rightarrow> string \<Rightarrow> bool" where
  "mac_re_groups 0 s = (case s of [a, b] \<Rightarrow> is_hex a \<and> is_hex b | _ \<Rightarrow> False)"
| "mac_re_groups (Suc n) s =
     (case s of a # b # c # r \<Rightarrow>
        is_hex a \<and> is_hex b \<and> (c = CHR '':'' \<or> c = CHR ''-'') \<and> mac_re_groups n r
      | _ \<Rightarrow> False)"

definition macRe :: "string \<Rightarrow> bool" where
  "macRe s = mac_re_groups 5 s"

text \<open>The canonical spelling: six octets as \<^verbatim>\<open>HardwareAddr.String\<close> prints them.\<close>

definition canonical_mac :: "string \<Rightarrow> bool" where
  "canonical_mac m \<longleftrightarrow>
     (case ParseMAC m of None \<Rightarrow> False | Some hw \<Rightarrow> length hw = 6 \<and> hw_string hw = m)"

section \<open>The canonical spelling\<close>

lemma octet_val [simp]: "unat (b :: byte) div 16 < 16" "unat (b :: byte) mod 16 < 16"
  using unat_byte_less [of b] by arith+

lemma length_octet_string [simp]: "length (octet_string b) = 2"
  by (simp add: octet_string_def)

lemma octet_string_no_colon [simp]: "CHR '':'' \<notin> set (octet_string b)"
  by (auto simp: octet_string_def dest: sym)

lemma pad_octet_string [simp]: "pad_octet (octet_string b) = octet_string b"
  by (simp add: pad_octet_def)

lemma hex_byte_octet [simp]:
  "hex_byte (hex_lower (unat b div 16)) (hex_lower (unat b mod 16)) = Some b"
  by (simp add: hex_byte_def)

lemma hex_byteD:
  assumes "hex_byte a b = Some x"
  shows "[lower_char a, lower_char b] = octet_string x"
proof -
  obtain u v where uv: "hex_val a = Some u" "hex_val b = Some v"
    and x: "x = of_nat (16 * u + v)"
    using assms by (auto simp: hex_byte_def split: option.splits)
  then have lt: "u < 16" "v < 16" by (auto dest: hex_val_less)
  then have "unat x = 16 * u + v"
    unfolding x unat_of_nat by simp
  with lt uv show ?thesis by (simp add: octet_string_def lower_hex)
qed

lemma hex_byte_Some: "is_hex a \<Longrightarrow> is_hex b \<Longrightarrow> \<exists>x. hex_byte a b = Some x"
  by (auto simp: is_hex_def hex_byte_def)

lemma hw_string_Cons:
  "hw_string (b # bs) = octet_string b @ (if bs = [] then [] else CHR '':'' # hw_string bs)"
  by (cases bs) (auto simp: hw_string_def)

lemma hw_string_Nil [simp]: "hw_string [] = []"
  by (simp add: hw_string_def)

lemma hw_string_ends:
  "bs \<noteq> [] \<Longrightarrow> hw_string bs \<noteq> [] \<and> \<not> is_space (hd (hw_string bs)) \<and> \<not> is_space (last (hw_string bs))"
  by (induction bs) (auto simp: hw_string_Cons octet_string_def)

lemma split_hw_string: "bs \<noteq> [] \<Longrightarrow> split_on (CHR '':'') (hw_string bs) = map octet_string bs"
  unfolding hw_string_def by (rule split_join) auto

lemma length_hw_string: "bs \<noteq> [] \<Longrightarrow> length (hw_string bs) = 3 * length bs - 1"
  by (induction bs) (auto simp: hw_string_Cons)

lemma mac_groups_hw_string: "bs \<noteq> [] \<Longrightarrow> mac_groups (CHR '':'') (hw_string bs) = Some bs"
proof (induction bs)
  case Nil
  then show ?case by simp
next
  case (Cons b bs)
  then show ?case
    by (cases bs) (auto simp: hw_string_Cons octet_string_def)
qed

text \<open>What the program prints as a MAC, package \<^verbatim>\<open>net\<close> reads back.\<close>

lemma ParseMAC_hw_string:
  assumes "length bs \<in> {6, 8, 20}"
  shows "ParseMAC (hw_string bs) = Some bs"
proof -
  have ne: "bs \<noteq> []" using assms by auto
  have "hw_string bs ! 2 = CHR '':''"
    using assms by (cases bs) (auto simp: hw_string_Cons octet_string_def)
  moreover have "length (hw_string bs) + 1 = 3 * length bs"
    using ne by (cases bs) (auto simp: length_hw_string)
  ultimately show ?thesis
    using assms ne by (auto simp: ParseMAC_def mac_groups_hw_string)
qed

lemma canonical_mac_iff: "canonical_mac m \<longleftrightarrow> (\<exists>bs. length bs = 6 \<and> m = hw_string bs)"
  by (auto simp: canonical_mac_def ParseMAC_hw_string split: option.splits)

definition norm_char :: "char \<Rightarrow> char" where
  "norm_char c = (if lower_char c = CHR ''-'' then CHR '':'' else lower_char c)"

lemma replace_to_lower: "replace_char (CHR ''-'') (CHR '':'') (to_lower s) = map norm_char s"
  by (simp add: replace_char_def to_lower_def norm_char_def)

lemma lower_char_dash [simp]: "lower_char c = CHR ''-'' \<longleftrightarrow> c = CHR ''-''"
  by (rule lower_char_eq_punct) simp

lemma lower_char_colon [simp]: "lower_char c = CHR '':'' \<longleftrightarrow> c = CHR '':''"
  by (rule lower_char_eq_punct) simp

lemma lower_char_zero [simp]: "lower_char (CHR ''0'') = CHR ''0''"
  by (simp add: lower_char_eq_punct)

lemma norm_char_idem [simp]: "norm_char (norm_char c) = norm_char c"
  by (cases "c = CHR ''-''") (simp_all add: norm_char_def)

lemma is_space_punct [simp]: "\<not> is_space (CHR '':'')" "\<not> is_space (CHR ''-'')" "\<not> is_space (CHR ''0'')"
  by (simp_all add: is_space_def)

lemma is_space_norm [simp]: "is_space (norm_char c) = is_space c"
  by (cases "c = CHR ''-''") (simp_all add: norm_char_def)

lemma NormMAC_alt:
  "NormMAC m = (let t = map norm_char (trim_space m); parts = split_on (CHR '':'') t
     in if length parts \<noteq> 6 then t else join '':'' (map pad_octet parts))"
  by (simp add: NormMAC_def replace_to_lower Let_def)

lemma mac_re_groups_norm:
  "mac_re_groups n s \<Longrightarrow>
   \<exists>bs. length bs = Suc n \<and> map norm_char s = hw_string bs \<and>
        \<not> is_space (hd s) \<and> \<not> is_space (last s) \<and> s \<noteq> []"
proof (induction n s rule: mac_re_groups.induct)
  case (1 s)
  then obtain a b x where s: "s = [a, b]" "is_hex a" "is_hex b" "hex_byte a b = Some x"
    by (auto split: list.splits dest: hex_byte_Some)
  then have "map norm_char s = hw_string [x]"
    using hex_byteD [of a b x] by (auto simp: norm_char_def hw_string_Cons is_hex_not_sep)
  with s show ?case
    by (intro exI [of _ "[x]"]) (auto simp: is_hex_not_sep)
next
  case (2 n s)
  then obtain a b c r where s: "s = a # b # c # r" "is_hex a" "is_hex b"
    "c = CHR '':'' \<or> c = CHR ''-''" "mac_re_groups n r"
    by (auto split: list.splits)
  obtain x where x: "hex_byte a b = Some x" using s hex_byte_Some by blast
  obtain bs where bs: "length bs = Suc n" "map norm_char r = hw_string bs" "r \<noteq> []"
    "\<not> is_space (last r)"
    using 2(1) [OF s(1) refl refl s(5)] by blast
  have "map norm_char s = hw_string (x # bs)"
    using hex_byteD [OF x] bs s by (auto simp: norm_char_def hw_string_Cons is_hex_not_sep)
  with s bs show ?case
    by (intro exI [of _ "x # bs"]) (auto simp: is_hex_not_sep)
qed

text \<open>A MAC the API accepts is stored in the canonical spelling.\<close>

lemma NormMAC_hw_string_of: "length bs = 6 \<Longrightarrow> map norm_char (trim_space m) = hw_string bs \<Longrightarrow>
  NormMAC m = hw_string bs"
  by (cases "bs = []") (simp_all add: NormMAC_alt split_hw_string comp_def, simp add: hw_string_def)

lemma macRe_canonical: "macRe m \<Longrightarrow> canonical_mac (NormMAC m)"
  unfolding macRe_def canonical_mac_iff
  using mac_re_groups_norm [of 5 m] by (auto simp: trim_space_id NormMAC_hw_string_of)

lemma map_norm_hw_string [simp]: "map norm_char (hw_string bs) = hw_string bs"
  by (induction bs) (auto simp: hw_string_Cons octet_string_def norm_char_def)

lemma NormMAC_hw_string [simp]:
  assumes "length bs = 6"
  shows "NormMAC (hw_string bs) = hw_string bs"
proof -
  have "trim_space (hw_string bs) = hw_string bs"
    using assms hw_string_ends [of bs] by (cases "bs = []") (auto intro: trim_space_id)
  then show ?thesis by (simp add: NormMAC_hw_string_of assms)
qed

text \<open>Both normalisers are one function.\<close>

lemma neigh_normMAC_eq: "neigh_normMAC m = NormMAC m"
proof -
  let ?f = "\<lambda>c. if c = CHR ''-'' then CHR '':'' else c"
  have sp: "is_space (?f c) = is_space c" for c by auto
  have "trim_space (replace_char (CHR ''-'') (CHR '':'') m) =
      replace_char (CHR ''-'') (CHR '':'') (trim_space m)"
    unfolding replace_char_def by (rule trim_space_map) (rule sp)
  moreover have "to_lower (replace_char (CHR ''-'') (CHR '':'') s) =
      replace_char (CHR ''-'') (CHR '':'') (to_lower s)" for s
    by (auto simp: to_lower_def replace_char_def)
  ultimately show ?thesis
    by (simp add: neigh_normMAC_def NormMAC_def Let_def)
qed

text \<open>Normalising twice changes nothing.\<close>

lemma length_6: "length xs = 6 \<longleftrightarrow> (\<exists>a b c d e f. xs = [a, b, c, d, e, f])"
  by (auto simp: length_Suc_conv numeral_eq_Suc)

lemma pad_octet_simps:
  "pad_octet [] = []" "pad_octet (pad_octet p) = pad_octet p"
  "p \<noteq> [] \<Longrightarrow> last (pad_octet p) = last p"
  "p = [] \<or> pad_octet p \<noteq> []"
  by (cases p; auto simp: pad_octet_def)+

lemma NormMAC_six:
  assumes parts: "split_on (CHR '':'') t = [a, b, c, d, e, g]" and t: "map norm_char t = t"
    and ends: "t \<noteq> [] \<Longrightarrow> \<not> is_space (hd t) \<and> \<not> is_space (last t)"
  shows "NormMAC (join '':'' (map pad_octet [a, b, c, d, e, g])) =
    join '':'' (map pad_octet [a, b, c, d, e, g])" (is "NormMAC ?r = ?r")
proof -
  have tj: "t = join '':'' [a, b, c, d, e, g]"
    using parts join_split [of "CHR '':''" t] by simp
  have free: "\<forall>p \<in> set (map pad_octet [a, b, c, d, e, g]). CHR '':'' \<notin> set p"
    using split_on_no_sep [of _ "CHR '':''" t] unfolding parts by (auto simp: pad_octet_def)
  have split: "split_on (CHR '':'') ?r = map pad_octet [a, b, c, d, e, g]"
    using free by (intro split_join) auto
  have nr: "map norm_char ?r = ?r"
    using t unfolding tj by (auto simp: pad_octet_def norm_char_def)
  have "\<not> is_space (hd ?r)"
    using ends unfolding tj by (cases a) (auto simp: pad_octet_def)
  moreover have "\<not> is_space (last ?r)"
    using ends unfolding tj by (cases "g = []") (auto simp: pad_octet_def last_append)
  ultimately have "trim_space ?r = ?r"
    by (intro trim_space_id) auto
  then show ?thesis
    unfolding NormMAC_alt Let_def by (simp only: nr split) (simp add: pad_octet_simps)
qed

lemma NormMAC_idem [simp]: "NormMAC (NormMAC m) = NormMAC m"
proof -
  let ?t = "map norm_char (trim_space m)"
  have ends: "\<not> is_space (hd ?t) \<and> \<not> is_space (last ?t)" if "?t \<noteq> []"
    using that trim_space_ends [of m] by (auto simp: hd_map last_map)
  have n: "map norm_char ?t = ?t" by (simp add: comp_def)
  show ?thesis
  proof (cases "length (split_on (CHR '':'') ?t) = 6")
    case False
    moreover have "trim_space ?t = ?t"
      using ends by (metis trim_space_Nil trim_space_id)
    ultimately show ?thesis by (simp add: NormMAC_alt Let_def comp_def)
  next
    case True
    then obtain a b c d e g where p: "split_on (CHR '':'') ?t = [a, b, c, d, e, g]"
      by (auto simp: length_6)
    have "NormMAC m = join '':'' (map pad_octet [a, b, c, d, e, g])"
      unfolding NormMAC_alt Let_def p by simp
    with NormMAC_six [OF p n ends] show ?thesis by simp
  qed
qed

end
