(* ===== verification/Store.thy ===== *)
theory Store
  imports Tables Macs
begin

text \<open>
  The device database, \<^verbatim>\<open>internal/store/store.go\<close>. The database is a record of row lists, one
  per table; every exported method is a definition on it. A method takes a fault oracle
  \<open>f :: nat \<Rightarrow> bool\<close>: \<open>f k\<close> says that the call's k-th statement (counted from 0, queries
  included) fails, which is how errors of the SQLite driver enter. A method that can fail
  returns its error together with the database the failure leaves behind. Wall-clock seconds
  (\<^verbatim>\<open>now()\<close>) are an argument. Timestamps are \<open>int\<close>: Unix seconds stay far below the int64 bound.
\<close>

type_synonym faults = "nat \<Rightarrow> bool"

datatype store_error = Sql_error | Empty_mac | Scan_error

section \<open>The tables\<close>

record dev_row =
  r_mac :: string
  r_ip :: string
  r_name :: string
  r_name_source :: string
  r_vendor :: string
  r_link :: string
  r_notes :: string
  r_created_at :: int
  r_updated_at :: int
  r_icmp_seen :: int
  r_last_seen_up :: int
  r_last_seen :: int

record device =
  d_MAC :: string
  d_IP :: string
  d_Name :: string
  d_NameSource :: string
  d_Vendor :: string
  d_Link :: string
  d_Notes :: string
  d_CreatedAt :: int
  d_UpdatedAt :: int
  d_Probes :: "int list"
  d_IcmpSeen :: bool
  d_LastSeenUp :: int
  d_LastSeen :: int

record seen_event =
  ev_MAC :: string
  ev_TS :: int
  ev_State :: string
  ev_Signal :: string

record observed =
  ob_MAC :: string
  ob_IP :: string
  ob_Name :: string
  ob_LastSeen :: int

text \<open>A row of the v0 log \<^verbatim>\<open>seen_history\<close>; the state column is never read.\<close>

record hist_row =
  h_mac :: string
  h_ts :: int
  h_signal :: string

record db =
  t_devices :: "dev_row list"
  t_probes :: "(string \<times> int) list"
  t_seen_events :: "seen_event list"
  t_observed :: "observed list"
  t_seen_history :: "hist_row list option"
  dev_columns :: "string list"
  user_version :: int

definition schemaVersion :: int where
  "schemaVersion = 1"

section \<open>Schema migration\<close>

definition deviceCols :: "string list" where
  "deviceCols = [''mac'', ''ip'', ''name'', ''name_source'', ''vendor'', ''link'', ''notes'',
     ''created_at'', ''updated_at'', ''icmp_seen'', ''last_seen_up'', ''last_seen'']"

definition derivedColumns :: "string list" where
  "derivedColumns = [''icmp_seen'', ''last_seen_up'', ''last_seen'']"

text \<open>
  \<^verbatim>\<open>baseSchema\<close> is \<open>IF NOT EXISTS\<close> throughout: it creates the devices table with all columns in
  an empty file (here: \<open>dev_columns = []\<close>) and leaves an existing table's columns alone.
\<close>

definition base_schema :: "db \<Rightarrow> db" where
  "base_schema db = (if dev_columns db = [] then db\<lparr>dev_columns := deviceCols\<rparr> else db)"

text \<open>\<^verbatim>\<open>ALTER TABLE devices ADD COLUMN c INTEGER NOT NULL DEFAULT 0\<close>.\<close>

definition add_column :: "string \<Rightarrow> db \<Rightarrow> db" where
  "add_column c db = db\<lparr>dev_columns := dev_columns db @ [c],
     t_devices := map (\<lambda>r.
       if c = ''icmp_seen'' then r\<lparr>r_icmp_seen := 0\<rparr>
       else if c = ''last_seen_up'' then r\<lparr>r_last_seen_up := 0\<rparr>
       else if c = ''last_seen'' then r\<lparr>r_last_seen := 0\<rparr> else r) (t_devices db)\<rparr>"

fun add_derived :: "faults \<Rightarrow> nat \<Rightarrow> string list \<Rightarrow> string list \<Rightarrow> db \<Rightarrow> store_error option \<times> db" where
  "add_derived f k have [] db =
     (if f k then (Some Sql_error, db) else (None, db\<lparr>user_version := schemaVersion\<rparr>))"
| "add_derived f k have (c # cs) db =
     (if c \<in> set have then add_derived f k have cs db
      else if f k then (Some Sql_error, db)
      else add_derived f (Suc k) have cs (add_column c db))"

text \<open>\<^verbatim>\<open>columns\<close>, of the devices table; a failing query or row gives no set at all.\<close>

definition store_columns :: "bool \<Rightarrow> db \<Rightarrow> store_error + string list" where
  "store_columns fail db = (if fail then Inl Sql_error else Inr (dev_columns db))"

definition store_migrate :: "faults \<Rightarrow> db \<Rightarrow> store_error option \<times> db" where
  "store_migrate f db =
     (if f 0 then (Some Sql_error, db)
      else let db1 = base_schema db in
        case store_columns (f 1) db1 of
          Inl e \<Rightarrow> (Some e, db1)
        | Inr have \<Rightarrow> add_derived f 2 have derivedColumns db1)"

text \<open>
  \<^verbatim>\<open>Open\<close>: the directory is created when it can be (an error there is not looked at), \<open>opened\<close> says
  whether the driver took the path, and a database whose migration fails is closed again.
\<close>

definition store_Open :: "bool \<Rightarrow> faults \<Rightarrow> db \<Rightarrow> store_error option \<times> db" where
  "store_Open opened f db = (if \<not> opened then (Some Sql_error, db) else store_migrate f db)"

section \<open>Reading devices\<close>

text \<open>\<^verbatim>\<open>scanDevice\<close>: the driver turns the integer column into a bool only when it is 0 or 1.\<close>

definition scanDevice :: "dev_row \<Rightarrow> store_error + device" where
  "scanDevice r =
     (if r_icmp_seen r \<in> {0, 1} then Inr
        \<lparr>d_MAC = r_mac r, d_IP = r_ip r, d_Name = r_name r, d_NameSource = r_name_source r,
         d_Vendor = r_vendor r, d_Link = r_link r, d_Notes = r_notes r,
         d_CreatedAt = r_created_at r, d_UpdatedAt = r_updated_at r, d_Probes = [],
         d_IcmpSeen = (r_icmp_seen r = 1), d_LastSeenUp = r_last_seen_up r,
         d_LastSeen = r_last_seen r\<rparr>
      else Inl Scan_error)"

definition probesLocked :: "bool \<Rightarrow> string \<Rightarrow> db \<Rightarrow> int list" where
  "probesLocked fail mac db =
     (if fail then [] else sort (map snd (filter (\<lambda>(m, p). m = mac) (t_probes db))))"

text \<open>\<^verbatim>\<open>ORDER BY name<>'' DESC, name, ip\<close>: the key, ordered lexicographically.\<close>

datatype order_key = Order_Key (ok_unnamed: bool) (ok_name: string) (ok_ip: string)

instantiation order_key :: linorder
begin

definition less_eq_order_key :: "order_key \<Rightarrow> order_key \<Rightarrow> bool" where
  "a \<le> b \<longleftrightarrow> ok_unnamed a < ok_unnamed b \<or> ok_unnamed a = ok_unnamed b \<and>
     (ok_name a < ok_name b \<or> ok_name a = ok_name b \<and> ok_ip a \<le> ok_ip b)"

definition less_order_key :: "order_key \<Rightarrow> order_key \<Rightarrow> bool" where
  "(a :: order_key) < b \<longleftrightarrow> a \<le> b \<and> \<not> b \<le> a"

instance
proof
  fix x y z :: order_key
  show "x < y \<longleftrightarrow> x \<le> y \<and> \<not> y \<le> x" by (rule less_order_key_def)
  show "x \<le> x" by (simp add: less_eq_order_key_def)
  show "x \<le> y \<Longrightarrow> y \<le> z \<Longrightarrow> x \<le> z"
    unfolding less_eq_order_key_def
    by (elim disjE conjE) (simp_all, (blast intro: less_trans order_trans)+)
  show "x \<le> y \<or> y \<le> x"
    unfolding less_eq_order_key_def
    by (cases "ok_unnamed x"; cases "ok_unnamed y"; simp; meson linear linorder_less_linear)
  assume le: "x \<le> y" "y \<le> x"
  then have u: "ok_unnamed x = ok_unnamed y"
    unfolding less_eq_order_key_def by (meson less_asym)
  with le have l:
    "ok_name x < ok_name y \<or> ok_name x = ok_name y \<and> ok_ip x \<le> ok_ip y"
    "ok_name y < ok_name x \<or> ok_name y = ok_name x \<and> ok_ip y \<le> ok_ip x"
    by (simp_all add: less_eq_order_key_def)
  then have n: "ok_name x = ok_name y" by (metis less_asym)
  with l have "ok_ip x = ok_ip y" by (metis less_irrefl order_antisym)
  with u n show "x = y" by (simp add: order_key.expand)
qed

end

definition display_key :: "dev_row \<Rightarrow> order_key" where
  "display_key r = Order_Key (r_name r = []) (r_name r) (r_ip r)"

fun scan_rows :: "dev_row list \<Rightarrow> store_error + device list" where
  "scan_rows [] = Inr []"
| "scan_rows (r # rs) = (case scanDevice r of Inl e \<Rightarrow> Inl e
     | Inr d \<Rightarrow> (case scan_rows rs of Inl e \<Rightarrow> Inl e | Inr ds \<Rightarrow> Inr (d # ds)))"

text \<open>An error of a probe query is dropped: the device then has no watchdog ports.\<close>

fun fill_probes :: "faults \<Rightarrow> nat \<Rightarrow> db \<Rightarrow> device list \<Rightarrow> device list" where
  "fill_probes f k db [] = []"
| "fill_probes f k db (d # ds) =
     d\<lparr>d_Probes := probesLocked (f k) (d_MAC d) db\<rparr> # fill_probes f (Suc k) db ds"

definition store_List :: "faults \<Rightarrow> db \<Rightarrow> store_error + device list" where
  "store_List f db =
     (if f 0 then Inl Sql_error
      else (case scan_rows (sort_key display_key (t_devices db)) of
              Inl e \<Rightarrow> Inl e
            | Inr ds \<Rightarrow> Inr (fill_probes f 1 db ds)))"

definition store_Get :: "faults \<Rightarrow> string \<Rightarrow> db \<Rightarrow> store_error + device option" where
  "store_Get f mac db =
     (if f 0 then Inl Sql_error
      else (case table_map r_mac (t_devices db) (NormMAC mac) of
              None \<Rightarrow> Inr None
            | Some r \<Rightarrow> (case scanDevice r of Inl e \<Rightarrow> Inl e
                | Inr d \<Rightarrow> Inr (Some (d\<lparr>d_Probes := probesLocked (f 1) (NormMAC mac) db\<rparr>)))))"

section \<open>Config mutations\<close>

definition new_row :: "int \<Rightarrow> device \<Rightarrow> dev_row" where
  "new_row t d =
     \<lparr>r_mac = d_MAC d, r_ip = d_IP d, r_name = d_Name d, r_name_source = d_NameSource d,
      r_vendor = d_Vendor d, r_link = d_Link d, r_notes = d_Notes d, r_created_at = t,
      r_updated_at = t, r_icmp_seen = 0, r_last_seen_up = 0, r_last_seen = 0\<rparr>"

text \<open>The \<open>DO UPDATE SET\<close> of \<^verbatim>\<open>Store.Add\<close>: \<open>x\<close> is the excluded row.\<close>

definition merge_device :: "dev_row \<Rightarrow> dev_row \<Rightarrow> dev_row" where
  "merge_device x r = r\<lparr>r_ip := r_ip x,
     r_name := (if r_name r = [] then r_name x else r_name r),
     r_updated_at := r_updated_at x\<rparr>"

definition store_Add :: "faults \<Rightarrow> int \<Rightarrow> device \<Rightarrow> db \<Rightarrow> store_error option \<times> db" where
  "store_Add f t d db =
     (let d1 = d\<lparr>d_MAC := NormMAC (d_MAC d)\<rparr> in
      if d_MAC d1 = [] then (Some Empty_mac, db)
      else let d2 = (if d_Name d1 = [] then d1\<lparr>d_Name := d_IP d1\<rparr> else d1) in
        if f 0 then (Some Sql_error, db)
        else (None, db\<lparr>t_devices := upsert r_mac merge_device (new_row t d2) (t_devices db)\<rparr>))"

record patch =
  p_IP :: "string option"
  p_Name :: "string option"
  p_NameSource :: "string option"
  p_Vendor :: "string option"
  p_Link :: "string option"
  p_Notes :: "string option"

definition set_col :: "string option \<Rightarrow> string \<Rightarrow> string" where
  "set_col v old = (case v of None \<Rightarrow> old | Some x \<Rightarrow> x)"

definition patch_row :: "int \<Rightarrow> patch \<Rightarrow> dev_row \<Rightarrow> dev_row" where
  "patch_row t p r = r\<lparr>r_ip := set_col (p_IP p) (r_ip r), r_name := set_col (p_Name p) (r_name r),
     r_name_source := set_col (p_NameSource p) (r_name_source r),
     r_vendor := set_col (p_Vendor p) (r_vendor r), r_link := set_col (p_Link p) (r_link r),
     r_notes := set_col (p_Notes p) (r_notes r), r_updated_at := t\<rparr>"

definition empty_patch :: "patch \<Rightarrow> bool" where
  "empty_patch p \<longleftrightarrow> p_IP p = None \<and> p_Name p = None \<and> p_NameSource p = None \<and>
     p_Vendor p = None \<and> p_Link p = None \<and> p_Notes p = None"

definition store_Patch ::
  "faults \<Rightarrow> int \<Rightarrow> string \<Rightarrow> patch \<Rightarrow> db \<Rightarrow> store_error option \<times> db" where
  "store_Patch f t mac p db =
     (if empty_patch p then (None, db)
      else if f 0 then (Some Sql_error, db)
      else (None, db\<lparr>t_devices :=
              update_where (\<lambda>r. r_mac r = NormMAC mac) (patch_row t p) (t_devices db)\<rparr>))"

text \<open>Three statements outside a transaction: a failure keeps what the earlier ones did.\<close>

fun exec_all :: "faults \<Rightarrow> nat \<Rightarrow> (db \<Rightarrow> db) list \<Rightarrow> db \<Rightarrow> store_error option \<times> db" where
  "exec_all f k [] db = (None, db)"
| "exec_all f k (q # qs) db =
     (if f k then (Some Sql_error, db) else exec_all f (Suc k) qs (q db))"

definition delete_statements :: "string \<Rightarrow> (db \<Rightarrow> db) list" where
  "delete_statements mac =
     [\<lambda>db. db\<lparr>t_probes := delete_where (\<lambda>(m, p). m = mac) (t_probes db)\<rparr>,
      \<lambda>db. db\<lparr>t_seen_events := delete_where (\<lambda>e. ev_MAC e = mac) (t_seen_events db)\<rparr>,
      \<lambda>db. db\<lparr>t_devices := delete_where (\<lambda>r. r_mac r = mac) (t_devices db)\<rparr>]"

definition store_Delete :: "faults \<Rightarrow> string \<Rightarrow> db \<Rightarrow> store_error option \<times> db" where
  "store_Delete f mac db = exec_all f 0 (delete_statements (NormMAC mac)) db"

definition store_AddProbe :: "faults \<Rightarrow> string \<Rightarrow> int \<Rightarrow> db \<Rightarrow> store_error option \<times> db" where
  "store_AddProbe f mac port db =
     (if f 0 then (Some Sql_error, db)
      else (None, db\<lparr>t_probes := insert_or_ignore (NormMAC mac, port) (t_probes db)\<rparr>))"

definition store_DeleteProbe :: "faults \<Rightarrow> string \<Rightarrow> int \<Rightarrow> db \<Rightarrow> store_error option \<times> db" where
  "store_DeleteProbe f mac port db =
     (if f 0 then (Some Sql_error, db)
      else (None, db\<lparr>t_probes :=
              delete_where (\<lambda>(m, p). m = NormMAC mac \<and> p = port) (t_probes db)\<rparr>))"

section \<open>Write-behind\<close>

record seen_update =
  su_MAC :: string
  su_IcmpSeen :: bool
  su_LastSeenUp :: int
  su_LastSeen :: int

record ip_move =
  im_MAC :: string
  im_IP :: string

text \<open>\<^verbatim>\<open>ObservedUpdate\<close> has the fields of \<^verbatim>\<open>Observed\<close>: one record serves both.\<close>

record batch =
  b_Seen :: "seen_update list"
  b_Events :: "seen_event list"
  b_Obs :: "observed list"
  b_IPMoves :: "ip_move list"

definition batch_Empty :: "batch \<Rightarrow> bool" where
  "batch_Empty b \<longleftrightarrow> b_Seen b = [] \<and> b_Events b = [] \<and> b_Obs b = [] \<and> b_IPMoves b = []"

definition boolInt :: "bool \<Rightarrow> int" where
  "boolInt b = (if b then 1 else 0)"

text \<open>The \<open>SET\<close> list with its \<open>MAX()\<close> guards, shared by \<^verbatim>\<open>Flush\<close> and \<^verbatim>\<open>backfillOne\<close>.\<close>

definition max_row :: "int \<Rightarrow> int \<Rightarrow> int \<Rightarrow> dev_row \<Rightarrow> dev_row" where
  "max_row icmp up seen r = r\<lparr>r_icmp_seen := max (r_icmp_seen r) icmp,
     r_last_seen_up := max (r_last_seen_up r) up, r_last_seen := max (r_last_seen r) seen\<rparr>"

definition flush_seen :: "seen_update \<Rightarrow> db \<Rightarrow> db" where
  "flush_seen u db = db\<lparr>t_devices := update_where (\<lambda>r. r_mac r = NormMAC (su_MAC u))
     (max_row (boolInt (su_IcmpSeen u)) (su_LastSeenUp u) (su_LastSeen u)) (t_devices db)\<rparr>"

definition flush_move :: "int \<Rightarrow> ip_move \<Rightarrow> db \<Rightarrow> db" where
  "flush_move t m db = db\<lparr>t_devices :=
     update_where (\<lambda>r. r_mac r = NormMAC (im_MAC m) \<and> r_ip r \<noteq> im_IP m)
       (\<lambda>r. r\<lparr>r_ip := im_IP m, r_updated_at := t\<rparr>) (t_devices db)\<rparr>"

definition flush_event :: "seen_event \<Rightarrow> db \<Rightarrow> db" where
  "flush_event e db =
     db\<lparr>t_seen_events := t_seen_events db @ [e\<lparr>ev_MAC := NormMAC (ev_MAC e)\<rparr>]\<rparr>"

text \<open>The \<open>DO UPDATE SET\<close> of the observed upsert.\<close>

definition merge_observed :: "observed \<Rightarrow> observed \<Rightarrow> observed" where
  "merge_observed x o1 = o1\<lparr>ob_IP := ob_IP x,
     ob_Name := (if ob_Name x \<noteq> [] then ob_Name x else ob_Name o1),
     ob_LastSeen := max (ob_LastSeen o1) (ob_LastSeen x)\<rparr>"

definition flush_obs :: "observed \<Rightarrow> db \<Rightarrow> db" where
  "flush_obs x db = db\<lparr>t_observed :=
     upsert ob_MAC merge_observed (x\<lparr>ob_MAC := NormMAC (ob_MAC x)\<rparr>) (t_observed db)\<rparr>"

definition flush_statements :: "int \<Rightarrow> batch \<Rightarrow> (db \<Rightarrow> db) list" where
  "flush_statements t b =
     map flush_seen (b_Seen b) @
     map (flush_move t) (filter (\<lambda>m. im_IP m \<noteq> []) (b_IPMoves b)) @
     map flush_event (b_Events b) @ map flush_obs (b_Obs b)"

text \<open>
  Statement 0 is \<open>BEGIN\<close>, the last one \<open>COMMIT\<close>; on any failure the deferred rollback leaves
  the database as it was.
\<close>

definition store_Flush :: "faults \<Rightarrow> int \<Rightarrow> batch \<Rightarrow> db \<Rightarrow> store_error option \<times> db" where
  "store_Flush f t b db =
     (if batch_Empty b then (None, db)
      else if f 0 then (Some Sql_error, db)
      else (case exec_all f 1 (flush_statements t b) db of
              (Some e, _) \<Rightarrow> (Some e, db)
            | (None, db') \<Rightarrow>
                if f (Suc (length (flush_statements t b))) then (Some Sql_error, db)
                else (None, db')))"

section \<open>Observed hosts and retention\<close>

definition store_ListObserved :: "faults \<Rightarrow> int \<Rightarrow> db \<Rightarrow> store_error + observed list" where
  "store_ListObserved f since db =
     (if f 0 then Inl Sql_error
      else Inr (sort_key (\<lambda>x. - ob_LastSeen x)
                  (filter (\<lambda>x. since \<le> ob_LastSeen x) (t_observed db))))"

definition store_PruneObserved :: "faults \<Rightarrow> int \<Rightarrow> db \<Rightarrow> store_error option \<times> db" where
  "store_PruneObserved f before db =
     (if f 0 then (Some Sql_error, db)
      else (None, db\<lparr>t_observed := delete_where (\<lambda>x. ob_LastSeen x < before) (t_observed db)\<rparr>))"

definition store_DeleteObserved :: "faults \<Rightarrow> string \<Rightarrow> db \<Rightarrow> store_error option \<times> db" where
  "store_DeleteObserved f mac db =
     (if f 0 then (Some Sql_error, db)
      else (None, db\<lparr>t_observed := delete_where (\<lambda>x. ob_MAC x = NormMAC mac) (t_observed db)\<rparr>))"

definition store_PruneSeenEvents :: "faults \<Rightarrow> int \<Rightarrow> db \<Rightarrow> store_error option \<times> db" where
  "store_PruneSeenEvents f before db =
     (if f 0 then (Some Sql_error, db)
      else (None, db\<lparr>t_seen_events := delete_where (\<lambda>e. ev_TS e < before) (t_seen_events db)\<rparr>))"

section \<open>The v0 log and its backfill\<close>

definition LegacyBackfillPending :: "faults \<Rightarrow> db \<Rightarrow> bool" where
  "LegacyBackfillPending f db \<longleftrightarrow> \<not> f 0 \<and> t_seen_history db \<noteq> None"

definition legacyMACs :: "bool \<Rightarrow> db \<Rightarrow> store_error + string list" where
  "legacyMACs fail db = (if fail then Inl Sql_error else Inr (map r_mac (t_devices db)))"

text \<open>\<open>SELECT ts ... ORDER BY ts DESC LIMIT 1\<close> scanned into a variable that starts at 0.\<close>

definition newest_ts :: "hist_row list \<Rightarrow> int" where
  "newest_ts rows = (case rev (sort (map h_ts rows)) of [] \<Rightarrow> 0 | ts # _ \<Rightarrow> ts)"

definition history_of :: "string \<Rightarrow> db \<Rightarrow> hist_row list" where
  "history_of mac db =
     (case t_seen_history db of None \<Rightarrow> [] | Some h \<Rightarrow> filter (\<lambda>r. h_mac r = mac) h)"

text \<open>
  The errors of the three queries are dropped, so a failed query reads as 0: statements \<open>k\<close>,
  \<open>k + 1\<close> and \<open>k + 2\<close> are the queries, \<open>k + 3\<close> is the \<open>UPDATE\<close>.
\<close>

definition backfillOne :: "faults \<Rightarrow> nat \<Rightarrow> string \<Rightarrow> db \<Rightarrow> store_error option \<times> db" where
  "backfillOne f k mac db =
     (let h = history_of mac db;
          icmp = (if f k then 0
                  else if filter (\<lambda>r. h_signal r = ''icmp'') h = [] then 0 else 1);
          lastUp = (if f (k + 1) then 0
                    else newest_ts (filter (\<lambda>r. h_signal r = ''icmp'' \<or> h_signal r = ''tcp'') h));
          lastAny = (if f (k + 2) then 0 else newest_ts h)
      in if f (k + 3) then (Some Sql_error, db)
         else (None, db\<lparr>t_devices := update_where (\<lambda>r. r_mac r = mac)
                (max_row icmp lastUp lastAny) (t_devices db)\<rparr>))"

fun backfill_loop ::
  "faults \<Rightarrow> nat \<Rightarrow> nat \<Rightarrow> string list \<Rightarrow> db \<Rightarrow> nat \<times> store_error option \<times> db" where
  "backfill_loop f k n [] db = (n, None, db)"
| "backfill_loop f k n (mac # macs) db =
     (case backfillOne f k mac db of
        (Some e, db') \<Rightarrow> (n, Some e, db')
      | (None, db') \<Rightarrow> backfill_loop f (k + 4) (Suc n) macs db')"

text \<open>
  The count of devices, the error and the database. The reclaimed file size (\<^verbatim>\<open>fileSize\<close> before
  and after) is reporting only and is left out; \<open>VACUUM\<close> and the checkpoint do not change rows.
\<close>

definition BackfillLegacy :: "faults \<Rightarrow> db \<Rightarrow> nat \<times> store_error option \<times> db" where
  "BackfillLegacy f db =
     (case legacyMACs (f 0) db of
        Inl e \<Rightarrow> (0, Some e, db)
      | Inr macs \<Rightarrow>
          (case backfill_loop f 1 0 macs db of
             (n, Some e, db1) \<Rightarrow> (n, Some e, db1)
           | (n, None, db1) \<Rightarrow>
               (let k = 1 + 4 * length macs in
                if f k then (n, Some Sql_error, db1)
                else let db2 = db1\<lparr>t_seen_history := None\<rparr> in
                  if f (k + 1) \<or> f (k + 2) then (n, Some Sql_error, db2)
                  else (n, None, db2))))"

section \<open>Invariant of the tables\<close>

definition wf_rows :: "dev_row list \<Rightarrow> bool" where
  "wf_rows rows \<longleftrightarrow> primary_key r_mac rows \<and>
     (\<forall>r \<in> set rows. NormMAC (r_mac r) = r_mac r \<and> r_icmp_seen r \<in> {0, 1})"

definition wf_db :: "db \<Rightarrow> bool" where
  "wf_db db \<longleftrightarrow> wf_rows (t_devices db) \<and> distinct (t_probes db) \<and>
     (\<forall>(m, p) \<in> set (t_probes db). NormMAC m = m) \<and>
     primary_key ob_MAC (t_observed db) \<and> (\<forall>x \<in> set (t_observed db). NormMAC (ob_MAC x) = ob_MAC x) \<and>
     (\<forall>e \<in> set (t_seen_events db). NormMAC (ev_MAC e) = ev_MAC e)"

text \<open>The row of a MAC, and its presence scalars with the componentwise order.\<close>

type_synonym presence = "int \<times> int \<times> int"

definition dev_at :: "db \<Rightarrow> string \<Rightarrow> dev_row option" where
  "dev_at db mac = table_map r_mac (t_devices db) mac"

definition row_presence :: "dev_row \<Rightarrow> presence" where
  "row_presence r = (r_icmp_seen r, r_last_seen_up r, r_last_seen r)"

definition presence_at :: "db \<Rightarrow> string \<Rightarrow> presence option" where
  "presence_at db mac = map_option row_presence (dev_at db mac)"

interpretation devices_upsert: upsert_table r_mac merge_device
  by unfold_locales (simp add: merge_device_def)

interpretation observed_upsert: upsert_table ob_MAC merge_observed
  by unfold_locales (simp add: merge_observed_def)

lemma r_mac_simps [simp]:
  "r_mac (merge_device x r) = r_mac r" "r_mac (patch_row t p r) = r_mac r"
  "r_mac (max_row i u l r) = r_mac r" "r_mac (new_row t d) = d_MAC d"
  by (simp_all add: merge_device_def patch_row_def max_row_def new_row_def)

lemma r_icmp_simps [simp]:
  "r_icmp_seen (merge_device x r) = r_icmp_seen r" "r_icmp_seen (patch_row t p r) = r_icmp_seen r"
  "r_icmp_seen (new_row t d) = 0"
  by (simp_all add: merge_device_def patch_row_def new_row_def)

lemma row_presence_simps [simp]:
  "row_presence (merge_device x r) = row_presence r"
  "row_presence (patch_row t p r) = row_presence r"
  "row_presence (new_row t d) = (0, 0, 0)"
  by (simp_all add: row_presence_def merge_device_def patch_row_def new_row_def)

lemma row_presence_max:
  "row_presence (max_row i u l r) = sup (row_presence r) (i, u, l)"
  by (simp add: row_presence_def max_row_def sup_max)

end
