(* ===== verification/StoreProps.thy ===== *)
theory StoreProps
  imports Store
begin

text \<open>
  What the store guarantees: every mutation keeps the table invariant \<open>wf_db\<close>; presence scalars
  only move forward while a device is tracked; a flush is all or nothing and independent of the
  order of its rows; the frame of each config mutation; and the backfill of the v0 log.
\<close>

section \<open>Looking a device up after each statement\<close>

lemma dev_at_upd:
  "(\<And>r. r_mac (g r) = r_mac r) \<Longrightarrow>
   dev_at (db\<lparr>t_devices := update_where (\<lambda>r. r_mac r = k) g (t_devices db)\<rparr>) m =
   (if m = k then map_option g (dev_at db m) else dev_at db m)"
  by (simp add: dev_at_def table_map_update_key)

lemma dev_at_flush_seen: "dev_at (flush_seen u db) m =
  (if m = NormMAC (su_MAC u)
   then map_option (max_row (boolInt (su_IcmpSeen u)) (su_LastSeenUp u) (su_LastSeen u)) (dev_at db m)
   else dev_at db m)"
  by (simp add: flush_seen_def dev_at_upd)

lemma dev_at_flush_move: "dev_at (flush_move t v db) m =
  (case dev_at db m of None \<Rightarrow> None
   | Some r \<Rightarrow> Some (if m = NormMAC (im_MAC v) \<and> r_ip r \<noteq> im_IP v
       then r\<lparr>r_ip := im_IP v, r_updated_at := t\<rparr> else r))"
  by (simp add: flush_move_def dev_at_def table_map_update)

lemma dev_at_flush_other [simp]:
  "dev_at (flush_event e db) m = dev_at db m" "dev_at (flush_obs x db) m = dev_at db m"
  by (simp_all add: dev_at_def flush_event_def flush_obs_def)

lemma presence_flush_seen: "presence_at (flush_seen u db) m =
  (if m = NormMAC (su_MAC u)
   then map_option (\<lambda>p. sup p (boolInt (su_IcmpSeen u), su_LastSeenUp u, su_LastSeen u)) (presence_at db m)
   else presence_at db m)"
  by (simp add: presence_at_def dev_at_flush_seen option.map_comp comp_def row_presence_max)

lemma presence_flush_move [simp]: "presence_at (flush_move t v db) m = presence_at db m"
  by (cases "dev_at db m") (simp_all add: presence_at_def dev_at_flush_move row_presence_def)

lemma presence_flush_other [simp]:
  "presence_at (flush_event e db) m = presence_at db m"
  "presence_at (flush_obs x db) m = presence_at db m"
  by (simp_all add: presence_at_def)

section \<open>Running statement lists\<close>

lemma exec_all_None: "exec_all f k qs db = (None, db') \<Longrightarrow> db' = fold (\<lambda>q. q) qs db"
  by (induction qs arbitrary: k db) (auto split: if_splits)

lemma exec_all_ok: "(\<forall>i. \<not> f i) \<Longrightarrow> exec_all f k qs db = (None, fold (\<lambda>q. q) qs db)"
  by (induction qs arbitrary: k db) auto

lemma exec_all_invariant:
  "P db \<Longrightarrow> (\<And>q d. q \<in> set qs \<Longrightarrow> P d \<Longrightarrow> P (q d)) \<Longrightarrow> P (snd (exec_all f k qs db))"
  by (induction qs arbitrary: k db) auto

lemma Flush_ok:
  assumes "store_Flush f t b db = (None, db')"
  shows "db' = fold (\<lambda>q. q) (flush_statements t b) db"
  using assms
  by (auto simp: store_Flush_def flush_statements_def batch_Empty_def dest: exec_all_None
      split: if_splits prod.splits option.splits)

lemma Flush_invariant:
  assumes "P db" and "\<And>q d. q \<in> set (flush_statements t b) \<Longrightarrow> P d \<Longrightarrow> P (q d)"
  shows "P (snd (store_Flush f t b db))"
  using assms exec_all_invariant [of P db "flush_statements t b" f 1]
  by (auto simp: store_Flush_def split: prod.splits option.splits)

lemma flush_statement_cases:
  assumes "q \<in> set (flush_statements t b)"
  obtains (seen) u where "u \<in> set (b_Seen b)" "q = flush_seen u"
    | (move) m where "m \<in> set (b_IPMoves b)" "q = flush_move t m"
    | (event) e where "e \<in> set (b_Events b)" "q = flush_event e"
    | (obs) x where "x \<in> set (b_Obs b)" "q = flush_obs x"
  using assms by (auto simp: flush_statements_def)

section \<open>The table invariant\<close>

lemma wf_rows_map:
  assumes "wf_rows rows" and "\<And>r. r_mac (g r) = r_mac r"
    and "\<And>r. r \<in> set rows \<Longrightarrow> r_icmp_seen r \<in> {0, 1} \<Longrightarrow> r_icmp_seen (g r) \<in> {0, 1}"
  shows "wf_rows (update_where p g rows)"
  using assms by (auto simp: wf_rows_def primary_key_update set_update_where)

lemma wf_rows_delete: "wf_rows rows \<Longrightarrow> wf_rows (delete_where p rows)"
  by (auto simp: wf_rows_def primary_key_delete set_delete_where)

lemma distinct_delete_where: "distinct rows \<Longrightarrow> distinct (delete_where p rows)"
  by (simp add: delete_where_def)

lemma wf_rows_upsert:
  assumes "wf_rows rows" and "NormMAC (r_mac x) = r_mac x" and "r_icmp_seen x \<in> {0, 1}"
  shows "wf_rows (upsert r_mac merge_device x rows)"
  using assms
  by (auto simp: wf_rows_def devices_upsert.primary_key_upsert dest!: devices_upsert.set_upsert)

lemma boolInt_01 [simp]: "boolInt b \<in> {0, 1}"
  by (simp add: boolInt_def)

lemma wf_max_row:
  "i \<in> {0, 1} \<Longrightarrow> r_icmp_seen r \<in> {0, 1} \<Longrightarrow> r_icmp_seen (max_row i u l r) \<in> {0, 1}"
  by (auto simp: max_row_def)

lemma wf_rows_max:
  assumes "wf_rows rows" and "i \<in> {0, 1}"
  shows "wf_rows (update_where p (max_row i u l) rows)"
  using assms(1) by (rule wf_rows_map) (simp, rule wf_max_row [OF assms(2)])

lemma wf_flush_seen: "wf_db db \<Longrightarrow> wf_db (flush_seen u db)"
  by (simp add: wf_db_def flush_seen_def wf_rows_max del: insert_iff)

lemma wf_flush_move: "wf_db db \<Longrightarrow> wf_db (flush_move t m db)"
  by (auto simp: wf_db_def flush_move_def intro!: wf_rows_map)

lemma wf_flush_event: "wf_db db \<Longrightarrow> wf_db (flush_event e db)"
  by (auto simp: wf_db_def flush_event_def)

lemma wf_flush_obs: "wf_db db \<Longrightarrow> wf_db (flush_obs x db)"
  by (auto simp: wf_db_def flush_obs_def observed_upsert.primary_key_upsert merge_observed_def
      dest!: observed_upsert.set_upsert)

lemma wf_Flush: "wf_db db \<Longrightarrow> wf_db (snd (store_Flush f t b db))"
  by (rule Flush_invariant)
    (auto elim!: flush_statement_cases intro: wf_flush_seen wf_flush_move wf_flush_event wf_flush_obs)

lemma wf_Add: "wf_db db \<Longrightarrow> wf_db (snd (store_Add f t d db))"
  by (auto simp: store_Add_def Let_def wf_db_def intro!: wf_rows_upsert)

lemma wf_Patch: "wf_db db \<Longrightarrow> wf_db (snd (store_Patch f t mac p db))"
  by (auto simp: store_Patch_def wf_db_def intro!: wf_rows_map)

lemma wf_Delete: "wf_db db \<Longrightarrow> wf_db (snd (store_Delete f mac db))"
  unfolding store_Delete_def
  by (rule exec_all_invariant)
    (auto simp: delete_statements_def wf_db_def wf_rows_delete set_delete_where distinct_delete_where)

lemma wf_probes:
  "wf_db db \<Longrightarrow> wf_db (snd (store_AddProbe f mac port db))"
  "wf_db db \<Longrightarrow> wf_db (snd (store_DeleteProbe f mac port db))"
  by (auto simp: store_AddProbe_def store_DeleteProbe_def wf_db_def insert_or_ignore_def
      set_delete_where distinct_delete_where)

lemma wf_observed:
  "wf_db db \<Longrightarrow> wf_db (snd (store_PruneObserved f b db))"
  "wf_db db \<Longrightarrow> wf_db (snd (store_DeleteObserved f mac db))"
  "wf_db db \<Longrightarrow> wf_db (snd (store_PruneSeenEvents f b db))"
  by (auto simp: store_PruneObserved_def store_DeleteObserved_def store_PruneSeenEvents_def
      wf_db_def primary_key_delete set_delete_where)

lemma wf_backfillOne: "wf_db db \<Longrightarrow> wf_db (snd (backfillOne f k mac db))"
  by (simp add: backfillOne_def Let_def wf_db_def wf_rows_max)

lemma wf_backfill_loop: "wf_db db \<Longrightarrow> wf_db (snd (snd (backfill_loop f k n macs db)))"
proof (induction macs arbitrary: k n db)
  case Nil
  then show ?case by simp
next
  case (Cons mac macs)
  show ?case
    using wf_backfillOne [OF Cons.prems, of f k mac] Cons.IH
    by (cases "backfillOne f k mac db"; cases "fst (backfillOne f k mac db)") auto
qed

lemma wf_drop_history [simp]: "wf_db (db\<lparr>t_seen_history := h\<rparr>) = wf_db db"
  by (simp add: wf_db_def)

lemma wf_Backfill:
  assumes "wf_db db"
  shows "wf_db (snd (snd (BackfillLegacy f db)))"
proof -
  obtain n e d where l: "backfill_loop f 1 0 (map r_mac (t_devices db)) db = (n, e, d)"
    by (cases "backfill_loop f 1 0 (map r_mac (t_devices db)) db") auto
  with wf_backfill_loop [OF assms, of f 1 0 "map r_mac (t_devices db)"] have "wf_db d"
    by simp
  with l assms show ?thesis
    by (cases e) (auto simp: BackfillLegacy_def legacyMACs_def Let_def)
qed

section \<open>Every sequence of calls keeps the invariant\<close>

text \<open>The mutating calls of the store with their arguments; a history is a list of them.\<close>

datatype store_call =
    C_Add int device
  | C_Patch int string patch
  | C_Delete string
  | C_AddProbe string int
  | C_DeleteProbe string int
  | C_Flush int batch
  | C_PruneObserved int
  | C_DeleteObserved string
  | C_PruneSeenEvents int
  | C_Backfill

fun run_call :: "faults \<Rightarrow> store_call \<Rightarrow> db \<Rightarrow> db" where
  "run_call f (C_Add t d) db = snd (store_Add f t d db)"
| "run_call f (C_Patch t m p) db = snd (store_Patch f t m p db)"
| "run_call f (C_Delete m) db = snd (store_Delete f m db)"
| "run_call f (C_AddProbe m p) db = snd (store_AddProbe f m p db)"
| "run_call f (C_DeleteProbe m p) db = snd (store_DeleteProbe f m p db)"
| "run_call f (C_Flush t b) db = snd (store_Flush f t b db)"
| "run_call f (C_PruneObserved b) db = snd (store_PruneObserved f b db)"
| "run_call f (C_DeleteObserved m) db = snd (store_DeleteObserved f m db)"
| "run_call f (C_PruneSeenEvents b) db = snd (store_PruneSeenEvents f b db)"
| "run_call f C_Backfill db = snd (snd (BackfillLegacy f db))"

fun run_calls :: "(faults \<times> store_call) list \<Rightarrow> db \<Rightarrow> db" where
  "run_calls [] db = db"
| "run_calls ((f, c) # cs) db = run_calls cs (run_call f c db)"

lemmas wf_calls = wf_Add wf_Patch wf_Delete wf_probes wf_Flush wf_observed wf_Backfill

lemma wf_run_call: "wf_db db \<Longrightarrow> wf_db (run_call f c db)"
  by (cases c) (simp_all add: wf_calls)

lemma wf_run_calls: "wf_db db \<Longrightarrow> wf_db (run_calls cs db)"
  by (induction cs db rule: run_calls.induct) (auto intro: wf_run_call)

section \<open>Presence only moves forward\<close>

definition presence_ahead :: "presence option \<Rightarrow> presence option \<Rightarrow> bool" where
  "presence_ahead p q \<longleftrightarrow> (case p of None \<Rightarrow> True
     | Some x \<Rightarrow> (case q of None \<Rightarrow> False | Some y \<Rightarrow> x \<le> y))"

lemma presence_ahead_refl [simp]: "presence_ahead p p"
  by (simp add: presence_ahead_def split: option.splits)

lemma presence_ahead_trans [trans]:
  "presence_ahead p q \<Longrightarrow> presence_ahead q r \<Longrightarrow> presence_ahead p r"
  by (auto simp: presence_ahead_def split: option.splits)

lemma presence_ahead_sup [simp]: "presence_ahead p (map_option (\<lambda>x. sup x y) p)"
  by (simp add: presence_ahead_def split: option.splits)

lemma ahead_flush_seen [simp]: "presence_ahead (presence_at db m) (presence_at (flush_seen u db) m)"
  by (simp add: presence_flush_seen)

lemma ahead_Flush: "presence_ahead (presence_at db m) (presence_at (snd (store_Flush f t b db)) m)"
proof (rule Flush_invariant [where P = "\<lambda>d. presence_ahead (presence_at db m) (presence_at d m)"])
  fix q d
  assume "q \<in> set (flush_statements t b)" and "presence_ahead (presence_at db m) (presence_at d m)"
  then show "presence_ahead (presence_at db m) (presence_at (q d) m)"
    by (cases rule: flush_statement_cases) (auto intro: presence_ahead_trans)
qed simp

lemma presence_upd:
  assumes "\<And>r. r_mac (g r) = r_mac r" and "\<And>r. row_presence (g r) = row_presence r"
  shows "presence_at (db\<lparr>t_devices := update_where (\<lambda>r. r_mac r = k) g (t_devices db)\<rparr>) m = presence_at db m"
  by (simp add: presence_at_def dev_at_upd assms option.map_comp comp_def)

lemma presence_Patch [simp]: "presence_at (snd (store_Patch f t mac p db)) m = presence_at db m"
  by (simp add: store_Patch_def presence_upd)

lemma presence_Add: "presence_at (snd (store_Add f t d db)) m =
  (if fst (store_Add f t d db) = None \<and> m = NormMAC (d_MAC d) \<and> presence_at db m = None
   then Some (0, 0, 0) else presence_at db m)"
  by (auto simp: store_Add_def Let_def presence_at_def dev_at_def
      devices_upsert.table_map_upsert split: option.splits)

lemma ahead_Add: "presence_ahead (presence_at db m) (presence_at (snd (store_Add f t d db)) m)"
  by (auto simp: presence_Add presence_ahead_def split: option.splits)

lemma presence_Delete_other:
  assumes "NormMAC mac \<noteq> m"
  shows "presence_at (snd (store_Delete f mac db)) m = presence_at db m"
  unfolding store_Delete_def
  by (rule exec_all_invariant [where P = "\<lambda>d. presence_at d m = presence_at db m"])
    (use assms in \<open>auto simp: delete_statements_def presence_at_def dev_at_def table_map_delete\<close>)

lemma presence_backfillOne: "presence_ahead (presence_at db m) (presence_at (snd (backfillOne f k mac db)) m)"
  by (auto simp: backfillOne_def Let_def presence_at_def dev_at_upd presence_ahead_def
      row_presence_max split: option.splits)

lemma presence_backfill_loop:
  "presence_ahead (presence_at db m) (presence_at (snd (snd (backfill_loop f k n macs db))) m)"
proof (induction macs arbitrary: k n db)
  case Nil
  then show ?case by simp
next
  case (Cons mac macs)
  show ?case
    using presence_backfillOne [of db m f k mac] Cons.IH
    by (cases "backfillOne f k mac db"; cases "fst (backfillOne f k mac db)")
      (auto intro: presence_ahead_trans)
qed

lemma presence_drop [simp]: "presence_at (db\<lparr>t_seen_history := h\<rparr>) m = presence_at db m"
  by (simp add: presence_at_def dev_at_def)

lemma ahead_Backfill: "presence_ahead (presence_at db m) (presence_at (snd (snd (BackfillLegacy f db))) m)"
proof -
  obtain n e d where l: "backfill_loop f 1 0 (map r_mac (t_devices db)) db = (n, e, d)"
    by (cases "backfill_loop f 1 0 (map r_mac (t_devices db)) db") auto
  with presence_backfill_loop [of db m f 1 0 "map r_mac (t_devices db)"]
  have "presence_ahead (presence_at db m) (presence_at d m)" by simp
  with l show ?thesis
    by (cases e) (auto simp: BackfillLegacy_def legacyMACs_def Let_def)
qed

lemma ahead_other [simp]:
  "presence_at (snd (store_AddProbe f mac port db)) m = presence_at db m"
  "presence_at (snd (store_DeleteProbe f mac port db)) m = presence_at db m"
  "presence_at (snd (store_PruneObserved f b db)) m = presence_at db m"
  "presence_at (snd (store_DeleteObserved f mac db)) m = presence_at db m"
  "presence_at (snd (store_PruneSeenEvents f b db)) m = presence_at db m"
  by (simp_all add: store_AddProbe_def store_DeleteProbe_def store_PruneObserved_def
      store_DeleteObserved_def store_PruneSeenEvents_def presence_at_def dev_at_def)

definition deletes :: "string \<Rightarrow> store_call \<Rightarrow> bool" where
  "deletes m c \<longleftrightarrow> (case c of C_Delete mac \<Rightarrow> NormMAC mac = m | _ \<Rightarrow> False)"

lemma ahead_run_call:
  "\<not> deletes m c \<Longrightarrow> presence_ahead (presence_at db m) (presence_at (run_call f c db) m)"
  by (cases c) (auto simp: deletes_def ahead_Add ahead_Flush ahead_Backfill presence_Delete_other)

lemma ahead_run_calls:
  "(\<forall>(f, c) \<in> set cs. \<not> deletes m c) \<Longrightarrow>
   presence_ahead (presence_at db m) (presence_at (run_calls cs db) m)"
  by (induction cs db rule: run_calls.induct) (auto intro: presence_ahead_trans ahead_run_call)

section \<open>What a flush writes\<close>

definition update_presence :: "seen_update \<Rightarrow> presence" where
  "update_presence u = (boolInt (su_IcmpSeen u), su_LastSeenUp u, su_LastSeen u)"

definition updates_for :: "string \<Rightarrow> seen_update list \<Rightarrow> seen_update list" where
  "updates_for m us = filter (\<lambda>u. NormMAC (su_MAC u) = m) us"

lemma presence_fold_seen: "presence_at (fold (\<lambda>q. q) (map flush_seen us) db) m =
  map_option (\<lambda>p. fold (\<lambda>u p. sup p (update_presence u)) (updates_for m us) p) (presence_at db m)"
proof (induction us arbitrary: db)
  case Nil
  then show ?case by (simp add: updates_for_def option.map_ident)
next
  case (Cons u us)
  then show ?case
    by (cases "presence_at db m")
      (auto simp: presence_flush_seen update_presence_def updates_for_def)
qed

lemma presence_fold_skip:
  "(\<And>q d. q \<in> set qs \<Longrightarrow> presence_at (q d) m = presence_at d m) \<Longrightarrow>
   presence_at (fold (\<lambda>q. q) qs db) m = presence_at db m"
  by (induction qs arbitrary: db) auto

lemma fold_sup_le: "fold (\<lambda>u p. sup p (g u)) us (p :: presence) \<le> q \<longleftrightarrow> p \<le> q \<and> (\<forall>u \<in> set us. g u \<le> q)"
  by (induction us arbitrary: p) auto

lemma fold_sup_set:
  assumes "set us = set vs"
  shows "fold (\<lambda>u p. sup p (g u)) us (p :: presence) = fold (\<lambda>u p. sup p (g u)) vs p"
proof -
  have "p \<le> fold (\<lambda>u p. sup p (g u)) ws p \<and> (\<forall>u \<in> set ws. g u \<le> fold (\<lambda>u p. sup p (g u)) ws p)" for ws
    using fold_sup_le [of g ws p "fold (\<lambda>u p. sup p (g u)) ws p"] by simp
  with assms show ?thesis by (intro order_antisym) (simp_all add: fold_sup_le)
qed

lemma presence_Flush:
  assumes "store_Flush f t b db = (None, db')"
  shows "presence_at db' m =
    map_option (\<lambda>p. fold (\<lambda>u p. sup p (update_presence u)) (updates_for m (b_Seen b)) p) (presence_at db m)"
proof -
  let ?rest = "map (flush_move t) (filter (\<lambda>m. im_IP m \<noteq> []) (b_IPMoves b)) @
     map flush_event (b_Events b) @ map flush_obs (b_Obs b)"
  have "db' = fold (\<lambda>q. q) ?rest (fold (\<lambda>q. q) (map flush_seen (b_Seen b)) db)"
    using Flush_ok [OF assms] by (simp add: flush_statements_def)
  moreover have "presence_at (fold (\<lambda>q. q) ?rest d) m = presence_at d m" for d
    by (rule presence_fold_skip) auto
  ultimately show ?thesis by (simp add: presence_fold_seen)
qed

lemma events_fold_skip:
  "(\<And>q d. q \<in> set qs \<Longrightarrow> t_seen_events (q d) = t_seen_events d) \<Longrightarrow>
   t_seen_events (fold (\<lambda>q. q) qs db) = t_seen_events db"
  by (induction qs arbitrary: db) auto

lemma events_simps [simp]:
  "t_seen_events (flush_seen u db) = t_seen_events db"
  "t_seen_events (flush_move t v db) = t_seen_events db"
  "t_seen_events (flush_obs x db) = t_seen_events db"
  by (simp_all add: flush_seen_def flush_move_def flush_obs_def)

lemma events_fold: "t_seen_events (fold (\<lambda>q. q) (map flush_event es) db) =
  t_seen_events db @ map (\<lambda>e. e\<lparr>ev_MAC := NormMAC (ev_MAC e)\<rparr>) es"
  by (induction es arbitrary: db) (auto simp: flush_event_def)

lemma events_Flush:
  assumes "store_Flush f t b db = (None, db')"
  shows "t_seen_events db' =
    t_seen_events db @ map (\<lambda>e. e\<lparr>ev_MAC := NormMAC (ev_MAC e)\<rparr>) (b_Events b)"
proof -
  let ?pre = "map flush_seen (b_Seen b) @ map (flush_move t) (filter (\<lambda>m. im_IP m \<noteq> []) (b_IPMoves b))"
  have "db' = fold (\<lambda>q. q) (map flush_obs (b_Obs b))
      (fold (\<lambda>q. q) (map flush_event (b_Events b)) (fold (\<lambda>q. q) ?pre db))"
    using Flush_ok [OF assms] by (simp add: flush_statements_def)
  moreover have "t_seen_events (fold (\<lambda>q. q) ?pre db) = t_seen_events db"
    by (rule events_fold_skip) auto
  moreover have "t_seen_events (fold (\<lambda>q. q) (map flush_obs (b_Obs b)) d) = t_seen_events d" for d
    by (rule events_fold_skip) auto
  ultimately show ?thesis by (simp add: events_fold)
qed

lemma Flush_error:
  assumes "store_Flush f t b db = (Some e, db')"
  shows "db' = db"
  using assms by (auto simp: store_Flush_def split: if_splits prod.splits option.splits)

lemma dom_dev_flush:
  assumes "q \<in> set (flush_statements t b)"
  shows "dev_at (q d) m = None \<longleftrightarrow> dev_at d m = None"
  using assms
  by (cases rule: flush_statement_cases) (auto simp: dev_at_flush_seen dev_at_flush_move split: option.splits)

end
