(* ===== verification/GoNet.thy ===== *)
theory GoNet
  imports Prelude Macs
begin

text \<open>
  The part of package \<^verbatim>\<open>net\<close> (and \<^verbatim>\<open>net/netip\<close> under it) the program uses: addresses as byte
  slices of length 4 or 16 (\<open>[]\<close> for nil), parsing and printing, masks, and CIDR networks.
  Slices keep the two lengths apart as Go does, because \<^verbatim>\<open>netconf.Broadcast\<close> and
  \<^verbatim>\<open>scan.enumerate\<close> index them.
\<close>

unbundle bit_operations_syntax

type_synonym ip = "byte list"

section \<open>Decimal numbers\<close>

text \<open>\<^verbatim>\<open>strconv.Itoa\<close> and the \<^verbatim>\<open>%d\<close> verb.\<close>

fun nat_string :: "nat \<Rightarrow> string" where
  "nat_string n = (if n < 10 then [char_of (48 + n)] else nat_string (n div 10) @ [char_of (48 + n mod 10)])"

declare nat_string.simps [simp del]

definition int_string :: "int \<Rightarrow> string" where
  "int_string i = (if i < 0 then CHR ''-'' # nat_string (nat (- i)) else nat_string (nat i))"

definition dec_val :: "char \<Rightarrow> nat option" where
  "dec_val c = (let n = (of_char c :: nat) in if 48 \<le> n \<and> n \<le> 57 then Some (n - 48) else None)"

text \<open>\<^verbatim>\<open>dtoi\<close> applied to a whole string of digits.\<close>

fun dec_digits :: "nat \<Rightarrow> string \<Rightarrow> nat option" where
  "dec_digits acc [] = Some acc"
| "dec_digits acc (c # cs) =
     (case dec_val c of None \<Rightarrow> None | Some d \<Rightarrow> dec_digits (10 * acc + d) cs)"

definition parse_nat :: "string \<Rightarrow> nat option" where
  "parse_nat s = (if s = [] then None else dec_digits 0 s)"

section \<open>IPv4\<close>

text \<open>One field of \<^verbatim>\<open>parseIPv4Fields\<close>: digits, no leading zero, at most 255.\<close>

definition v4_field :: "string \<Rightarrow> byte option" where
  "v4_field s =
     (case parse_nat s of None \<Rightarrow> None
      | Some n \<Rightarrow> if length s > 1 \<and> hd s = CHR ''0'' \<or> n > 255 then None else Some (of_nat n))"

definition parse_v4 :: "string \<Rightarrow> ip option" where
  "parse_v4 s =
     (case map v4_field (split_on (CHR ''.'') s) of
        [Some a, Some b, Some c, Some d] \<Rightarrow> Some [a, b, c, d]
      | _ \<Rightarrow> None)"

definition v4_string :: "ip \<Rightarrow> string" where
  "v4_string a = join ''.'' (map (\<lambda>b. nat_string (unat b)) a)"

definition v4InV6Prefix :: ip where
  "v4InV6Prefix = [0, 0, 0, 0, 0, 0, 0, 0, 0, 0, 0xFF, 0xFF]"

definition To4 :: "ip \<Rightarrow> ip" where
  "To4 a = (if length a = 4 then a
     else if length a = 16 \<and> take 12 a = v4InV6Prefix then drop 12 a else [])"

definition To16 :: "ip \<Rightarrow> ip" where
  "To16 a = (if length a = 4 then v4InV6Prefix @ a else if length a = 16 then a else [])"

section \<open>IPv6\<close>

text \<open>A hextet: up to four hex digits, with what follows them.\<close>

fun hex_run :: "nat \<Rightarrow> nat \<Rightarrow> string \<Rightarrow> (nat \<times> nat \<times> string) option" where
  "hex_run acc off [] = Some (acc, off, [])"
| "hex_run acc off (c # cs) =
     (case hex_val c of None \<Rightarrow> Some (acc, off, c # cs)
      | Some d \<Rightarrow> if off > 3 then None else hex_run (16 * acc + d) (Suc off) cs)"

text \<open>
  The loop of \<^verbatim>\<open>netip.parseIPv6\<close>: \<open>n\<close> bounds its eight turns, \<open>i = length bs\<close> bytes are
  parsed, \<open>e\<close> is the position of the ellipsis. The result is the bytes before padding.
\<close>

fun v6_loop :: "nat \<Rightarrow> nat option \<Rightarrow> ip \<Rightarrow> string \<Rightarrow> (nat option \<times> ip \<times> string) option" where
  "v6_loop 0 e bs s = Some (e, bs, s)"
| "v6_loop (Suc n) e bs s =
     (if length bs \<ge> 16 then Some (e, bs, s)
      else (case hex_run 0 0 s of None \<Rightarrow> None
      | Some (acc, off, r) \<Rightarrow>
          if off = 0 then None
          else if r \<noteq> [] \<and> hd r = CHR ''.'' then
            (if e = None \<and> length bs \<noteq> 12 \<or> length bs + 4 > 16 then None
             else (case parse_v4 s of None \<Rightarrow> None | Some q \<Rightarrow> Some (e, bs @ q, [])))
          else let bs1 = bs @ [of_nat (acc div 256), of_nat (acc mod 256)] in
            (case r of
               [] \<Rightarrow> Some (e, bs1, [])
             | c # r1 \<Rightarrow>
                 if c \<noteq> CHR '':'' \<or> r1 = [] then None
                 else if hd r1 = CHR '':'' then
                   (if e \<noteq> None then None
                    else if tl r1 = [] then Some (Some (length bs1), bs1, [])
                    else v6_loop n (Some (length bs1)) bs1 (tl r1))
                 else v6_loop n e bs1 r1)))"

definition parse_v6 :: "string \<Rightarrow> ip option" where
  "parse_v6 s =
     (let lead = take 2 s = ''::'';
          s1 = (if lead then drop 2 s else s) in
      if lead \<and> s1 = [] then Some (replicate 16 0)
      else (case v6_loop 8 (if lead then Some 0 else None) [] s1 of
              None \<Rightarrow> None
            | Some (e, bs, r) \<Rightarrow>
                if r \<noteq> [] then None
                else if length bs < 16 then
                  (case e of None \<Rightarrow> None
                   | Some k \<Rightarrow> Some (take k bs @ replicate (16 - length bs) 0 @ drop k bs))
                else if e \<noteq> None then None else Some bs))"

text \<open>
  \<^verbatim>\<open>netip.ParseAddr\<close> without a zone: the first \<open>.\<close>, \<open>:\<close> or \<open>%\<close> decides. A zone makes
  \<^verbatim>\<open>net.ParseIP\<close> and \<^verbatim>\<open>net.ParseCIDR\<close> fail, so any \<open>%\<close> is an error here.
\<close>

definition parse_addr :: "string \<Rightarrow> ip option" where
  "parse_addr s =
     (if CHR ''%'' \<in> set s then None
      else (case index_where (\<lambda>c. c = CHR ''.'' \<or> c = CHR '':'') s of
              None \<Rightarrow> None
            | Some i \<Rightarrow> if s ! i = CHR ''.'' then parse_v4 s else parse_v6 s))"

text \<open>\<^verbatim>\<open>net.ParseIP\<close>: always 16 bytes, \<open>[]\<close> for nil.\<close>

definition ParseIP :: "string \<Rightarrow> ip" where
  "ParseIP s = (case parse_addr s of None \<Rightarrow> [] | Some a \<Rightarrow> To16 a)"

text \<open>Printing a 16-byte address: hextets with the longest run of two or more zeros elided.\<close>

fun hextets :: "ip \<Rightarrow> nat list" where
  "hextets (a # b # r) = (256 * unat a + unat b) # hextets r"
| "hextets _ = []"

fun hex_string :: "nat \<Rightarrow> string" where
  "hex_string n = (if n < 16 then [hex_lower n] else hex_string (n div 16) @ [hex_lower (n mod 16)])"

declare hex_string.simps [simp del]

fun zero_run :: "nat list \<Rightarrow> nat" where
  "zero_run (0 # hs) = Suc (zero_run hs)"
| "zero_run _ = 0"

fun best_run :: "nat \<Rightarrow> nat \<Rightarrow> nat \<Rightarrow> nat list \<Rightarrow> nat \<times> nat" where
  "best_run i b l [] = (b, l)"
| "best_run i b l (h # hs) =
     (let r = zero_run (h # hs) in if r > l then best_run (Suc i) i r hs else best_run (Suc i) b l hs)"

definition v6_string :: "ip \<Rightarrow> string" where
  "v6_string a =
     (let hs = hextets a; (b, l) = best_run 0 0 1 hs in
      if l < 2 then join '':'' (map hex_string hs)
      else join '':'' (map hex_string (take b hs)) @ ''::'' @ join '':'' (map hex_string (drop (b + l) hs)))"

definition ip_string :: "ip \<Rightarrow> string" where
  "ip_string a =
     (if a = [] then ''<nil>''
      else if To4 a \<noteq> [] then v4_string (To4 a) else v6_string a)"

section \<open>Masks and networks\<close>

record ipnet =
  n_IP :: ip
  n_Mask :: "byte list"

text \<open>\<^verbatim>\<open>net.CIDRMask\<close>: one byte of the mask at a time.\<close>

fun cidr_bytes :: "nat \<Rightarrow> nat \<Rightarrow> byte list" where
  "cidr_bytes ones 0 = []"
| "cidr_bytes ones (Suc l) =
     (if ones \<ge> 8 then 0xFF # cidr_bytes (ones - 8) l
      else NOT (drop_bit ones 0xFF) # cidr_bytes 0 l)"

definition CIDRMask :: "nat \<Rightarrow> nat \<Rightarrow> byte list" where
  "CIDRMask ones bits =
     (if (bits = 32 \<or> bits = 128) \<and> ones \<le> bits then cidr_bytes ones (bits div 8) else [])"

definition and_bytes :: "byte list \<Rightarrow> byte list \<Rightarrow> byte list" where
  "and_bytes xs ys = map2 (AND) xs ys"

text \<open>\<^verbatim>\<open>IP.Mask\<close>.\<close>

definition ip_mask :: "ip \<Rightarrow> byte list \<Rightarrow> ip" where
  "ip_mask a m =
     (let m1 = (if length m = 16 \<and> length a = 4 \<and> take 12 m = replicate 12 0xFF then drop 12 m else m);
          a1 = (if length m1 = 4 \<and> length a = 16 \<and> take 12 a = v4InV6Prefix then drop 12 a else a)
      in if length a1 \<noteq> length m1 then [] else and_bytes a1 m1)"

text \<open>\<^verbatim>\<open>networkNumberAndMask\<close>, \<open>([], [])\<close> for the two nils.\<close>

definition network_number :: "ipnet \<Rightarrow> ip \<times> byte list" where
  "network_number n =
     (let a = (if To4 (n_IP n) \<noteq> [] then To4 (n_IP n)
               else if length (n_IP n) = 16 then n_IP n else []);
          m = n_Mask n
      in if a = [] then ([], [])
         else if length m = 4 then (if length a \<noteq> 4 then ([], []) else (a, m))
         else if length m = 16 then (if length a = 4 then (a, drop 12 m) else (a, m))
         else ([], []))"

definition ip_contains :: "ipnet \<Rightarrow> ip \<Rightarrow> bool" where
  "ip_contains n a =
     (let (nn, m) = network_number n; b = (if To4 a \<noteq> [] then To4 a else a)
      in length b = length nn \<and> and_bytes nn m = and_bytes b m)"

text \<open>\<^verbatim>\<open>simpleMaskLength\<close>: the leading one bits, \<open>None\<close> when a one follows a zero.\<close>

fun byte_ones :: "nat \<Rightarrow> byte \<Rightarrow> nat \<times> byte" where
  "byte_ones 0 v = (0, v)"
| "byte_ones (Suc k) v =
     (if v AND 0x80 \<noteq> 0 then (let (n, w) = byte_ones k (push_bit 1 v) in (Suc n, w)) else (0, v))"

fun mask_length :: "byte list \<Rightarrow> nat option" where
  "mask_length [] = Some 0"
| "mask_length (v # vs) =
     (if v = 0xFF then map_option ((+) 8) (mask_length vs)
      else (let (n, w) = byte_ones 8 v in
            if w \<noteq> 0 \<or> (\<exists>x \<in> set vs. x \<noteq> 0) then None else Some n))"

text \<open>\<^verbatim>\<open>IPMask.Size\<close>: ones and bits, \<open>(0, 0)\<close> for a mask that is not canonical.\<close>

definition mask_size :: "byte list \<Rightarrow> nat \<times> nat" where
  "mask_size m = (case mask_length m of None \<Rightarrow> (0, 0) | Some n \<Rightarrow> (n, 8 * length m))"

text \<open>\<^verbatim>\<open>net.ParseCIDR\<close>: the address as written and the network it lies in.\<close>

definition ParseCIDR :: "string \<Rightarrow> (ip \<times> ipnet) option" where
  "ParseCIDR s =
     (case index_where (\<lambda>c. c = CHR ''/'') s of
        None \<Rightarrow> None
      | Some i \<Rightarrow>
          (case (parse_addr (take i s), parse_nat (drop (Suc i) s)) of
             (Some a, Some n) \<Rightarrow>
               if n > 8 * length a then None
               else let m = CIDRMask n (8 * length a) in
                 Some (To16 a, \<lparr>n_IP = ip_mask (To16 a) m, n_Mask = m\<rparr>)
           | _ \<Rightarrow> None))"

text \<open>\<^verbatim>\<open>IPNet.String\<close>; a mask that is not canonical prints in hex.\<close>

definition net_string :: "ipnet \<Rightarrow> string" where
  "net_string n =
     (let (nn, m) = network_number n in
      if nn = [] then ''<nil>''
      else ip_string nn @ ''/'' @
        (case mask_length m of Some l \<Rightarrow> nat_string l | None \<Rightarrow> concat (map octet_string m)))"

definition ip_equal :: "ip \<Rightarrow> ip \<Rightarrow> bool" where
  "ip_equal a b \<longleftrightarrow>
     (if length a = length b then a = b
      else if length a = 4 \<and> length b = 16 then take 12 b = v4InV6Prefix \<and> drop 12 b = a
      else if length a = 16 \<and> length b = 4 then take 12 a = v4InV6Prefix \<and> drop 12 a = b
      else False)"

definition IsPrivate :: "ip \<Rightarrow> bool" where
  "IsPrivate a =
     (let q = To4 a in
      if q \<noteq> [] then q ! 0 = 10 \<or> q ! 0 = 172 \<and> q ! 1 AND 0xF0 = 16 \<or> q ! 0 = 192 \<and> q ! 1 = 168
      else length a = 16 \<and> a ! 0 AND 0xFE = 0xFC)"

definition IsMulticast :: "ip \<Rightarrow> bool" where
  "IsMulticast a =
     (let q = To4 a in
      if q \<noteq> [] then q ! 0 AND 0xF0 = 0xE0 else length a = 16 \<and> a ! 0 = 0xFF)"

definition IsUnspecified :: "ip \<Rightarrow> bool" where
  "IsUnspecified a \<longleftrightarrow> ip_equal a (v4InV6Prefix @ [0, 0, 0, 0]) \<or> ip_equal a (replicate 16 0)"

definition IsLinkLocalUnicast :: "ip \<Rightarrow> bool" where
  "IsLinkLocalUnicast a =
     (let q = To4 a in
      if q \<noteq> [] then q ! 0 = 169 \<and> q ! 1 = 254
      else length a = 16 \<and> a ! 0 = 0xFE \<and> a ! 1 AND 0xC0 = 0x80)"

end
