(* ===== verification/Neigh.thy ===== *)
theory Neigh
  imports GoNet
begin

text \<open>
  The kernel neighbour cache, \<^verbatim>\<open>internal/neigh\<close>: the netlink reader of \<^verbatim>\<open>neigh_linux.go\<close>, the
  \<^verbatim>\<open>/proc/net/arp\<close> fallback of \<^verbatim>\<open>neigh_proc_linux.go\<close> and \<^verbatim>\<open>FmtSeen\<close> of \<^verbatim>\<open>neigh.go\<close>. The
  netlink library is not part of the repository: what it delivers (the messages of a dump,
  each with the attributes it decodes or an error) is an argument.
\<close>

record entry =
  e_IP :: string
  e_MAC :: string
  e_State :: string
  e_SeenSec :: int

section \<open>FmtSeen\<close>

text \<open>The dash of an unknown age is U+2014 in UTF-8.\<close>

definition em_dash :: string where
  "em_dash = [CHR 0xE2, CHR 0x80, CHR 0x94]"

definition FmtSeen :: "int \<Rightarrow> string" where
  "FmtSeen sec =
     (if sec < 0 then em_dash
      else if sec < 5 then ''now''
      else if sec < 60 then int_string sec @ ''s''
      else if sec < 3600 then int_string (sec div 60) @ ''m''
      else if sec < 86400 then int_string (sec div 3600) @ ''h''
      else int_string (sec div 86400) @ ''d'')"

section \<open>The netlink dump\<close>

definition nudIncomplete :: "16 word" where "nudIncomplete = 0x01"
definition nudReachable :: "16 word" where "nudReachable = 0x02"
definition nudStale :: "16 word" where "nudStale = 0x04"
definition nudDelay :: "16 word" where "nudDelay = 0x08"
definition nudProbe :: "16 word" where "nudProbe = 0x10"
definition nudFailed :: "16 word" where "nudFailed = 0x20"
definition nudNoarp :: "16 word" where "nudNoarp = 0x40"
definition nudPermanent :: "16 word" where "nudPermanent = 0x80"

definition nudToState :: "16 word \<Rightarrow> string" where
  "nudToState state =
     (if state AND (nudReachable OR nudPermanent OR nudNoarp) \<noteq> 0 then ''up''
      else if state AND (nudStale OR nudDelay OR nudProbe) \<noteq> 0 then ''stale''
      else ''down'')"

text \<open>\<^verbatim>\<open>binary.LittleEndian\<close>.\<close>

definition le16 :: "byte list \<Rightarrow> 16 word" where
  "le16 b = of_nat (unat (b ! 0) + 256 * unat (b ! 1))"

definition le32 :: "byte list \<Rightarrow> 32 word" where
  "le32 b = of_nat (unat (b ! 0) + 256 * unat (b ! 1) + 65536 * unat (b ! 2) + 16777216 * unat (b ! 3))"

definition ndaDst :: nat where "ndaDst = 1"
definition ndaLLAddr :: nat where "ndaLLAddr = 2"
definition ndaCacheInfo :: nat where "ndaCacheInfo = 3"

text \<open>A message: its fixed header bytes and the attributes the library decodes, \<open>None\<close> on error.\<close>

record nl_message =
  m_Data :: "byte list"
  m_Attrs :: "(nat \<times> byte list) list option"

definition attr_step :: "nat \<times> byte list \<Rightarrow> entry \<Rightarrow> entry" where
  "attr_step a e =
     (let (ty, b) = a in
      if ty = ndaDst then (if length b = 4 then e\<lparr>e_IP := ip_string b\<rparr> else e)
      else if ty = ndaLLAddr then (if length b = 6 then e\<lparr>e_MAC := hw_string b\<rparr> else e)
      else if ty = ndaCacheInfo then
        (if length b \<ge> 4 then e\<lparr>e_SeenSec := int (unat (le32 (take 4 b))) div 100\<rparr> else e)
      else e)"

definition decode_message :: "nl_message \<Rightarrow> entry option" where
  "decode_message m =
     (if length (m_Data m) < 12 then None
      else let state = le16 (take 2 (drop 8 (m_Data m))) in
        (case m_Attrs m of None \<Rightarrow> None
         | Some attrs \<Rightarrow>
             let e = fold attr_step attrs
               \<lparr>e_IP = [], e_MAC = [], e_State = nudToState state, e_SeenSec = -1\<rparr>
             in if e_IP e = [] \<or> e_MAC e = [] then None else Some e))"

definition readNetlink :: "nl_message list option \<Rightarrow> entry list option" where
  "readNetlink dump =
     (case dump of None \<Rightarrow> None | Some msgs \<Rightarrow> Some (List.map_filter decode_message msgs))"

section \<open>The /proc fallback\<close>

definition proc_line :: "string \<Rightarrow> entry option" where
  "proc_line line =
     (let fs = str_fields line in
      if length fs < 4 then None
      else let ip = fs ! 0; flags = fs ! 2; mac = fs ! 3;
               state = (if flags = ''0x2'' then ''stale'' else ''down'') in
        if mac = ''00:00:00:00:00:00'' then None
        else Some \<lparr>e_IP = ip, e_MAC = neigh_normMAC mac, e_State = state, e_SeenSec = -1\<rparr>)"

text \<open>The first line is the header. A missing file is an error.\<close>

definition readProc :: "string list option \<Rightarrow> entry list option" where
  "readProc file =
     (case file of None \<Rightarrow> None | Some ls \<Rightarrow> Some (List.map_filter proc_line (drop 1 ls)))"

definition neigh_read :: "nl_message list option \<Rightarrow> string list option \<Rightarrow> entry list option" where
  "neigh_read dump file =
     (case readNetlink dump of Some e \<Rightarrow> Some e | None \<Rightarrow> readProc file)"

section \<open>What a read delivers\<close>

lemma nudToState_cases: "nudToState s \<in> {''up'', ''stale'', ''down''}"
  by (simp add: nudToState_def)

lemma attr_step_State [simp]: "e_State (attr_step a e) = e_State e"
  by (simp add: attr_step_def split: prod.splits)

lemma fold_attr_State [simp]: "e_State (fold attr_step as e) = e_State e"
  by (induction as arbitrary: e) auto

lemma attr_step_wf:
  assumes "e_MAC e = [] \<or> canonical_mac (e_MAC e)" and "-1 \<le> e_SeenSec e"
  shows "(e_MAC (attr_step a e) = [] \<or> canonical_mac (e_MAC (attr_step a e))) \<and> -1 \<le> e_SeenSec (attr_step a e)"
proof -
  have "canonical_mac (hw_string b)" if "length b = 6" for b
    using that by (auto simp: canonical_mac_iff)
  moreover have "- 1 \<le> uint w div 100" for w :: "32 word"
    by (rule order_trans [of _ 0]) (simp_all add: pos_imp_zdiv_nonneg_iff)
  ultimately show ?thesis
    using assms by (auto simp: attr_step_def split: prod.splits)
qed

lemma fold_attr_wf:
  "e_MAC e = [] \<or> canonical_mac (e_MAC e) \<Longrightarrow> -1 \<le> e_SeenSec e \<Longrightarrow>
   (e_MAC (fold attr_step as e) = [] \<or> canonical_mac (e_MAC (fold attr_step as e))) \<and>
   -1 \<le> e_SeenSec (fold attr_step as e)"
  by (induction as arbitrary: e) (use attr_step_wf in force)+

lemma decode_message_wf:
  assumes "decode_message m = Some e"
  shows "canonical_mac (e_MAC e) \<and> e_IP e \<noteq> [] \<and> -1 \<le> e_SeenSec e \<and> e_State e \<in> {''up'', ''stale'', ''down''}"
proof -
  obtain attrs s where e: "e = fold attr_step attrs
      \<lparr>e_IP = [], e_MAC = [], e_State = nudToState s, e_SeenSec = -1\<rparr>" "e_IP e \<noteq> []" "e_MAC e \<noteq> []"
    using assms by (auto simp: decode_message_def Let_def split: if_splits option.splits)
  with fold_attr_wf [of "\<lparr>e_IP = [], e_MAC = [], e_State = nudToState s, e_SeenSec = -1\<rparr>" attrs]
  show ?thesis using nudToState_cases [of s] by auto
qed

end
