(* ===== verification/Presence.thy ===== *)
theory Presence
  imports StoreProps Neigh
begin

text \<open>
  The in-memory presence model, \<^verbatim>\<open>internal/server/state.go\<close>: tracked devices with their presence
  scalars and session-local observations, remembered untracked hosts, and everything pending
  persistence. Each method runs under the struct's mutex, so it is one atomic function on the
  record \<open>state\<close>. A \<^verbatim>\<open>range\<close> over a Go map takes its iteration order as an argument. A
  \<^verbatim>\<open>map[string]bool\<close> that only holds \<^verbatim>\<open>true\<close> is a set. A nil and an empty \<^verbatim>\<open>[]probeView\<close> are
  one value: no operation of the state tells them apart.
\<close>

section \<open>State\<close>

record icmp_result =
  ic_St :: string
  ic_RTT :: int

record probe_view =
  pv_Port :: int
  pv_St :: string
  pv_RTT :: int
  pv_Note :: string

record live_part =
  lp_icmp :: "icmp_result option"
  lp_probes :: "probe_view list"

record devState =
  ds_dev :: device
  ds_icmpSeen :: bool
  ds_lastSeenUp :: int
  ds_lastSeen :: int
  ds_live :: live_part
  ds_arp :: string
  ds_arpSeen :: int
  ds_status :: string
  ds_dirty :: bool

record state =
  s_devs :: "string \<Rightarrow> devState option"
  s_order :: "string list"
  s_obs :: "string \<Rightarrow> observed option"
  s_obsDirty :: "string set"
  s_obsFlushed :: "string \<Rightarrow> int option"
  s_ipMoves :: "string \<Rightarrow> string option"
  s_events :: "seen_event list"

definition no_live :: live_part where
  "no_live = \<lparr>lp_icmp = None, lp_probes = []\<rparr>"

definition newState :: state where
  "newState = \<lparr>s_devs = Map.empty, s_order = [], s_obs = Map.empty, s_obsDirty = {},
     s_obsFlushed = Map.empty, s_ipMoves = Map.empty, s_events = []\<rparr>"

section \<open>Load\<close>

text \<open>
  \<^verbatim>\<open>Load\<close> in two steps, as the code takes them: the store is read before the state's lock is
  taken (\<open>store_List\<close>), then the devices are merged under it.
\<close>

definition seed_dev :: "device \<Rightarrow> devState" where
  "seed_dev d = \<lparr>ds_dev = d, ds_icmpSeen = d_IcmpSeen d, ds_lastSeenUp = d_LastSeenUp d,
     ds_lastSeen = d_LastSeen d, ds_live = no_live, ds_arp = ''down'', ds_arpSeen = -1,
     ds_status = [], ds_dirty = False\<rparr>"

definition keep_dev :: "device \<Rightarrow> devState \<Rightarrow> devState" where
  "keep_dev d ds = ds\<lparr>ds_dev := d, ds_icmpSeen := ds_icmpSeen ds \<or> d_IcmpSeen d,
     ds_lastSeenUp := max (ds_lastSeenUp ds) (d_LastSeenUp d),
     ds_lastSeen := max (ds_lastSeen ds) (d_LastSeen d)\<rparr>"

definition load_dev :: "state \<Rightarrow> device \<Rightarrow> devState" where
  "load_dev s d = (case s_devs s (d_MAC d) of None \<Rightarrow> seed_dev d | Some ds \<Rightarrow> keep_dev d ds)"

definition load_merge :: "device list \<Rightarrow> state \<Rightarrow> state" where
  "load_merge devs s =
     s\<lparr>s_devs := fold (\<lambda>d m. m(d_MAC d \<mapsto> load_dev s d)) devs Map.empty,
       s_order := map d_MAC devs\<rparr>"

definition state_Load :: "faults \<Rightarrow> db \<Rightarrow> state \<Rightarrow> store_error option \<times> state" where
  "state_Load f db s =
     (case store_List f db of Inl e \<Rightarrow> (Some e, s) | Inr devs \<Rightarrow> (None, load_merge devs s))"

definition load_obs_step :: "observed \<Rightarrow> state \<Rightarrow> state" where
  "load_obs_step x s =
     (case s_obs s (ob_MAC x) of
        None \<Rightarrow> s\<lparr>s_obs := (s_obs s)(ob_MAC x \<mapsto> x)\<rparr>
      | Some cur \<Rightarrow> if ob_LastSeen x > ob_LastSeen cur
          then s\<lparr>s_obs := (s_obs s)(ob_MAC x \<mapsto> x)\<rparr> else s)"

definition state_LoadObserved :: "faults \<Rightarrow> int \<Rightarrow> db \<Rightarrow> state \<Rightarrow> store_error option \<times> state" where
  "state_LoadObserved f since db s =
     (case store_ListObserved f since db of Inl e \<Rightarrow> (Some e, s)
      | Inr xs \<Rightarrow> (None, fold load_obs_step xs s))"

section \<open>Folding observations in\<close>

definition neigh_step :: "(string \<Rightarrow> entry option) \<Rightarrow> int \<Rightarrow> string \<Rightarrow> state \<Rightarrow> state" where
  "neigh_step byMAC now mac s =
     (case s_devs s mac of None \<Rightarrow> s
      | Some ds \<Rightarrow>
          (case byMAC mac of
             None \<Rightarrow> s\<lparr>s_devs := (s_devs s)(mac \<mapsto> ds\<lparr>ds_arp := ''down'', ds_arpSeen := -1\<rparr>)\<rparr>
           | Some e \<Rightarrow>
               let ds1 = ds\<lparr>ds_arp := e_State e, ds_arpSeen := e_SeenSec e\<rparr>;
                   ds2 = (if now > ds_lastSeen ds1 then ds1\<lparr>ds_lastSeen := now, ds_dirty := True\<rparr> else ds1)
               in if e_IP e \<noteq> [] \<and> e_IP e \<noteq> d_IP (ds_dev ds2)
                  then s\<lparr>s_devs := (s_devs s)(mac \<mapsto> ds2\<lparr>ds_dev := (ds_dev ds2)\<lparr>d_IP := e_IP e\<rparr>\<rparr>),
                         s_ipMoves := (s_ipMoves s)(mac \<mapsto> e_IP e)\<rparr>
                  else s\<lparr>s_devs := (s_devs s)(mac \<mapsto> ds2)\<rparr>))"

definition applyNeigh :: "string list \<Rightarrow> (string \<Rightarrow> entry option) \<Rightarrow> int \<Rightarrow> state \<Rightarrow> state" where
  "applyNeigh ks byMAC now s = fold (neigh_step byMAC now) ks s"

definition part_signal :: "live_part \<Rightarrow> string" where
  "part_signal part =
     (if (case lp_icmp part of None \<Rightarrow> False | Some r \<Rightarrow> ic_St r = ''up'') then ''icmp''
      else if \<exists>pv \<in> set (lp_probes part). pv_St pv = ''up'' then ''tcp'' else [])"

text \<open>One device's turn of the loop: its new record and the transition rows it appends.\<close>

definition probe_dev :: "string \<Rightarrow> live_part \<Rightarrow> int \<Rightarrow> devState \<Rightarrow> devState \<times> seen_event list" where
  "probe_dev mac part now ds =
     (let ds1 = ds\<lparr>ds_live := part\<rparr>;
          signal = part_signal part;
          ds2 = (if signal = ''icmp'' \<and> \<not> ds_icmpSeen ds1
                 then ds1\<lparr>ds_icmpSeen := True, ds_dirty := True\<rparr> else ds1);
          status = (if signal \<noteq> [] then ''up'' else ''down'');
          ds3 = (if signal \<noteq> [] then ds2\<lparr>ds_lastSeenUp := now, ds_lastSeen := now, ds_dirty := True\<rparr>
                 else ds2);
          evs = (if ds_status ds3 \<noteq> [] \<and> ds_status ds3 \<noteq> status
                 then [\<lparr>ev_MAC = mac, ev_TS = now, ev_State = status,
                        ev_Signal = (if signal = [] then ''none'' else signal)\<rparr>]
                 else [])
      in (ds3\<lparr>ds_status := status\<rparr>, evs))"

definition probe_step :: "(string \<Rightarrow> live_part option) \<Rightarrow> int \<Rightarrow> string \<Rightarrow> state \<Rightarrow> state" where
  "probe_step results now mac s =
     (case (results mac, s_devs s mac) of
        (Some part, Some ds) \<Rightarrow>
          (let (ds', evs) = probe_dev mac part now ds in
           s\<lparr>s_devs := (s_devs s)(mac \<mapsto> ds'), s_events := s_events s @ evs\<rparr>)
      | _ \<Rightarrow> s)"

definition applyProbes :: "string list \<Rightarrow> (string \<Rightarrow> live_part option) \<Rightarrow> int \<Rightarrow> state \<Rightarrow> state" where
  "applyProbes ks results now s = fold (probe_step results now) ks s"

definition clearLive :: "state \<Rightarrow> state" where
  "clearLive s = s\<lparr>s_devs := (\<lambda>mac. map_option (\<lambda>ds. ds\<lparr>ds_live := no_live, ds_status := []\<rparr>) (s_devs s mac))\<rparr>"

section \<open>Views\<close>

definition snapshot :: "state \<Rightarrow> devState list" where
  "snapshot s = List.map_filter (s_devs s) (s_order s)"

definition tracked :: "state \<Rightarrow> string set" where
  "tracked s = {mac. s_devs s mac \<noteq> None}"

definition touchObserved :: "string \<Rightarrow> string \<Rightarrow> string \<Rightarrow> int \<Rightarrow> state \<Rightarrow> state" where
  "touchObserved mac ip name now s =
     (let cur = (case s_obs s mac of Some o1 \<Rightarrow> o1
                 | None \<Rightarrow> \<lparr>ob_MAC = [], ob_IP = [], ob_Name = [], ob_LastSeen = 0\<rparr>);
          cur1 = cur\<lparr>ob_MAC := mac, ob_IP := ip, ob_LastSeen := now\<rparr>;
          cur2 = (if name \<noteq> [] then cur1\<lparr>ob_Name := name\<rparr> else cur1);
          s1 = s\<lparr>s_obs := (s_obs s)(mac \<mapsto> cur2)\<rparr>;
          last = (case s_obsFlushed s1 mac of None \<Rightarrow> 0 | Some t \<Rightarrow> t)
      in if now - last \<ge> 60 then s1\<lparr>s_obsDirty := insert mac (s_obsDirty s1)\<rparr> else s1)"

definition obs_less :: "observed \<Rightarrow> observed \<Rightarrow> bool" where
  "obs_less a b = (if ob_LastSeen a \<noteq> ob_LastSeen b then ob_LastSeen a > ob_LastSeen b
                   else ob_MAC a < ob_MAC b)"

definition observedSince :: "string list \<Rightarrow> int \<Rightarrow> state \<Rightarrow> observed list" where
  "observedSince ks since s =
     sort_slice obs_less (filter (\<lambda>x. ob_LastSeen x \<ge> since) (List.map_filter (s_obs s) ks))"

definition forgetObserved :: "string \<Rightarrow> state \<Rightarrow> state" where
  "forgetObserved mac s = s\<lparr>s_obs := (s_obs s)(mac := None),
     s_obsDirty := s_obsDirty s - {mac}, s_obsFlushed := (s_obsFlushed s)(mac := None)\<rparr>"

definition prune_step :: "int \<Rightarrow> string \<Rightarrow> state \<Rightarrow> state" where
  "prune_step before mac s =
     (case s_obs s mac of None \<Rightarrow> s
      | Some x \<Rightarrow> if ob_LastSeen x < before then forgetObserved mac s else s)"

definition pruneObserved :: "string list \<Rightarrow> int \<Rightarrow> state \<Rightarrow> state" where
  "pruneObserved ks before s = fold (prune_step before) ks s"

section \<open>Write-behind\<close>

definition dev_update :: "string \<Rightarrow> devState \<Rightarrow> seen_update" where
  "dev_update mac ds = \<lparr>su_MAC = mac, su_IcmpSeen = ds_icmpSeen ds,
     su_LastSeenUp = ds_lastSeenUp ds, su_LastSeen = ds_lastSeen ds\<rparr>"

text \<open>
  The orders are those of \<^verbatim>\<open>s.devs\<close>, \<^verbatim>\<open>s.obsDirty\<close> and \<^verbatim>\<open>s.ipMoves\<close>. Every turn of the three
  loops reads and writes its own key only, so the state after a loop is given pointwise.
\<close>

definition drain :: "string list \<Rightarrow> string list \<Rightarrow> string list \<Rightarrow> state \<Rightarrow> batch \<times> state" where
  "drain kd ko km s =
     (let seen = List.map_filter (\<lambda>mac. case s_devs s mac of None \<Rightarrow> None
                 | Some ds \<Rightarrow> if ds_dirty ds then Some (dev_update mac ds) else None) kd;
          obs = List.map_filter (s_obs s) ko;
          moves = List.map_filter (\<lambda>mac. map_option (\<lambda>ip. \<lparr>im_MAC = mac, im_IP = ip\<rparr>) (s_ipMoves s mac)) km
      in (\<lparr>b_Seen = seen, b_Events = s_events s, b_Obs = obs, b_IPMoves = moves\<rparr>,
          s\<lparr>s_devs := (\<lambda>mac. if mac \<in> set kd then map_option (\<lambda>ds. ds\<lparr>ds_dirty := False\<rparr>) (s_devs s mac)
                             else s_devs s mac),
            s_obsDirty := {},
            s_obsFlushed := (\<lambda>mac. if mac \<in> set ko \<and> s_obs s mac \<noteq> None
                                   then map_option ob_LastSeen (s_obs s mac) else s_obsFlushed s mac),
            s_ipMoves := Map.empty,
            s_events := []\<rparr>))"

definition restore :: "batch \<Rightarrow> state \<Rightarrow> state" where
  "restore b s =
     (let s1 = fold (\<lambda>u t. case s_devs t (su_MAC u) of None \<Rightarrow> t
                | Some ds \<Rightarrow> t\<lparr>s_devs := (s_devs t)(su_MAC u \<mapsto> ds\<lparr>ds_dirty := True\<rparr>)\<rparr>) (b_Seen b) s;
          s2 = fold (\<lambda>x t. if s_obs t (ob_MAC x) \<noteq> None
                then t\<lparr>s_obsDirty := insert (ob_MAC x) (s_obsDirty t)\<rparr> else t) (b_Obs b) s1;
          s3 = fold (\<lambda>m t. if s_ipMoves t (im_MAC m) = None
                then t\<lparr>s_ipMoves := (s_ipMoves t)(im_MAC m \<mapsto> im_IP m)\<rparr> else t) (b_IPMoves b) s2
      in s3\<lparr>s_events := b_Events b @ s_events s3\<rparr>)"

end
