(* ===== verification/PresenceProps.thy ===== *)
theory PresenceProps
  imports Presence
begin

text \<open>
  Lemmas on the presence model: what each method does to each key (independently of the
  iteration order of the map it ranges over), the invariant \<open>wf_state\<close>, that presence only
  moves forward, that the transition log is the change points of the verdicts, and that a
  drained batch can be handed back.
\<close>

section \<open>Pointwise effect of the loops\<close>

definition neigh_dev :: "(string \<Rightarrow> entry option) \<Rightarrow> int \<Rightarrow> string \<Rightarrow> devState \<Rightarrow> devState" where
  "neigh_dev byMAC now mac ds =
     (case byMAC mac of None \<Rightarrow> ds\<lparr>ds_arp := ''down'', ds_arpSeen := -1\<rparr>
      | Some e \<Rightarrow>
          ds\<lparr>ds_arp := e_State e, ds_arpSeen := e_SeenSec e,
             ds_lastSeen := max (ds_lastSeen ds) now,
             ds_dirty := (ds_dirty ds \<or> now > ds_lastSeen ds),
             ds_dev := (if e_IP e = [] then ds_dev ds else (ds_dev ds)\<lparr>d_IP := e_IP e\<rparr>)\<rparr>)"

definition neigh_moved :: "(string \<Rightarrow> entry option) \<Rightarrow> string \<Rightarrow> devState \<Rightarrow> string option" where
  "neigh_moved byMAC mac ds =
     (case byMAC mac of None \<Rightarrow> None
      | Some e \<Rightarrow> if e_IP e \<noteq> [] \<and> e_IP e \<noteq> d_IP (ds_dev ds) then Some (e_IP e) else None)"

lemma neigh_step_devs:
  "s_devs (neigh_step byMAC now mac s) =
    (s_devs s)(mac := map_option (neigh_dev byMAC now mac) (s_devs s mac))"
  by (auto simp: neigh_step_def neigh_dev_def Let_def fun_eq_iff split: option.splits)

lemma neigh_step_moves:
  "s_ipMoves (neigh_step byMAC now mac s) =
    (s_ipMoves s)(mac := (case Option.bind (s_devs s mac) (neigh_moved byMAC mac) of
       Some ip \<Rightarrow> Some ip | None \<Rightarrow> s_ipMoves s mac))"
  by (auto simp: neigh_step_def neigh_moved_def Let_def fun_eq_iff split: option.splits)

lemma neigh_step_frame [simp]:
  "s_order (neigh_step byMAC now mac s) = s_order s"
  "s_obs (neigh_step byMAC now mac s) = s_obs s"
  "s_obsDirty (neigh_step byMAC now mac s) = s_obsDirty s"
  "s_obsFlushed (neigh_step byMAC now mac s) = s_obsFlushed s"
  "s_events (neigh_step byMAC now mac s) = s_events s"
  by (auto simp: neigh_step_def Let_def split: option.splits)

lemma applyNeigh_frame [simp]:
  "s_order (applyNeigh ks byMAC now s) = s_order s"
  "s_obs (applyNeigh ks byMAC now s) = s_obs s"
  "s_obsDirty (applyNeigh ks byMAC now s) = s_obsDirty s"
  "s_obsFlushed (applyNeigh ks byMAC now s) = s_obsFlushed s"
  "s_events (applyNeigh ks byMAC now s) = s_events s"
  unfolding applyNeigh_def by (induction ks arbitrary: s) auto

lemma applyNeigh_devs: "distinct ks \<Longrightarrow> s_devs (applyNeigh ks byMAC now s) mac =
  (if mac \<in> set ks then map_option (neigh_dev byMAC now mac) (s_devs s mac) else s_devs s mac)"
  unfolding applyNeigh_def
  by (induction ks arbitrary: s) (auto simp: neigh_step_devs)

lemma applyNeigh_moves: "distinct ks \<Longrightarrow> s_ipMoves (applyNeigh ks byMAC now s) mac =
  (if mac \<in> set ks then (case Option.bind (s_devs s mac) (neigh_moved byMAC mac) of
       Some ip \<Rightarrow> Some ip | None \<Rightarrow> s_ipMoves s mac)
   else s_ipMoves s mac)"
  unfolding applyNeigh_def
  by (induction ks arbitrary: s) (auto simp: neigh_step_moves neigh_step_devs split: option.splits)

lemma state_eqI:
  assumes "s_devs s = s_devs t" "s_order s = s_order t" "s_obs s = s_obs t"
    "s_obsDirty s = s_obsDirty t" "s_obsFlushed s = s_obsFlushed t"
    "s_ipMoves s = s_ipMoves t" "s_events s = s_events t"
  shows "s = (t :: state)"
  using assms by (cases s; cases t) simp

lemma probe_step_devs:
  "s_devs (probe_step results now mac s) =
    (s_devs s)(mac := (case results mac of None \<Rightarrow> s_devs s mac
       | Some part \<Rightarrow> map_option (\<lambda>ds. fst (probe_dev mac part now ds)) (s_devs s mac)))"
  by (auto simp: probe_step_def fun_eq_iff split: option.splits prod.splits)

definition probe_rows :: "(string \<Rightarrow> live_part option) \<Rightarrow> int \<Rightarrow> state \<Rightarrow> string \<Rightarrow> seen_event list" where
  "probe_rows results now s mac =
     (case (results mac, s_devs s mac) of
        (Some part, Some ds) \<Rightarrow> snd (probe_dev mac part now ds) | _ \<Rightarrow> [])"

lemma probe_step_events:
  "s_events (probe_step results now mac s) = s_events s @ probe_rows results now s mac"
  by (auto simp: probe_step_def probe_rows_def split: option.splits prod.splits)

lemma probe_step_frame [simp]:
  "s_order (probe_step results now mac s) = s_order s"
  "s_obs (probe_step results now mac s) = s_obs s"
  "s_obsDirty (probe_step results now mac s) = s_obsDirty s"
  "s_obsFlushed (probe_step results now mac s) = s_obsFlushed s"
  "s_ipMoves (probe_step results now mac s) = s_ipMoves s"
  by (auto simp: probe_step_def split: option.splits prod.splits)

lemma applyProbes_frame [simp]:
  "s_order (applyProbes ks results now s) = s_order s"
  "s_obs (applyProbes ks results now s) = s_obs s"
  "s_obsDirty (applyProbes ks results now s) = s_obsDirty s"
  "s_obsFlushed (applyProbes ks results now s) = s_obsFlushed s"
  "s_ipMoves (applyProbes ks results now s) = s_ipMoves s"
  unfolding applyProbes_def by (induction ks arbitrary: s) auto

lemma applyProbes_devs: "distinct ks \<Longrightarrow> s_devs (applyProbes ks results now s) mac =
  (if mac \<in> set ks then (case results mac of None \<Rightarrow> s_devs s mac
       | Some part \<Rightarrow> map_option (\<lambda>ds. fst (probe_dev mac part now ds)) (s_devs s mac))
   else s_devs s mac)"
  unfolding applyProbes_def
  by (induction ks arbitrary: s) (auto simp: probe_step_devs split: option.splits)

lemma probe_rows_cong: "s_devs s mac = s_devs t mac \<Longrightarrow> probe_rows results now s mac = probe_rows results now t mac"
  by (simp add: probe_rows_def)

lemma applyProbes_events: "distinct ks \<Longrightarrow>
  s_events (applyProbes ks results now s) = s_events s @ concat (map (probe_rows results now s) ks)"
proof (induction ks arbitrary: s)
  case Nil
  then show ?case by (simp add: applyProbes_def)
next
  case (Cons k ks)
  let ?s = "probe_step results now k s"
  have "map (probe_rows results now ?s) ks = map (probe_rows results now s) ks"
    using Cons.prems by (intro map_cong refl probe_rows_cong) (auto simp: probe_step_devs)
  with Cons.IH [of ?s] Cons.prems show ?case
    by (simp add: applyProbes_def probe_step_events)
qed

section \<open>Iteration order does not matter\<close>

lemma applyNeigh_order:
  assumes "enumerates ks A" and "enumerates ks' A"
  shows "applyNeigh ks byMAC now s = applyNeigh ks' byMAC now s"
  using assms unfolding enumerates_def
  by (intro state_eqI) (auto simp: fun_eq_iff applyNeigh_devs applyNeigh_moves)

lemma applyProbes_order:
  assumes "enumerates ks A" and "enumerates ks' A"
  shows "s_devs (applyProbes ks results now s) = s_devs (applyProbes ks' results now s) \<and>
    mset (s_events (applyProbes ks results now s)) = mset (s_events (applyProbes ks' results now s))"
proof
  show "s_devs (applyProbes ks results now s) = s_devs (applyProbes ks' results now s)"
    using assms by (auto simp: enumerates_def fun_eq_iff applyProbes_devs)
  have "mset (concat (map (probe_rows results now s) xs)) =
      (\<Sum>k\<in>#mset xs. mset (probe_rows results now s k))" for xs
    by (induction xs) auto
  then have "mset (concat (map (probe_rows results now s) ks)) = mset (concat (map (probe_rows results now s) ks'))"
    using enumerates_mset [OF assms] by simp
  then show "mset (s_events (applyProbes ks results now s)) = mset (s_events (applyProbes ks' results now s))"
    using assms by (simp add: enumerates_def applyProbes_events)
qed

section \<open>Invariant of the model\<close>

definition dev_ok :: "string \<Rightarrow> devState \<Rightarrow> bool" where
  "dev_ok mac ds \<longleftrightarrow> d_MAC (ds_dev ds) = mac \<and> NormMAC mac = mac \<and> ds_status ds \<in> {[], ''up'', ''down''}"

definition wf_state :: "state \<Rightarrow> bool" where
  "wf_state s \<longleftrightarrow>
     distinct (s_order s) \<and> set (s_order s) = dom (s_devs s) \<and>
     (\<forall>mac ds. s_devs s mac = Some ds \<longrightarrow> dev_ok mac ds) \<and>
     (\<forall>mac x. s_obs s mac = Some x \<longrightarrow> ob_MAC x = mac) \<and>
     finite (dom (s_obs s)) \<and> s_obsDirty s \<subseteq> dom (s_obs s)"

text \<open>A step that rewrites device records in place and leaves the observed hosts alone.\<close>

lemma wf_state_in_place:
  assumes "wf_state s" and "\<And>mac. s_devs t mac = map_option (g mac) (s_devs s mac)"
    and "\<And>mac ds. dev_ok mac ds \<Longrightarrow> dev_ok mac (g mac ds)"
    and "s_order t = s_order s" and "s_obs t = s_obs s" and "s_obsDirty t \<subseteq> s_obsDirty s"
  shows "wf_state t"
  using assms unfolding wf_state_def dom_def by (auto 0 3)

text \<open>A configuration list as \<^verbatim>\<open>Store.List\<close> returns it.\<close>

definition wf_devices :: "device list \<Rightarrow> bool" where
  "wf_devices devs \<longleftrightarrow> distinct (map d_MAC devs) \<and> (\<forall>d \<in> set devs. NormMAC (d_MAC d) = d_MAC d)"

lemma scanDevice_Inr: "scanDevice r = Inr d \<Longrightarrow>
  d_MAC d = r_mac r \<and> d_IcmpSeen d = (r_icmp_seen r = 1) \<and> d_LastSeenUp d = r_last_seen_up r \<and>
  d_LastSeen d = r_last_seen r"
  by (auto simp: scanDevice_def split: if_splits)

lemma scan_rows_Inr:
  "scan_rows rows = Inr ds \<Longrightarrow> list_all2 (\<lambda>r d. scanDevice r = Inr d) rows ds"
  by (induction rows arbitrary: ds) (auto split: sum.splits)

lemma fill_probes_all2:
  "list_all2 (\<lambda>d d'. \<exists>ps. d' = d\<lparr>d_Probes := ps\<rparr>) ds (fill_probes f k db ds)"
  by (induction ds arbitrary: k) auto

lemma list_all2_map_eq: "list_all2 (\<lambda>x y. g y = f x) xs ys \<Longrightarrow> map g ys = map f xs"
  by (induction xs ys rule: list_all2_induct) auto

lemma store_List_rows:
  assumes "store_List f db = Inr devs"
  shows "list_all2 (\<lambda>r d. d_MAC d = r_mac r \<and> d_IcmpSeen d = (r_icmp_seen r = 1) \<and>
      d_LastSeenUp d = r_last_seen_up r \<and> d_LastSeen d = r_last_seen r)
    (sort_key display_key (t_devices db)) devs"
proof -
  obtain ds where ds: "scan_rows (sort_key display_key (t_devices db)) = Inr ds"
    and devs: "devs = fill_probes f 1 db ds"
    using assms by (auto simp: store_List_def split: if_splits sum.splits)
  show ?thesis unfolding devs
    by (rule list_all2_trans [OF _ scan_rows_Inr [OF ds] fill_probes_all2])
      (auto dest: scanDevice_Inr)
qed

lemma store_List_macs:
  assumes "store_List f db = Inr devs"
  shows "map d_MAC devs = map r_mac (sort_key display_key (t_devices db))"
  by (rule list_all2_map_eq, rule list_all2_mono [OF store_List_rows [OF assms]]) simp

lemma store_List_wf:
  assumes "wf_db db" and "store_List f db = Inr devs"
  shows "wf_devices devs"
proof -
  let ?rows = "sort_key display_key (t_devices db)"
  have "mset (map r_mac ?rows) = mset (map r_mac (t_devices db))" by simp
  then have "distinct (map r_mac ?rows)"
    using assms(1) by (metis mset_eq_imp_distinct_iff primary_key_def wf_db_def wf_rows_def)
  moreover have "\<forall>m \<in> set (map r_mac ?rows). NormMAC m = m"
    using assms(1) by (auto simp: wf_db_def wf_rows_def)
  ultimately show ?thesis
    using store_List_macs [OF assms(2)] unfolding wf_devices_def
    by (metis (no_types, lifting) image_eqI set_map)
qed

lemma fold_map_upd:
  "distinct (map k xs) \<Longrightarrow>
   fold (\<lambda>d m. m(k d \<mapsto> v d)) xs m0 mac =
     (case find (\<lambda>d. k d = mac) xs of None \<Rightarrow> m0 mac | Some d \<Rightarrow> Some (v d))"
proof (induction xs arbitrary: m0)
  case Nil
  then show ?case by simp
next
  case (Cons x xs)
  have "find (\<lambda>d. k d = mac) xs = None" if "k x = mac"
    using that Cons.prems by (auto simp: find_None_iff image_iff)
  with Cons show ?case by (auto split: option.splits)
qed

lemma load_merge_devs:
  assumes "wf_devices devs"
  shows "s_devs (load_merge devs s) mac = map_option (load_dev s) (table_map d_MAC devs mac)"
  using assms
  by (simp add: load_merge_def wf_devices_def fold_map_upd table_map_def split: option.splits)

lemma dom_load_merge: "wf_devices devs \<Longrightarrow> dom (s_devs (load_merge devs s)) = d_MAC ` set devs"
  using dom_table_map [of d_MAC devs] by (auto simp: load_merge_devs dom_def)

lemma load_dev_simps [simp]:
  "ds_dev (load_dev s d) = d"
  "ds_status (load_dev s d) = (case s_devs s (d_MAC d) of None \<Rightarrow> [] | Some ds \<Rightarrow> ds_status ds)"
  by (auto simp: load_dev_def seed_dev_def keep_dev_def split: option.splits)

lemma load_merge_frame [simp]:
  "s_order (load_merge devs s) = map d_MAC devs"
  "s_obs (load_merge devs s) = s_obs s"
  "s_obsDirty (load_merge devs s) = s_obsDirty s"
  "s_obsFlushed (load_merge devs s) = s_obsFlushed s"
  "s_ipMoves (load_merge devs s) = s_ipMoves s"
  "s_events (load_merge devs s) = s_events s"
  by (simp_all add: load_merge_def)

lemma wf_newState: "wf_state newState"
  by (simp add: wf_state_def newState_def)

lemma wf_load_merge:
  assumes "wf_state s" and devs: "wf_devices devs"
  shows "wf_state (load_merge devs s)"
proof -
  have "dev_ok mac ds" if "s_devs (load_merge devs s) mac = Some ds" for mac ds
  proof -
    have "map_option (load_dev s) (table_map d_MAC devs mac) = Some ds"
      using that by (simp only: load_merge_devs [OF devs])
    then obtain d where d: "table_map d_MAC devs mac = Some d" "ds = load_dev s d"
      by (auto simp: map_option_eq_Some)
    then have "d_MAC d = mac" "d \<in> set devs" using table_map_key [of d_MAC devs mac d] by auto
    with d devs assms(1) show ?thesis
      by (auto simp: wf_devices_def wf_state_def dev_ok_def split: option.splits)
  qed
  with assms dom_load_merge [OF devs, of s] show ?thesis
    by (simp add: wf_state_def wf_devices_def)
qed

lemma wf_load_obs_step: "wf_state s \<Longrightarrow> wf_state (load_obs_step x s)"
  by (auto simp: load_obs_step_def wf_state_def split: option.splits)

lemma wf_LoadObserved: "wf_state s \<Longrightarrow> wf_state (snd (state_LoadObserved f since db s))"
  by (auto simp: state_LoadObserved_def intro!: fold_invariant [where P = wf_state and Q = "\<lambda>_. True"]
      wf_load_obs_step split: sum.splits)

lemma wf_neigh_step:
  assumes "wf_state s"
  shows "wf_state (neigh_step byMAC now mac s)"
proof (rule wf_state_in_place [where g = "\<lambda>m. if m = mac then neigh_dev byMAC now mac else id", OF assms])
  show "s_devs (neigh_step byMAC now mac s) m =
      map_option (if m = mac then neigh_dev byMAC now mac else id) (s_devs s m)" for m
    by (simp add: neigh_step_devs option.map_id)
qed (auto simp: dev_ok_def neigh_dev_def split: option.splits)

lemma wf_applyNeigh: "wf_state s \<Longrightarrow> wf_state (applyNeigh ks byMAC now s)"
  unfolding applyNeigh_def
  by (rule fold_invariant [where P = wf_state and Q = "\<lambda>_. True"]) (auto intro: wf_neigh_step)

lemma probe_dev_simps [simp]:
  "ds_dev (fst (probe_dev mac part now ds)) = ds_dev ds"
  "ds_status (fst (probe_dev mac part now ds)) = (if part_signal part \<noteq> [] then ''up'' else ''down'')"
  by (simp_all add: probe_dev_def Let_def)

lemma wf_probe_step:
  assumes "wf_state s"
  shows "wf_state (probe_step results now mac s)"
proof (rule wf_state_in_place [OF assms, where g = "\<lambda>m ds. if m = mac
    then (case results mac of None \<Rightarrow> ds | Some part \<Rightarrow> fst (probe_dev mac part now ds)) else ds"])
  show "s_devs (probe_step results now mac s) m = map_option (\<lambda>ds. if m = mac
      then (case results mac of None \<Rightarrow> ds | Some part \<Rightarrow> fst (probe_dev mac part now ds)) else ds) (s_devs s m)" for m
    by (auto simp: probe_step_devs option.map_ident split: option.splits)
qed (auto simp: dev_ok_def split: option.splits)

lemma wf_applyProbes: "wf_state s \<Longrightarrow> wf_state (applyProbes ks results now s)"
  unfolding applyProbes_def
  by (rule fold_invariant [where P = wf_state and Q = "\<lambda>_. True"]) (auto intro: wf_probe_step)

lemma wf_clearLive: "wf_state s \<Longrightarrow> wf_state (clearLive s)"
  by (erule wf_state_in_place [where g = "\<lambda>_ ds. ds\<lparr>ds_live := no_live, ds_status := []\<rparr>"])
    (auto simp: clearLive_def dev_ok_def)

lemma wf_touchObserved: "wf_state s \<Longrightarrow> wf_state (touchObserved mac ip name now s)"
  by (auto simp: wf_state_def touchObserved_def Let_def)

lemma wf_forgetObserved: "wf_state s \<Longrightarrow> wf_state (forgetObserved mac s)"
  by (auto simp: wf_state_def forgetObserved_def)

lemma wf_pruneObserved: "wf_state s \<Longrightarrow> wf_state (pruneObserved ks before s)"
  unfolding pruneObserved_def
  by (rule fold_invariant [where P = wf_state and Q = "\<lambda>_. True"])
    (auto simp: prune_step_def wf_forgetObserved split: option.splits)

lemma wf_drain: "wf_state s \<Longrightarrow> wf_state (snd (drain kd ko km s))"
  by (erule wf_state_in_place [where g = "\<lambda>m ds. if m \<in> set kd then ds\<lparr>ds_dirty := False\<rparr> else ds"])
    (auto simp: drain_def Let_def dev_ok_def option.map_ident)

end
