(* ===== verification/PresenceLog.thy ===== *)
theory PresenceLog
  imports PresenceProps
begin

text \<open>
  What the presence model promises over time: the transition log is the change points of the
  verdicts, presence scalars move forward under a forward clock, ARP never counts as liveness,
  a drained batch can be handed back without loss, and the view of observed hosts does not
  depend on map order.
\<close>

section \<open>The transition log\<close>

type_synonym cycle = "string list \<times> (string \<Rightarrow> live_part option) \<times> int"

definition run_cycles :: "cycle list \<Rightarrow> state \<Rightarrow> state" where
  "run_cycles cs s = fold (\<lambda>(ks, results, now). applyProbes ks results now) cs s"

definition verdict :: "live_part \<Rightarrow> string" where
  "verdict part = (if part_signal part \<noteq> [] then ''up'' else ''down'')"

definition verdicts :: "string \<Rightarrow> cycle list \<Rightarrow> string list" where
  "verdicts mac cs = List.map_filter (\<lambda>(ks, results, now). map_option verdict (results mac)) cs"

definition rows_for :: "string \<Rightarrow> seen_event list \<Rightarrow> seen_event list" where
  "rows_for mac es = filter (\<lambda>e. ev_MAC e = mac) es"

definition change_points :: "string \<Rightarrow> string list \<Rightarrow> string list" where
  "change_points st vs = tl (remdups_adj (if st = [] then vs else st # vs))"

lemma rows_for_append [simp]: "rows_for mac (xs @ ys) = rows_for mac xs @ rows_for mac ys"
  by (simp add: rows_for_def)

lemma rows_for_Nil [simp]: "rows_for mac [] = []"
  by (simp add: rows_for_def)

lemma probe_dev_rows: "snd (probe_dev mac part now ds) =
  (if ds_status ds \<noteq> [] \<and> ds_status ds \<noteq> verdict part
   then [\<lparr>ev_MAC = mac, ev_TS = now, ev_State = verdict part,
          ev_Signal = (if part_signal part = [] then ''none'' else part_signal part)\<rparr>] else [])"
  by (simp add: probe_dev_def verdict_def Let_def)

lemma probe_rows_mac: "e \<in> set (probe_rows results now s mac) \<Longrightarrow> ev_MAC e = mac"
  by (auto simp: probe_rows_def probe_dev_rows split: option.splits if_splits)

lemma probe_rows_ts: "e \<in> set (probe_rows results now s mac) \<Longrightarrow> ev_TS e = now"
  by (auto simp: probe_rows_def probe_dev_rows split: option.splits if_splits)

lemma rows_for_probe_rows: "rows_for mac (probe_rows results now s k) =
  (if k = mac then probe_rows results now s mac else [])"
  using probe_rows_mac [of _ results now s k]
  by (auto simp: rows_for_def filter_id_conv filter_empty_conv)

lemma rows_for_concat: "distinct ks \<Longrightarrow> rows_for mac (concat (map (probe_rows results now s) ks)) =
  (if mac \<in> set ks then probe_rows results now s mac else [])"
  by (induction ks) (auto simp: rows_for_probe_rows)

lemma rows_applyProbes:
  assumes "enumerates ks (dom results)"
  shows "rows_for mac (s_events (applyProbes ks results now s)) =
    rows_for mac (s_events s) @ probe_rows results now s mac"
  using assms
  by (auto simp: enumerates_def applyProbes_events rows_for_concat probe_rows_def dom_def)

lemma change_points_Cons: "v \<noteq> [] \<Longrightarrow> change_points st (v # vs) =
  (if st \<noteq> [] \<and> st \<noteq> v then [v] else []) @ change_points v vs"
  by (cases vs) (auto simp: change_points_def)

lemma verdict_nonempty [simp]: "verdict part \<noteq> []"
  by (simp add: verdict_def)

lemma transition_log_step:
  assumes "enumerates ks (dom results)" and "s_devs s mac = Some ds"
  shows "\<exists>ds'. s_devs (applyProbes ks results now s) mac = Some ds' \<and>
    map ev_State (rows_for mac (s_events (applyProbes ks results now s))) @
      change_points (ds_status ds') vs =
    map ev_State (rows_for mac (s_events s)) @
      change_points (ds_status ds) (case results mac of None \<Rightarrow> vs | Some p \<Rightarrow> verdict p # vs)"
proof (cases "results mac")
  case None
  with assms show ?thesis
    by (auto simp: rows_applyProbes probe_rows_def applyProbes_devs enumerates_def)
next
  case (Some part)
  then have "mac \<in> set ks" using assms(1) by (auto simp: enumerates_def)
  with Some assms show ?thesis
    by (auto simp: rows_applyProbes probe_rows_def applyProbes_devs enumerates_def
        probe_dev_rows change_points_Cons verdict_def [symmetric])
qed

lemma transition_log_run:
  assumes "s_devs s mac = Some ds" and "\<forall>(ks, results, now) \<in> set cs. enumerates ks (dom results)"
  shows "map ev_State (rows_for mac (s_events (run_cycles cs s))) =
    map ev_State (rows_for mac (s_events s)) @ change_points (ds_status ds) (verdicts mac cs)"
  using assms
proof (induction cs arbitrary: s ds)
  case Nil
  then show ?case
    by (simp add: run_cycles_def verdicts_def change_points_def map_filter_simps)
next
  case (Cons c cs)
  obtain ks results now where c: "c = (ks, results, now)" by (cases c)
  let ?t = "applyProbes ks results now s"
  obtain ds' where ds': "s_devs ?t mac = Some ds'"
    and log: "map ev_State (rows_for mac (s_events ?t)) @ change_points (ds_status ds') (verdicts mac cs) =
      map ev_State (rows_for mac (s_events s)) @ change_points (ds_status ds)
        (case results mac of None \<Rightarrow> verdicts mac cs | Some p \<Rightarrow> verdict p # verdicts mac cs)"
    using transition_log_step [of ks results s mac ds now "verdicts mac cs"] Cons.prems c by auto
  have "run_cycles (c # cs) s = run_cycles cs ?t" by (simp add: run_cycles_def c)
  moreover have "verdicts mac (c # cs) =
      (case results mac of None \<Rightarrow> verdicts mac cs | Some p \<Rightarrow> verdict p # verdicts mac cs)"
    by (simp add: verdicts_def c map_filter_simps split: option.splits)
  ultimately show ?case
    using Cons.IH [OF ds'] Cons.prems(2) log by simp
qed

section \<open>Presence in memory\<close>

definition dev_presence :: "devState \<Rightarrow> presence" where
  "dev_presence ds = (boolInt (ds_icmpSeen ds), ds_lastSeenUp ds, ds_lastSeen ds)"

definition mem_presence :: "state \<Rightarrow> string \<Rightarrow> presence option" where
  "mem_presence s mac = map_option dev_presence (s_devs s mac)"

definition device_presence :: "device \<Rightarrow> presence" where
  "device_presence d = (boolInt (d_IcmpSeen d), d_LastSeenUp d, d_LastSeen d)"

lemma neigh_dev_presence: "dev_presence ds \<le> dev_presence (neigh_dev byMAC now mac ds)"
  by (auto simp: neigh_dev_def dev_presence_def split: option.splits)

lemma neigh_dev_fields [simp]:
  "ds_icmpSeen (neigh_dev byMAC now mac ds) = ds_icmpSeen ds"
  "ds_lastSeenUp (neigh_dev byMAC now mac ds) = ds_lastSeenUp ds"
  "ds_live (neigh_dev byMAC now mac ds) = ds_live ds"
  "ds_status (neigh_dev byMAC now mac ds) = ds_status ds"
  by (simp_all add: neigh_dev_def split: option.splits)

lemma probe_dev_presence:
  assumes "ds_lastSeenUp ds \<le> now" and "ds_lastSeen ds \<le> now"
  shows "dev_presence ds \<le> dev_presence (fst (probe_dev mac part now ds))"
  using assms by (auto simp: probe_dev_def dev_presence_def boolInt_def Let_def)

lemma presence_clean_neigh: "\<not> ds_dirty (neigh_dev byMAC now mac ds) \<Longrightarrow>
  \<not> ds_dirty ds \<and> dev_presence (neigh_dev byMAC now mac ds) = dev_presence ds"
  by (auto simp: neigh_dev_def dev_presence_def split: option.splits)

lemma presence_clean_probe: "\<not> ds_dirty (fst (probe_dev mac part now ds)) \<Longrightarrow>
  \<not> ds_dirty ds \<and> dev_presence (fst (probe_dev mac part now ds)) = dev_presence ds"
  by (auto simp: probe_dev_def dev_presence_def boolInt_def Let_def split: if_splits)

lemma boolInt_sup: "boolInt (a \<or> b) = sup (boolInt a) (boolInt b)"
  by (simp add: boolInt_def sup_max)

lemma seed_presence [simp]: "dev_presence (seed_dev d) = device_presence d"
  by (simp add: dev_presence_def device_presence_def seed_dev_def)

lemma keep_presence [simp]: "dev_presence (keep_dev d ds) = sup (dev_presence ds) (device_presence d)"
  by (simp add: dev_presence_def device_presence_def keep_dev_def boolInt_sup sup_max)

lemma load_presence: "dev_presence (load_dev s d) =
  (case s_devs s (d_MAC d) of None \<Rightarrow> device_presence d
   | Some ds \<Rightarrow> sup (dev_presence ds) (device_presence d))"
  by (simp add: load_dev_def split: option.splits)

lemma load_dirty: "ds_dirty (load_dev s d) =
  (case s_devs s (d_MAC d) of None \<Rightarrow> False | Some ds \<Rightarrow> ds_dirty ds)"
  by (simp add: load_dev_def seed_dev_def keep_dev_def split: option.splits)

lemma Load_forward:
  assumes "wf_devices devs" and "mac \<in> d_MAC ` set devs"
  shows "presence_ahead (mem_presence s mac) (mem_presence (load_merge devs s) mac)"
proof -
  obtain d where d: "table_map d_MAC devs mac = Some d"
    using assms(2) by (auto simp: dom_table_map [symmetric])
  then have "d_MAC d = mac" using table_map_key [of d_MAC devs mac d] by simp
  with d assms(1) show ?thesis
    by (auto simp: mem_presence_def load_merge_devs load_presence presence_ahead_def
        split: option.splits)
qed

section \<open>Handing a batch back\<close>

definition mark_dirty :: "batch \<Rightarrow> string \<Rightarrow> devState \<Rightarrow> devState" where
  "mark_dirty b mac ds = (if mac \<in> su_MAC ` set (b_Seen b) then ds\<lparr>ds_dirty := True\<rparr> else ds)"

definition restore_seen :: "seen_update \<Rightarrow> state \<Rightarrow> state" where
  "restore_seen u t = (case s_devs t (su_MAC u) of None \<Rightarrow> t
     | Some ds \<Rightarrow> t\<lparr>s_devs := (s_devs t)(su_MAC u \<mapsto> ds\<lparr>ds_dirty := True\<rparr>)\<rparr>)"

definition restore_obs :: "observed \<Rightarrow> state \<Rightarrow> state" where
  "restore_obs x t = (if s_obs t (ob_MAC x) \<noteq> None
     then t\<lparr>s_obsDirty := insert (ob_MAC x) (s_obsDirty t)\<rparr> else t)"

definition restore_move :: "ip_move \<Rightarrow> state \<Rightarrow> state" where
  "restore_move m t = (if s_ipMoves t (im_MAC m) = None
     then t\<lparr>s_ipMoves := (s_ipMoves t)(im_MAC m \<mapsto> im_IP m)\<rparr> else t)"

lemma restore_folds: "restore b s =
  (let t = fold restore_move (b_IPMoves b) (fold restore_obs (b_Obs b) (fold restore_seen (b_Seen b) s))
   in t\<lparr>s_events := b_Events b @ s_events t\<rparr>)"
proof -
  have "restore_seen = (\<lambda>u t. case s_devs t (su_MAC u) of None \<Rightarrow> t
                | Some ds \<Rightarrow> t\<lparr>s_devs := (s_devs t)(su_MAC u \<mapsto> ds\<lparr>ds_dirty := True\<rparr>)\<rparr>)"
    "restore_obs = (\<lambda>x t. if s_obs t (ob_MAC x) \<noteq> None
                then t\<lparr>s_obsDirty := insert (ob_MAC x) (s_obsDirty t)\<rparr> else t)"
    "restore_move = (\<lambda>m t. if s_ipMoves t (im_MAC m) = None
                then t\<lparr>s_ipMoves := (s_ipMoves t)(im_MAC m \<mapsto> im_IP m)\<rparr> else t)"
    by (simp_all add: fun_eq_iff restore_seen_def restore_obs_def restore_move_def)
  then show ?thesis by (simp only: restore_def Let_def)
qed

lemma fold_restore_seen:
  "s_devs (fold restore_seen us s) mac = map_option (\<lambda>ds. if mac \<in> su_MAC ` set us
     then ds\<lparr>ds_dirty := True\<rparr> else ds) (s_devs s mac) \<and>
   s_order (fold restore_seen us s) = s_order s \<and> s_obs (fold restore_seen us s) = s_obs s \<and>
   s_obsDirty (fold restore_seen us s) = s_obsDirty s \<and>
   s_obsFlushed (fold restore_seen us s) = s_obsFlushed s \<and>
   s_ipMoves (fold restore_seen us s) = s_ipMoves s \<and> s_events (fold restore_seen us s) = s_events s"
  by (induction us arbitrary: s)
    (auto simp: restore_seen_def map_option_case split: option.splits)

lemma fold_restore_obs:
  "fold restore_obs xs s =
     s\<lparr>s_obsDirty := s_obsDirty s \<union> {mac \<in> ob_MAC ` set xs. s_obs s mac \<noteq> None}\<rparr>"
  by (induction xs arbitrary: s) (auto simp: restore_obs_def intro!: arg_cong [where f = "\<lambda>d. s_obsDirty_update (\<lambda>_. d) _"])

lemma fold_restore_move:
  "fold restore_move ms s =
     s\<lparr>s_ipMoves := (\<lambda>mac. case s_ipMoves s mac of Some ip \<Rightarrow> Some ip
        | None \<Rightarrow> map_option im_IP (table_map im_MAC ms mac))\<rparr>"
proof (induction ms arbitrary: s)
  case Nil
  show ?case by (intro state_eqI) (auto simp: fun_eq_iff split: option.splits)
next
  case (Cons m ms)
  have "fold restore_move (m # ms) s = fold restore_move ms (restore_move m s)" by simp
  then show ?case
    by (simp only: Cons.IH, intro state_eqI)
      (auto simp: restore_move_def fun_eq_iff split: option.splits)
qed

lemma dev_ok_mark [simp]: "dev_ok mac (mark_dirty b k ds) = dev_ok mac ds"
  by (simp add: dev_ok_def mark_dirty_def)

lemma restore_devs: "s_devs (restore b s) mac = map_option (mark_dirty b mac) (s_devs s mac)"
  using fold_restore_seen [of "b_Seen b" s mac]
  by (simp add: restore_folds Let_def fold_restore_move fold_restore_obs mark_dirty_def [abs_def])

lemma restore_frame [simp]:
  "s_order (restore b s) = s_order s" "s_obs (restore b s) = s_obs s"
  "s_obsFlushed (restore b s) = s_obsFlushed s" "s_events (restore b s) = b_Events b @ s_events s"
  using fold_restore_seen [of "b_Seen b" s]
  by (simp_all add: restore_folds Let_def fold_restore_move fold_restore_obs)

lemma restore_obsDirty:
  "s_obsDirty (restore b s) = s_obsDirty s \<union> {mac \<in> ob_MAC ` set (b_Obs b). s_obs s mac \<noteq> None}"
  using fold_restore_seen [of "b_Seen b" s]
  by (simp add: restore_folds Let_def fold_restore_move fold_restore_obs)

lemma restore_moves: "s_ipMoves (restore b s) mac =
  (case s_ipMoves s mac of Some ip \<Rightarrow> Some ip | None \<Rightarrow> map_option im_IP (table_map im_MAC (b_IPMoves b) mac))"
  using fold_restore_seen [of "b_Seen b" s]
  by (simp add: restore_folds Let_def fold_restore_move fold_restore_obs)

lemma wf_restore:
  assumes "wf_state s"
  shows "wf_state (restore b s)"
proof -
  have "s_obsDirty (restore b s) \<subseteq> dom (s_obs s)"
    using assms by (auto simp: restore_obsDirty wf_state_def)
  moreover have "dom (s_devs (restore b s)) = dom (s_devs s)"
    by (auto simp: dom_def restore_devs)
  moreover have "dev_ok mac ds" if "s_devs (restore b s) mac = Some ds" for mac ds
    using that assms by (auto simp: restore_devs wf_state_def)
  ultimately show ?thesis using assms by (simp add: wf_state_def)
qed

section \<open>Drained batches\<close>

lemma drain_frame [simp]:
  "s_order (snd (drain kd ko km s)) = s_order s" "s_obs (snd (drain kd ko km s)) = s_obs s"
  "s_obsDirty (snd (drain kd ko km s)) = {}" "s_ipMoves (snd (drain kd ko km s)) = Map.empty"
  "s_events (snd (drain kd ko km s)) = []" "b_Events (fst (drain kd ko km s)) = s_events s"
  by (simp_all add: drain_def Let_def)

lemma drain_devs: "s_devs (snd (drain kd ko km s)) mac =
  map_option (\<lambda>ds. if mac \<in> set kd then ds\<lparr>ds_dirty := False\<rparr> else ds) (s_devs s mac)"
  by (simp add: drain_def Let_def option.map_ident)

lemma drain_seen: "u \<in> set (b_Seen (fst (drain kd ko km s))) \<longleftrightarrow>
  (\<exists>mac \<in> set kd. \<exists>ds. s_devs s mac = Some ds \<and> ds_dirty ds \<and> u = dev_update mac ds)"
  by (auto simp: drain_def Let_def set_map_filter_iff split: option.splits if_splits)

lemma drain_seen_keys: "mac \<in> su_MAC ` set (b_Seen (fst (drain kd ko km s))) \<longleftrightarrow>
  mac \<in> set kd \<and> (\<exists>ds. s_devs s mac = Some ds \<and> ds_dirty ds)"
proof
  assume "mac \<in> su_MAC ` set (b_Seen (fst (drain kd ko km s)))"
  then show "mac \<in> set kd \<and> (\<exists>ds. s_devs s mac = Some ds \<and> ds_dirty ds)"
    by (auto simp: drain_seen dev_update_def)
next
  assume "mac \<in> set kd \<and> (\<exists>ds. s_devs s mac = Some ds \<and> ds_dirty ds)"
  then obtain ds where "mac \<in> set kd" "s_devs s mac = Some ds" "ds_dirty ds" by auto
  then have "dev_update mac ds \<in> set (b_Seen (fst (drain kd ko km s)))"
    by (auto simp: drain_seen)
  then show "mac \<in> su_MAC ` set (b_Seen (fst (drain kd ko km s)))"
    by (force simp: dev_update_def)
qed

lemma drain_obs: "x \<in> set (b_Obs (fst (drain kd ko km s))) \<longleftrightarrow> (\<exists>mac \<in> set ko. s_obs s mac = Some x)"
  by (auto simp: drain_def Let_def set_map_filter_iff)

lemma drain_moves: "table_map im_MAC (b_IPMoves (fst (drain kd ko km s))) mac =
  (if mac \<in> set km then map_option (\<lambda>ip. \<lparr>im_MAC = mac, im_IP = ip\<rparr>) (s_ipMoves s mac) else None)"
  by (simp add: drain_def Let_def, induction km) (auto simp: map_filter_simps split: option.splits)

lemma drain_restore_state:
  assumes "wf_state s" and "enumerates kd (dom (s_devs s))" and "enumerates ko (s_obsDirty s)"
    and "enumerates km (dom (s_ipMoves s))"
  shows "restore (fst (drain kd ko km s)) (snd (drain kd ko km s)) =
    s\<lparr>s_obsFlushed := s_obsFlushed (snd (drain kd ko km s))\<rparr>"
proof (rule state_eqI)
  let ?b = "fst (drain kd ko km s)" and ?t = "snd (drain kd ko km s)"
  have kd: "mac \<in> set kd \<longleftrightarrow> s_devs s mac \<noteq> None" and km: "mac \<in> set km \<longleftrightarrow> s_ipMoves s mac \<noteq> None"
    and ko: "set ko = s_obsDirty s" for mac
    using assms(2-4) by (auto simp: enumerates_def)
  show "s_devs (restore ?b ?t) = s_devs (s\<lparr>s_obsFlushed := s_obsFlushed ?t\<rparr>)"
  proof
    fix mac
    show "s_devs (restore ?b ?t) mac = s_devs (s\<lparr>s_obsFlushed := s_obsFlushed ?t\<rparr>) mac"
      using kd [of mac]
      by (cases "s_devs s mac") (auto simp: restore_devs drain_devs mark_dirty_def drain_seen_keys)
  qed
  show "s_obsDirty (restore ?b ?t) = s_obsDirty (s\<lparr>s_obsFlushed := s_obsFlushed ?t\<rparr>)"
    using assms(1) ko by (fastforce simp: restore_obsDirty drain_obs wf_state_def image_iff)
  show "s_ipMoves (restore ?b ?t) = s_ipMoves (s\<lparr>s_obsFlushed := s_obsFlushed ?t\<rparr>)"
  proof
    fix mac
    show "s_ipMoves (restore ?b ?t) mac = s_ipMoves (s\<lparr>s_obsFlushed := s_obsFlushed ?t\<rparr>) mac"
      using km [of mac] by (cases "s_ipMoves s mac") (auto simp: restore_moves drain_moves)
  qed
qed simp_all

section \<open>The view of observed hosts\<close>

interpretation obs_order: slice_order obs_less
proof
  fix a b c :: observed
  show "obs_less a b \<Longrightarrow> \<not> obs_less b a"
    by (auto simp: obs_less_def split: if_splits)
  show "\<not> obs_less a b \<Longrightarrow> \<not> obs_less b c \<Longrightarrow> \<not> obs_less a c"
    by (auto simp: obs_less_def split: if_splits)
qed

lemma observedSince_set:
  assumes "enumerates ks (dom (s_obs s))"
  shows "x \<in> set (observedSince ks since s) \<longleftrightarrow> (\<exists>mac. s_obs s mac = Some x) \<and> ob_LastSeen x \<ge> since"
  using assms by (auto simp: observedSince_def set_map_filter_iff enumerates_def)

lemma observedSince_order:
  assumes "wf_state s" and "enumerates ks (dom (s_obs s))" and "enumerates ks' (dom (s_obs s))"
  shows "observedSince ks since s = observedSince ks' since s"
  unfolding observedSince_def
proof (rule obs_order.sort_slice_unique)
  fix a b
  assume "a \<in> set (filter (\<lambda>x. ob_LastSeen x \<ge> since) (List.map_filter (s_obs s) ks))"
    and "b \<in> set (filter (\<lambda>x. ob_LastSeen x \<ge> since) (List.map_filter (s_obs s) ks))" and "a \<noteq> b"
  then have "ob_MAC a \<noteq> ob_MAC b"
    using assms(1) by (auto simp: set_map_filter_iff wf_state_def)
  then show "obs_less a b \<or> obs_less b a"
    by (auto simp: obs_less_def)
next
  have "mset (List.map_filter f ks) = mset (List.map_filter f ks')" for f :: "string \<Rightarrow> observed option"
    using enumerates_mset [OF assms(2,3)] by (simp add: map_filter_def)
  then show "mset (filter (\<lambda>x. ob_LastSeen x \<ge> since) (List.map_filter (s_obs s) ks)) =
      mset (filter (\<lambda>x. ob_LastSeen x \<ge> since) (List.map_filter (s_obs s) ks'))"
    by simp
qed

section \<open>Properties\<close>

text \<open>A tracked device and its row in memory, for the concrete instances below.\<close>

definition demo_device :: "string \<Rightarrow> device" where
  "demo_device mac = \<lparr>d_MAC = mac, d_IP = ''10.0.0.2'', d_Name = ''nas'', d_NameSource = [],
     d_Vendor = [], d_Link = [], d_Notes = [], d_CreatedAt = 100, d_UpdatedAt = 100, d_Probes = [22],
     d_IcmpSeen = False, d_LastSeenUp = 0, d_LastSeen = 0\<rparr>"

definition demo_up :: live_part where
  "demo_up = \<lparr>lp_icmp = Some \<lparr>ic_St = ''up'', ic_RTT = 1\<rparr>, lp_probes = []\<rparr>"

definition demo_state :: "string \<Rightarrow> state" where
  "demo_state mac = load_merge [demo_device mac] newState"

lemmas demo_simps = demo_device_def demo_up_def demo_state_def load_merge_def load_dev_def seed_dev_def
  newState_def no_live_def

text \<open>
  C9. The transition log is the change points of the verdicts. For a device that stays tracked,
  any number of probe cycles (each ranging over its results in any order) appends to the
  pending rows of that device exactly the points where the up/down verdict changed: no row for
  the first verdict after a start or a closed gate, none for a steady state, one per change.
\<close>

theorem transition_log_is_change_points:
  assumes "s_devs s mac = Some ds" and "\<forall>(ks, results, now) \<in> set cs. enumerates ks (dom results)"
  shows "map ev_State (rows_for mac (s_events (run_cycles cs s))) =
    map ev_State (rows_for mac (s_events s)) @
      tl (remdups_adj (if ds_status ds = [] then verdicts mac cs else ds_status ds # verdicts mac cs))"
  using transition_log_run [OF assms] by (simp add: change_points_def)

definition demo_cycles :: "string \<Rightarrow> cycle list" where
  "demo_cycles mac = [([mac], [mac \<mapsto> demo_up], 10), ([mac], [mac \<mapsto> no_live], 12), ([mac], [mac \<mapsto> no_live], 14)]"

lemma transition_log_is_change_points_witness:
  "map ev_State (rows_for ''m'' (s_events (run_cycles (demo_cycles ''m'') (demo_state ''m'')))) = [''down'']"
proof -
  let ?ds = "seed_dev (demo_device ''m'')"
  have d: "s_devs (demo_state ''m'') ''m'' = Some ?ds" by (simp add: demo_simps)
  have v: "verdicts ''m'' (demo_cycles ''m'') = [''up'', ''down'', ''down'']"
    by (simp add: verdicts_def demo_cycles_def verdict_def part_signal_def demo_simps map_filter_simps)
  have e: "s_events (demo_state ''m'') = []" "ds_status ?ds = []"
    by (simp_all add: demo_simps)
  show ?thesis
    using transition_log_is_change_points [OF d, of "demo_cycles ''m''"] v e
    by (simp add: demo_cycles_def enumerates_def)
qed

text \<open>
  ARP is presence, never liveness. Folding a kernel neighbour snapshot into the model leaves
  the liveness record of every device alone: whether it ever answered ICMP, when it was last up,
  its probe results, its verdict, and the transition log.
\<close>

theorem arp_is_not_liveness:
  "map_option (\<lambda>ds. (ds_icmpSeen ds, ds_lastSeenUp ds, ds_live ds, ds_status ds))
      (s_devs (applyNeigh ks byMAC now s) mac) =
    map_option (\<lambda>ds. (ds_icmpSeen ds, ds_lastSeenUp ds, ds_live ds, ds_status ds)) (s_devs s mac) \<and>
   s_events (applyNeigh ks byMAC now s) = s_events s"
proof
  have "map_option (\<lambda>ds. (ds_icmpSeen ds, ds_lastSeenUp ds, ds_live ds, ds_status ds))
      (s_devs (neigh_step byMAC now k t) mac) =
    map_option (\<lambda>ds. (ds_icmpSeen ds, ds_lastSeenUp ds, ds_live ds, ds_status ds)) (s_devs t mac)" for k t
    by (cases "s_devs t k") (auto simp: neigh_step_devs)
  then show "map_option (\<lambda>ds. (ds_icmpSeen ds, ds_lastSeenUp ds, ds_live ds, ds_status ds))
      (s_devs (applyNeigh ks byMAC now s) mac) =
    map_option (\<lambda>ds. (ds_icmpSeen ds, ds_lastSeenUp ds, ds_live ds, ds_status ds)) (s_devs s mac)"
    unfolding applyNeigh_def by (induction ks arbitrary: s) simp_all
qed simp

lemma drain_ignores_flushed: "fst (drain kd ko km (s\<lparr>s_obsFlushed := F\<rparr>)) = fst (drain kd ko km s)"
  by (simp add: drain_def Let_def)

text \<open>
  C32. A failed flush loses nothing. Draining the model and handing the batch back gives the state
  before the drain in every field (the tracked devices with their dirty marks, the pending rows in
  order, the pending IP moves and observed hosts) except the write-rate bookkeeping \<open>obsFlushed\<close>,
  which keeps counting each drained host as written at its last sighting; and whatever is drained
  next, in any order, is the batch that would have been drained before.
\<close>

theorem drain_restore_roundtrip:
  assumes "wf_state s" and "enumerates kd (dom (s_devs s))" and "enumerates ko (s_obsDirty s)"
    and "enumerates km (dom (s_ipMoves s))" and "drain kd ko km s = (b, s')"
  shows "restore b s' = s\<lparr>s_obsFlushed := (\<lambda>mac. if mac \<in> s_obsDirty s \<and> s_obs s mac \<noteq> None
        then map_option ob_LastSeen (s_obs s mac) else s_obsFlushed s mac)\<rparr> \<and>
    fst (drain kd' ko' km' (restore b s')) = fst (drain kd' ko' km' s)"
proof -
  have r: "restore b s' = s\<lparr>s_obsFlushed := s_obsFlushed s'\<rparr>" using drain_restore_state [OF assms(1-4)] assms(5) by simp
  have "s_obsFlushed s' = (\<lambda>mac. if mac \<in> s_obsDirty s \<and> s_obs s mac \<noteq> None then map_option ob_LastSeen (s_obs s mac) else s_obsFlushed s mac)"
    using assms(3,5) by (auto simp: drain_def Let_def enumerates_def)
  with r show ?thesis by (simp add: drain_ignores_flushed)
qed

lemma drain_restore_roundtrip_witness:
  "let s = touchObserved ''m2'' ''10.0.0.9'' [] 100 (demo_state ''m''); (b, s') = drain [''m''] [''m2''] [] s
   in b_Obs b \<noteq> [] \<and> fst (drain [''m''] [''m2''] [] (restore b s')) = b \<and> s_obsDirty (restore b s') = {''m2''} \<and>
      s_obsFlushed (restore b s') ''m2'' = Some 100"
proof -
  define s where "s = touchObserved ''m2'' ''10.0.0.9'' [] 100 (demo_state ''m'')"
  have w: "wf_state s" unfolding s_def
    by (intro wf_touchObserved, unfold demo_state_def, intro wf_load_merge)
      (simp_all add: wf_newState wf_devices_def demo_device_def NormMAC_def go_string is_space_def Let_def)
  have e: "enumerates [''m''] (dom (s_devs s))" "enumerates [''m2''] (s_obsDirty s)" "enumerates [] (dom (s_ipMoves s))"
    by (auto simp: s_def touchObserved_def demo_simps enumerates_def)
  have v: "b_Obs (fst (drain [''m''] [''m2''] [] s)) \<noteq> []"
    by (simp add: s_def drain_def touchObserved_def demo_simps map_filter_simps)
  obtain x where x: "s_obs s ''m2'' = Some x" "ob_LastSeen x = 100" "s_obsDirty s = {''m2''}"
    by (simp add: s_def touchObserved_def demo_simps)
  obtain b s' where d: "drain [''m''] [''m2''] [] s = (b, s')" by (cases "drain [''m''] [''m2''] [] s")
  note r = drain_restore_roundtrip [OF w e d, of "[''m'']" "[''m2'']" "[]"]
  have "s_obsFlushed (restore b s') ''m2'' = Some 100" "s_obsDirty (restore b s') = {''m2''}"
    unfolding conjunct1 [OF r] by (simp_all add: x)
  with v conjunct2 [OF r] show ?thesis unfolding s_def [symmetric] by (simp add: d)
qed

text \<open>
  The view of remembered hosts is deterministic. Whatever order the map of observed hosts is
  visited in, \<^verbatim>\<open>observedSince\<close> returns the same list: exactly the hosts seen at or after the
  bound, newest first with ties by MAC. (The render loop compares marshalled frames.)
\<close>

theorem observedSince_deterministic:
  assumes "wf_state s" and "enumerates ks (dom (s_obs s))" and "enumerates ks' (dom (s_obs s))"
  shows "observedSince ks since s = observedSince ks' since s \<and>
    sorted_wrt (\<lambda>a b. \<not> obs_less b a) (observedSince ks since s) \<and>
    set (observedSince ks since s) = {x. (\<exists>mac. s_obs s mac = Some x) \<and> since \<le> ob_LastSeen x}"
  using observedSince_order [OF assms] observedSince_set [OF assms(2)] obs_order.sort_slice_sorted
  by (auto simp: observedSince_def)

lemma observedSince_deterministic_witness:
  "let s = touchObserved ''b'' ''10.0.0.9'' [] 100 (touchObserved ''a'' ''10.0.0.8'' [] 100 newState)
   in observedSince [''a'', ''b''] 0 s = observedSince [''b'', ''a''] 0 s"
proof -
  let ?s = "touchObserved ''b'' ''10.0.0.9'' [] 100 (touchObserved ''a'' ''10.0.0.8'' [] 100 newState)"
  have "wf_state ?s" by (intro wf_touchObserved wf_newState)
  moreover have "enumerates [''a'', ''b''] (dom (s_obs ?s))" "enumerates [''b'', ''a''] (dom (s_obs ?s))"
    by (auto simp: touchObserved_def newState_def enumerates_def)
  ultimately have "observedSince [''a'', ''b''] 0 ?s = observedSince [''b'', ''a''] 0 ?s"
    using observedSince_deterministic by blast
  then show ?thesis by (simp add: Let_def)
qed

text \<open>
  Map order does not matter. The result of folding a neighbour snapshot in is the same for
  every visiting order of the tracked devices; folding probe results in gives the same devices
  and, device by device, the same transition rows.
\<close>

theorem map_order_irrelevant:
  assumes "enumerates ks (dom (s_devs s))" and "enumerates ks' (dom (s_devs s))"
    and "enumerates rs (dom results)" and "enumerates rs' (dom results)"
  shows "applyNeigh ks byMAC now s = applyNeigh ks' byMAC now s \<and>
    s_devs (applyProbes rs results now s) = s_devs (applyProbes rs' results now s) \<and>
    rows_for mac (s_events (applyProbes rs results now s)) = rows_for mac (s_events (applyProbes rs' results now s))"
  using applyNeigh_order [OF assms(1,2)] applyProbes_order [OF assms(3,4)] assms(3,4)
  by (simp add: rows_applyProbes)

lemma map_order_irrelevant_witness:
  "let s = load_merge [demo_device ''a'', demo_device ''b''] newState; r = [''a'' \<mapsto> demo_up, ''b'' \<mapsto> no_live]
   in applyNeigh [''a'', ''b''] (\<lambda>_. None) 9 s = applyNeigh [''b'', ''a''] (\<lambda>_. None) 9 s \<and>
     s_devs (applyProbes [''a'', ''b''] r 9 s) = s_devs (applyProbes [''b'', ''a''] r 9 s)"
proof -
  let ?s = "load_merge [demo_device ''a'', demo_device ''b''] newState"
  let ?r = "[''a'' \<mapsto> demo_up, ''b'' \<mapsto> no_live] :: string \<Rightarrow> live_part option"
  have "enumerates [''a'', ''b''] (dom (s_devs ?s))" "enumerates [''b'', ''a''] (dom (s_devs ?s))"
    "enumerates [''a'', ''b''] (dom ?r)" "enumerates [''b'', ''a''] (dom ?r)"
    by (auto simp: enumerates_def load_merge_def demo_device_def)
  then show ?thesis
    unfolding Let_def using map_order_irrelevant by blast
qed

end
