(* ===== verification/StoreSpecs.thy ===== *)
theory StoreSpecs
  imports StoreProps
begin

text \<open>
  The properties of the store: the table invariant over every history of calls, presence that
  only moves forward, the meaning of a flush, what is read back after each config mutation, the
  display order, schema migration and the backfill of the v0 log.
\<close>

section \<open>Reading a device back\<close>

definition row_device :: "db \<Rightarrow> dev_row \<Rightarrow> device" where
  "row_device db r =
     \<lparr>d_MAC = r_mac r, d_IP = r_ip r, d_Name = r_name r, d_NameSource = r_name_source r,
      d_Vendor = r_vendor r, d_Link = r_link r, d_Notes = r_notes r, d_CreatedAt = r_created_at r,
      d_UpdatedAt = r_updated_at r, d_Probes = probesLocked False (r_mac r) db,
      d_IcmpSeen = (r_icmp_seen r = 1), d_LastSeenUp = r_last_seen_up r, d_LastSeen = r_last_seen r\<rparr>"

lemma wf_dev_at:
  "wf_db db \<Longrightarrow> dev_at db mac = Some r \<Longrightarrow> r_mac r = mac \<and> r_icmp_seen r \<in> {0, 1} \<and> NormMAC mac = mac"
  using table_map_key [of r_mac "t_devices db" mac r] by (auto simp: wf_db_def wf_rows_def dev_at_def)

lemma Get_ok:
  assumes "wf_db db" and "\<forall>k. \<not> f k"
  shows "store_Get f mac db = Inr (map_option (row_device db) (dev_at db (NormMAC mac)))"
proof (cases "dev_at db (NormMAC mac)")
  case None
  then show ?thesis using assms by (simp add: store_Get_def dev_at_def)
next
  case (Some r)
  with wf_dev_at [OF assms(1) Some] assms(2) show ?thesis
    by (auto simp: store_Get_def dev_at_def scanDevice_def row_device_def)
qed

lemma row_device_cong: "t_probes db = t_probes db' \<Longrightarrow> row_device db = row_device db'"
  by (simp add: row_device_def fun_eq_iff probesLocked_def)

lemma dev_at_Add:
  assumes "store_Add f t d db = (None, db')"
  shows "dev_at db' m = (if m = NormMAC (d_MAC d)
      then Some (let x = new_row t (d\<lparr>d_MAC := NormMAC (d_MAC d), d_Name := (if d_Name d = [] then d_IP d else d_Name d)\<rparr>)
                 in case dev_at db m of None \<Rightarrow> x | Some r \<Rightarrow> merge_device x r)
      else dev_at db m) \<and> t_probes db' = t_probes db \<and> t_seen_events db' = t_seen_events db \<and> t_observed db' = t_observed db"
  using assms
  by (auto simp: store_Add_def Let_def dev_at_def devices_upsert.table_map_upsert new_row_def split: if_splits)

lemma dev_at_Patch:
  assumes "store_Patch f t mac p db = (None, db')"
  shows "dev_at db' m = (if m = NormMAC mac \<and> \<not> empty_patch p then map_option (patch_row t p) (dev_at db m)
      else dev_at db m) \<and> t_probes db' = t_probes db"
  using assms by (auto simp: store_Patch_def dev_at_upd split: if_splits)

lemma dev_at_Delete:
  assumes "store_Delete f mac db = (None, db')"
  shows "dev_at db' m = (if m = NormMAC mac then None else dev_at db m) \<and>
    t_probes db' = filter (\<lambda>(k, p). k \<noteq> NormMAC mac) (t_probes db) \<and>
    t_seen_events db' = filter (\<lambda>e. ev_MAC e \<noteq> NormMAC mac) (t_seen_events db)"
  using exec_all_None [OF assms [unfolded store_Delete_def]]
  by (auto simp: delete_statements_def dev_at_def table_map_delete [unfolded delete_where_def]
      delete_where_def case_prod_unfold)

lemma probesLocked_filter: "k \<noteq> m \<Longrightarrow>
  probesLocked False k (db\<lparr>t_probes := filter (\<lambda>(x, p). x \<noteq> m) (t_probes db)\<rparr>) = probesLocked False k db"
  by (simp add: probesLocked_def case_prod_unfold) (metis (mono_tags, lifting))

section \<open>Properties\<close>

definition demo_row :: "string \<Rightarrow> dev_row" where
  "demo_row mac = \<lparr>r_mac = mac, r_ip = ''10.0.0.2'', r_name = [], r_name_source = [], r_vendor = [],
     r_link = [], r_notes = [], r_created_at = 5, r_updated_at = 5, r_icmp_seen = 0,
     r_last_seen_up = 0, r_last_seen = 0\<rparr>"

definition demo_db :: db where
  "demo_db = \<lparr>t_devices = [demo_row ''m''], t_probes = [(''m'', 22)], t_seen_events = [], t_observed = [],
     t_seen_history = Some [\<lparr>h_mac = ''m'', h_ts = 40, h_signal = ''icmp''\<rparr>, \<lparr>h_mac = ''m'', h_ts = 70, h_signal = ''arp''\<rparr>],
     dev_columns = deviceCols, user_version = 1\<rparr>"

lemma NormMAC_m [simp]: "NormMAC ''m'' = ''m''"
  by (simp add: NormMAC_def go_string Let_def)

lemma wf_demo_db: "wf_db demo_db"
  by (simp add: wf_db_def wf_rows_def primary_key_def demo_db_def demo_row_def)

text \<open>
  C31. Every history of store calls keeps the table invariant: one row per MAC, in canonical
  form, with an ICMP flag the driver can read back, no duplicate watchdog, one remembered row
  per host, whichever statements fail along the way.
\<close>

theorem store_invariant:
  assumes "wf_db db"
  shows "wf_db (run_calls cs db)"
  using assms by (rule wf_run_calls)

lemma store_invariant_witness:
  "wf_db (run_calls [(\<lambda>k. k = 2, C_Delete ''m''), (\<lambda>_. False, C_AddProbe ''m'' 80)] demo_db)"
  by (rule store_invariant [OF wf_demo_db])

text \<open>
  C21. Presence only moves forward. Over every history of calls that does not untrack a device,
  with any failures, its stored ICMP flag and its two last-seen times never decrease, and the
  device stays in the table.
\<close>

theorem store_presence_forward:
  assumes "\<forall>(f, c) \<in> set cs. \<not> deletes m c" and "presence_at db m = Some p"
  shows "\<exists>q. presence_at (run_calls cs db) m = Some q \<and> p \<le> q"
  using ahead_run_calls [OF assms(1), of db] assms(2)
  by (auto simp: presence_ahead_def split: option.splits)

lemma store_presence_forward_witness:
  "\<exists>q. presence_at (run_calls [(\<lambda>_. False, C_Delete ''x''), (\<lambda>_. False, C_Backfill)] demo_db) ''m'' = Some q \<and>
    (0, 0, 0) \<le> q"
  by (rule store_presence_forward)
    (simp_all add: deletes_def presence_at_def dev_at_def demo_db_def demo_row_def row_presence_def
      NormMAC_def go_string Let_def)

text \<open>
  C11. A flush is all or nothing. A failing statement (the commit included) leaves the database
  as it was. A flush that succeeds raises every tracked device to the least upper bound of its
  stored presence and the updates for it, appends the transition rows in order, and keeps the
  set of tracked devices.
\<close>

theorem flush_all_or_nothing:
  "case store_Flush f t b db of
     (Some e, db') \<Rightarrow> db' = db
   | (None, db') \<Rightarrow>
       presence_at db' m = map_option
         (\<lambda>p. fold (\<lambda>u p. sup p (update_presence u)) (updates_for m (b_Seen b)) p) (presence_at db m) \<and>
       t_seen_events db' = t_seen_events db @ map (\<lambda>e. e\<lparr>ev_MAC := NormMAC (ev_MAC e)\<rparr>) (b_Events b)"
  by (auto split: prod.splits option.splits simp: presence_Flush events_Flush Flush_error)

text \<open>
  The order of a batch's presence updates does not matter: two batches with the same set of
  updates, both flushed successfully into the same database, leave the same presence for every
  device. (The updates are collected by ranging over a Go map.)
\<close>

theorem flush_order_irrelevant:
  assumes "store_Flush f t b db = (None, db1)" and "store_Flush g t' b' db = (None, db2)"
    and "set (b_Seen b) = set (b_Seen b')"
  shows "presence_at db1 m = presence_at db2 m"
proof -
  have "set (updates_for m (b_Seen b)) = set (updates_for m (b_Seen b'))"
    using assms(3) by (simp add: updates_for_def)
  from fold_sup_set [OF this]
  have "fold (\<lambda>u p. sup p (update_presence u)) (updates_for m (b_Seen b)) =
      fold (\<lambda>u p. sup p (update_presence u)) (updates_for m (b_Seen b'))"
    by (rule ext)
  then show ?thesis
    by (simp add: presence_Flush [OF assms(1)] presence_Flush [OF assms(2)])
qed

definition demo_update :: "int \<Rightarrow> seen_update" where
  "demo_update t = \<lparr>su_MAC = ''m'', su_IcmpSeen = True, su_LastSeenUp = t, su_LastSeen = t\<rparr>"

definition demo_batch :: "seen_update list \<Rightarrow> batch" where
  "demo_batch us = \<lparr>b_Seen = us, b_Events = [], b_Obs = [], b_IPMoves = []\<rparr>"

lemma demo_flush: "fst (store_Flush (\<lambda>_. False) 9 (demo_batch [demo_update 3, demo_update 8]) demo_db) = None"
  "fst (store_Flush (\<lambda>_. False) 9 (demo_batch [demo_update 8, demo_update 3]) demo_db) = None"
  by (simp_all add: store_Flush_def batch_Empty_def demo_batch_def flush_statements_def)

lemma flush_order_irrelevant_witness:
  "presence_at (snd (store_Flush (\<lambda>_. False) 9 (demo_batch [demo_update 3, demo_update 8]) demo_db)) ''m'' =
   presence_at (snd (store_Flush (\<lambda>_. False) 9 (demo_batch [demo_update 8, demo_update 3]) demo_db)) ''m''"
proof -
  let ?run = "\<lambda>us. store_Flush (\<lambda>_. False) 9 (demo_batch us) demo_db"
  have ok: "?run [demo_update 3, demo_update 8] = (None, snd (?run [demo_update 3, demo_update 8]))"
    "?run [demo_update 8, demo_update 3] = (None, snd (?run [demo_update 8, demo_update 3]))"
    by (rule prod_eqI; simp only: demo_flush fst_conv snd_conv)+
  show ?thesis
    by (rule flush_order_irrelevant [OF ok]) (simp add: demo_batch_def insert_commute)
qed

text \<open>
  What tracking a device does. After a successful \<^verbatim>\<open>Add\<close>, reading the device back under any
  spelling of its MAC gives the supplied IP, the earlier name when there was one and else the
  supplied name (the IP when none was), the earlier config, watchdogs and presence, or fresh
  ones; every other device reads as before.
\<close>

theorem Add_then_Get:
  assumes "wf_db db" and "store_Add f t d db = (None, db')" and "\<forall>k. \<not> g k"
    and "NormMAC mac = NormMAC (d_MAC d)"
  shows "store_Get g mac db' = Inr (Some
      (case dev_at db (NormMAC mac) of
         None \<Rightarrow> row_device db (new_row t (d\<lparr>d_MAC := NormMAC mac, d_Name := (if d_Name d = [] then d_IP d else d_Name d)\<rparr>))
       | Some r \<Rightarrow> (row_device db r)\<lparr>d_IP := d_IP d, d_UpdatedAt := t,
           d_Name := (if r_name r \<noteq> [] then r_name r else if d_Name d = [] then d_IP d else d_Name d)\<rparr>)) \<and>
    (NormMAC other \<noteq> NormMAC mac \<longrightarrow> store_Get g other db' = store_Get g other db)"
proof -
  have w: "wf_db db'" using wf_Add [OF assms(1), of f t d] assms(2) by simp
  have r: "row_device db' = row_device db" using dev_at_Add [OF assms(2)] by (intro row_device_cong) simp
  show ?thesis
    unfolding Get_ok [OF w assms(3)] Get_ok [OF assms(1,3)] r
    using dev_at_Add [OF assms(2)] assms(4)
    by (auto simp: Let_def row_device_def merge_device_def new_row_def split: option.splits)
qed

lemma Add_then_Get_witness:
  "store_Get (\<lambda>_. False) ''M'' (snd (store_Add (\<lambda>_. False) 9 ((row_device demo_db (demo_row ''m''))\<lparr>d_IP := []\<rparr>) demo_db)) =
   Inr (Some ((row_device demo_db (demo_row ''m''))\<lparr>d_IP := [], d_UpdatedAt := 9\<rparr>))"
proof -
  let ?d = "(row_device demo_db (demo_row ''m''))\<lparr>d_IP := []\<rparr>"
  have "NormMAC ''M'' = ''m''" by code_simp
  then have M: "NormMAC ''M'' = ''m''" "NormMAC (d_MAC ?d) = ''m''"
    by (simp_all add: row_device_def demo_row_def)
  have ok: "store_Add (\<lambda>_. False) 9 ?d demo_db = (None, snd (store_Add (\<lambda>_. False) 9 ?d demo_db))"
    using M by (simp add: store_Add_def Let_def)
  have "dev_at demo_db ''m'' = Some (demo_row ''m'')"
    by (simp add: dev_at_def demo_db_def demo_row_def)
  then show ?thesis
    using Add_then_Get [OF wf_demo_db ok, of "\<lambda>_. False" "''M''" "[]"] M
    by (simp add: row_device_def demo_row_def)
qed

text \<open>
  What patching does. After a successful \<^verbatim>\<open>Patch\<close>, reading the device back gives the supplied
  columns, the earlier value of every other one, and the new update time; an unknown device
  stays unknown, an empty patch changes nothing, and every other device reads as before.
\<close>

theorem Patch_then_Get:
  assumes "wf_db db" and "store_Patch f t mac p db = (None, db')" and "\<forall>k. \<not> g k"
  shows "store_Get g mac db' = Inr (map_option (\<lambda>r. if empty_patch p then row_device db r
      else (row_device db r)\<lparr>d_IP := set_col (p_IP p) (r_ip r), d_Name := set_col (p_Name p) (r_name r),
        d_NameSource := set_col (p_NameSource p) (r_name_source r), d_Vendor := set_col (p_Vendor p) (r_vendor r),
        d_Link := set_col (p_Link p) (r_link r), d_Notes := set_col (p_Notes p) (r_notes r), d_UpdatedAt := t\<rparr>)
      (dev_at db (NormMAC mac))) \<and>
    (NormMAC other \<noteq> NormMAC mac \<longrightarrow> store_Get g other db' = store_Get g other db)"
proof -
  have w: "wf_db db'" using wf_Patch [OF assms(1), of f t mac p] assms(2) by simp
  have r: "row_device db' = row_device db" using dev_at_Patch [OF assms(2)] by (intro row_device_cong) simp
  show ?thesis
    unfolding Get_ok [OF w assms(3)] Get_ok [OF assms(1,3)] r
    using dev_at_Patch [OF assms(2)]
    by (auto simp: row_device_def patch_row_def option.map_comp comp_def intro!: option.map_cong)
qed

definition no_patch :: patch where
  "no_patch = \<lparr>p_IP = None, p_Name = None, p_NameSource = None, p_Vendor = None, p_Link = None, p_Notes = None\<rparr>"

lemma Patch_then_Get_witness:
  "store_Get (\<lambda>_. False) ''m'' (snd (store_Patch (\<lambda>_. False) 9 ''m'' (no_patch\<lparr>p_Name := Some ''nas''\<rparr>) demo_db)) =
   Inr (Some ((row_device demo_db (demo_row ''m''))\<lparr>d_Name := ''nas'', d_UpdatedAt := 9\<rparr>))"
proof -
  let ?p = "no_patch\<lparr>p_Name := Some ''nas''\<rparr>"
  have ok: "store_Patch (\<lambda>_. False) 9 ''m'' ?p demo_db = (None, snd (store_Patch (\<lambda>_. False) 9 ''m'' ?p demo_db))"
    by (simp add: store_Patch_def)
  have "dev_at demo_db ''m'' = Some (demo_row ''m'')"
    by (simp add: dev_at_def demo_db_def demo_row_def)
  then show ?thesis
    using Patch_then_Get [OF wf_demo_db ok, of "\<lambda>_. False" "[]"]
    by (simp add: row_device_def demo_row_def no_patch_def empty_patch_def set_col_def)
qed

text \<open>
  What untracking does. After a successful \<^verbatim>\<open>Delete\<close> the device reads as unknown and nothing
  keyed by its MAC is left behind (no watchdog, no transition row); every other device reads as
  before and keeps its rows.
\<close>

theorem Delete_then_Get:
  assumes "wf_db db" and "store_Delete f mac db = (None, db')" and "\<forall>k. \<not> g k"
  shows "store_Get g mac db' = Inr None \<and>
    (\<forall>(m, port) \<in> set (t_probes db'). m \<noteq> NormMAC mac) \<and> (\<forall>e \<in> set (t_seen_events db'). ev_MAC e \<noteq> NormMAC mac) \<and>
    (NormMAC other \<noteq> NormMAC mac \<longrightarrow> store_Get g other db' = store_Get g other db \<and>
      filter (\<lambda>e. ev_MAC e = NormMAC other) (t_seen_events db') = filter (\<lambda>e. ev_MAC e = NormMAC other) (t_seen_events db))"
proof -
  have w: "wf_db db'" using wf_Delete [OF assms(1), of f mac] assms(2) by simp
  note d = dev_at_Delete [OF assms(2)]
  have ev: "t_seen_events db' = filter (\<lambda>e. ev_MAC e \<noteq> NormMAC mac) (t_seen_events db)" using d by blast
  have "probesLocked False k db' = probesLocked False k db" if "k \<noteq> NormMAC mac" for k
    using probesLocked_filter [OF that, of db] d by (simp add: probesLocked_def)
  then have r: "row_device db' r = row_device db r" if "r_mac r \<noteq> NormMAC mac" for r
    using that by (simp add: row_device_def)
  have "map_option (row_device db') (dev_at db k) = map_option (row_device db) (dev_at db k)"
    if "k \<noteq> NormMAC mac" for k
    using that wf_dev_at [OF assms(1), of k] r by (cases "dev_at db k") auto
  then show ?thesis
    unfolding Get_ok [OF w assms(3)] Get_ok [OF assms(1,3)]
    using d by (auto simp: ev intro!: filter_cong)
qed

lemma Delete_then_Get_witness:
  "store_Get (\<lambda>_. False) ''m'' (snd (store_Delete (\<lambda>_. False) ''m'' demo_db)) = Inr None"
proof -
  have "store_Delete (\<lambda>_. False) ''m'' demo_db = (None, snd (store_Delete (\<lambda>_. False) ''m'' demo_db))"
    by (simp add: store_Delete_def delete_statements_def)
  from Delete_then_Get [OF wf_demo_db this, of "\<lambda>_. False" "[]"] show ?thesis by simp
qed

lemma fill_probes_ok: "(\<forall>k. \<not> f k) \<Longrightarrow>
  fill_probes f k db ds = map (\<lambda>d. d\<lparr>d_Probes := probesLocked False (d_MAC d) db\<rparr>) ds"
  by (induction ds arbitrary: k) auto

lemma scan_rows_ok: "(\<forall>r \<in> set rows. r_icmp_seen r \<in> {0, 1}) \<Longrightarrow>
  \<exists>ds. scan_rows rows = Inr ds \<and> map (\<lambda>d. d\<lparr>d_Probes := probesLocked False (d_MAC d) db\<rparr>) ds = map (row_device db) rows"
  by (induction rows) (auto simp: scanDevice_def row_device_def)

lemma List_ok:
  assumes "wf_db db" and "\<forall>k. \<not> f k"
  shows "store_List f db = Inr (map (row_device db) (sort_key display_key (t_devices db)))"
proof -
  have "\<forall>r \<in> set (sort_key display_key (t_devices db)). r_icmp_seen r \<in> {0, 1}"
    using assms(1) by (auto simp: wf_db_def wf_rows_def)
  from scan_rows_ok [OF this, of db] show ?thesis
    using assms(2) by (auto simp: store_List_def fill_probes_ok)
qed

definition device_key :: "device \<Rightarrow> order_key" where
  "device_key d = Order_Key (d_Name d = []) (d_Name d) (d_IP d)"

text \<open>
  The device list. Without a failing statement \<^verbatim>\<open>List\<close> returns every tracked device once, as
  \<^verbatim>\<open>Get\<close> reads it, named devices first, by name and then by IP; the watchdog ports of each are
  ascending and are exactly the stored ones.
\<close>

theorem List_is_the_table:
  assumes "wf_db db" and "\<forall>k. \<not> f k"
  shows "\<exists>devs. store_List f db = Inr devs \<and> sorted (map device_key devs) \<and>
    distinct (map d_MAC devs) \<and> length devs = length (t_devices db) \<and>
    (\<forall>d \<in> set devs. store_Get f (d_MAC d) db = Inr (Some d) \<and> sorted (d_Probes d) \<and>
       set (d_Probes d) = {p. (d_MAC d, p) \<in> set (t_probes db)})"
proof -
  let ?rows = "sort_key display_key (t_devices db)"
  have key: "device_key \<circ> row_device db = display_key" and mac: "d_MAC \<circ> row_device db = r_mac"
    by (simp_all add: fun_eq_iff device_key_def row_device_def display_key_def)
  have wf: "distinct (map r_mac (t_devices db))" "\<forall>r \<in> set (t_devices db). NormMAC (r_mac r) = r_mac r"
    using assms(1) by (auto simp: wf_db_def wf_rows_def primary_key_def)
  have "distinct (map r_mac ?rows)"
    using wf(1) by (metis mset_eq_imp_distinct_iff mset_map mset_sort)
  moreover have "store_Get f (d_MAC d) db = Inr (Some d) \<and> sorted (d_Probes d) \<and>
      set (d_Probes d) = {p. (d_MAC d, p) \<in> set (t_probes db)}" if "d \<in> row_device db ` set (t_devices db)" for d
  proof -
    obtain r where r: "r \<in> set (t_devices db)" "d = row_device db r" using \<open>d \<in> _\<close> by auto
    then have "dev_at db (r_mac r) = Some r"
      using table_map_in [of r_mac "t_devices db" r] wf(1) by (simp add: dev_at_def primary_key_def)
    with r wf(2) show ?thesis
      by (force simp: Get_ok [OF assms] row_device_def probesLocked_def)
  qed
  ultimately show ?thesis
    by (simp add: List_ok [OF assms] key mac)
qed

lemma List_is_the_table_witness:
  "\<exists>devs. store_List (\<lambda>_. False) demo_db = Inr devs \<and> length devs = 1"
  using List_is_the_table [OF wf_demo_db, of "\<lambda>_. False"] by (auto simp: demo_db_def)

end
