(* ===== verification/StoreHistory.thy ===== *)
theory StoreHistory
  imports StoreSpecs
begin

text \<open>
  Opening an older database: the schema migration and the collapse of the v0 log
  \<^verbatim>\<open>seen_history\<close> into the presence columns. Both may be cut off by a failing statement and are
  repeated on the next start; the lemmas show what an interrupted run leaves and that repeating
  it gives the result of an undisturbed one.
\<close>

section \<open>Migration\<close>

lemma add_derived_cases:
  "add_derived f k have cs db = (e, db') \<Longrightarrow>
   \<exists>pre suf. filter (\<lambda>c. c \<notin> set have) cs = pre @ suf \<and>
     (if e = None then suf = [] \<and> db' = (fold add_column pre db)\<lparr>user_version := schemaVersion\<rparr>
      else db' = fold add_column pre db)"
proof (induction f k "have" cs db rule: add_derived.induct)
  case (1 f k cols db)
  then show ?case by (auto split: if_splits)
next
  case (2 f k cols c cs db)
  show ?case
  proof (cases "c \<in> set cols")
    case True
    with 2 show ?thesis by simp
  next
    case new: False
    show ?thesis
    proof (cases "f k")
      case True
      with new 2(3) show ?thesis
        by (intro exI [of _ "[]"] exI [of _ "filter (\<lambda>x. x \<notin> set cols) (c # cs)"]) auto
    next
      case False
      with new 2(3) 2(2) [OF new False] obtain pre suf where
        "filter (\<lambda>c. c \<notin> set cols) cs = pre @ suf"
        "if e = None then suf = [] \<and> db' = (fold add_column pre (add_column c db))\<lparr>user_version := schemaVersion\<rparr>
         else db' = fold add_column pre (add_column c db)"
        by auto
      with new show ?thesis
        by (intro exI [of _ "c # pre"] exI [of _ suf]) (auto split: if_splits)
    qed
  qed
qed

lemma add_derived_ok: "(\<forall>k. \<not> f k) \<Longrightarrow> add_derived f k have cs db =
   (None, (fold add_column (filter (\<lambda>c. c \<notin> set have) cs) db)\<lparr>user_version := schemaVersion\<rparr>)"
  by (induction f k "have" cs db rule: add_derived.induct) auto

lemma columns_fold: "dev_columns (fold add_column cs db) = dev_columns db @ cs"
  by (induction cs arbitrary: db) (auto simp: add_column_def)

lemma base_schema_idem [simp]: "dev_columns db \<noteq> [] \<Longrightarrow> base_schema db = db"
  by (simp add: base_schema_def)

lemma base_schema_columns [simp]: "dev_columns (base_schema db) \<noteq> []"
  by (simp add: base_schema_def deviceCols_def)

definition missing :: "db \<Rightarrow> string list" where
  "missing db = filter (\<lambda>c. c \<notin> set (dev_columns db)) derivedColumns"

lemma migrate_ok: "(\<forall>k. \<not> f k) \<Longrightarrow> store_migrate f db =
   (None, (fold add_column (missing (base_schema db)) (base_schema db))\<lparr>user_version := schemaVersion\<rparr>)"
  by (simp add: store_migrate_def store_columns_def Let_def add_derived_ok missing_def)

lemma migrate_cases:
  assumes "store_migrate f db = (e, db')"
  obtains (start) "e \<noteq> None" "db' = db"
  | (columns) pre suf where "missing (base_schema db) = pre @ suf"
      "if e = None then suf = [] \<and> db' = (fold add_column pre (base_schema db))\<lparr>user_version := schemaVersion\<rparr>
       else db' = fold add_column pre (base_schema db)"
proof -
  consider "f 0" | "\<not> f 0" "f 1" | "\<not> f 0" "\<not> f 1" by blast
  then show thesis
  proof cases
    case 1
    with assms start show thesis by (auto simp: store_migrate_def store_columns_def)
  next
    case 2
    with assms have "e \<noteq> None" "db' = base_schema db"
      by (auto simp: store_migrate_def store_columns_def Let_def)
    then show thesis
      by (intro columns [of "[]" "missing (base_schema db)"]) auto
  next
    case 3
    with assms have "add_derived f 2 (dev_columns (base_schema db)) derivedColumns (base_schema db) = (e, db')"
      by (simp add: store_migrate_def store_columns_def Let_def)
    from add_derived_cases [OF this] columns show thesis
      by (auto simp: missing_def)
  qed
qed

lemma missing_fold:
  assumes "missing db = pre @ suf"
  shows "missing (fold add_column pre db) = suf"
proof -
  have "distinct (missing db)" by (simp add: missing_def derivedColumns_def)
  then have d: "set pre \<inter> set suf = {}" using assms by simp
  have "missing (fold add_column pre db) = filter (\<lambda>c. c \<notin> set pre) (missing db)"
    by (simp add: missing_def columns_fold conj_commute)
  also have "\<dots> = suf" using d by (auto simp: assms filter_empty_conv filter_id_conv)
  finally show ?thesis .
qed

lemma add_column_version_step [simp]:
  "add_column c (db\<lparr>user_version := v\<rparr>) = (add_column c db)\<lparr>user_version := v\<rparr>"
  by (simp add: add_column_def)

lemma add_column_version: "fold add_column cs (db\<lparr>user_version := v\<rparr>) = (fold add_column cs db)\<lparr>user_version := v\<rparr>"
  by (induction cs arbitrary: db) simp_all

lemma missing_version [simp]: "missing (db\<lparr>user_version := v\<rparr>) = missing db"
  by (simp add: missing_def)

text \<open>
  C33. An interrupted migration is repaired by the next start. Whatever statement of a migration
  fails, running the migration again on what it left gives exactly the database an undisturbed
  run on the original gives; in particular migrating twice is migrating once.
\<close>

theorem migrate_retry:
  assumes "\<forall>k. \<not> g k"
  shows "store_migrate g (snd (store_migrate f db)) = store_migrate g db"
proof -
  obtain e db' where m: "store_migrate f db = (e, db')" by (cases "store_migrate f db")
  from m show ?thesis
  proof (cases rule: migrate_cases)
    case start
    with m show ?thesis by simp
  next
    case (columns pre suf)
    let ?d = "fold add_column pre (base_schema db)"
    have "dev_columns ?d \<noteq> []" by (simp add: columns_fold)
    then have "base_schema ?d = ?d" "base_schema (?d\<lparr>user_version := schemaVersion\<rparr>) = ?d\<lparr>user_version := schemaVersion\<rparr>"
      by simp_all
    moreover have "missing ?d = suf" using columns(1) by (rule missing_fold)
    ultimately show ?thesis
      using columns m by (cases e) (auto simp: migrate_ok [OF assms])
  qed
qed

lemma migrate_retry_witness:
  "store_migrate (\<lambda>_. False) (snd (store_migrate (\<lambda>k. k = 3) (demo_db\<lparr>dev_columns := [''mac'', ''ip'']\<rparr>))) =
   store_migrate (\<lambda>_. False) (demo_db\<lparr>dev_columns := [''mac'', ''ip'']\<rparr>)"
  by (rule migrate_retry) simp

section \<open>Backfill\<close>

definition summary :: "hist_row list \<Rightarrow> presence" where
  "summary h =
     (if \<exists>r \<in> set h. h_signal r = ''icmp'' then 1 else 0,
      if \<exists>r \<in> set h. h_signal r \<in> {''icmp'', ''tcp''} then Max (h_ts ` {r \<in> set h. h_signal r \<in> {''icmp'', ''tcp''}}) else 0,
      if h = [] then 0 else Max (h_ts ` set h))"

lemma newest_ts_Max: "newest_ts h = (if h = [] then 0 else Max (h_ts ` set h))"
proof (cases "h = []")
  case False
  let ?l = "sort (map h_ts h)"
  have "length ?l \<noteq> 0" using False by simp
  then obtain xs x where l: "?l = xs @ [x]" by (cases ?l rule: rev_cases) auto
  have "sorted ?l" by simp
  then have "\<forall>y \<in> set ?l. y \<le> x" by (auto simp: l sorted_append)
  moreover have "x \<in> set ?l" by (simp add: l)
  ultimately have "Max (set ?l) = x" by (intro Max_eqI) auto
  then have "Max (h_ts ` set h) = x" by simp
  with False l show ?thesis by (simp add: newest_ts_def)
qed (simp add: newest_ts_def)

lemma filter_image_set: "set (filter P h) = {r \<in> set h. P r}"
  by auto

lemma backfillOne_presence:
  assumes "backfillOne f k mac db = (None, db')"
  shows "\<exists>x. x \<le> sup (0, 0, 0) (summary (history_of mac db)) \<and>
    ((\<forall>k. \<not> f k) \<longrightarrow> x = summary (history_of mac db)) \<and>
    presence_at db' m = (if m = mac then map_option (\<lambda>p. sup p x) (presence_at db m) else presence_at db m)"
proof -
  let ?h = "history_of mac db"
  let ?x = "(if f k then 0 else if filter (\<lambda>r. h_signal r = ''icmp'') ?h = [] then 0 else 1,
    if f (k + 1) then 0 else newest_ts (filter (\<lambda>r. h_signal r = ''icmp'' \<or> h_signal r = ''tcp'') ?h),
    if f (k + 2) then 0 else newest_ts ?h) :: presence"
  have "presence_at db' m = (if m = mac then map_option (\<lambda>p. sup p ?x) (presence_at db m) else presence_at db m)"
    using assms by (auto simp: backfillOne_def Let_def presence_at_def dev_at_upd row_presence_max
        option.map_comp comp_def split: if_splits)
  moreover have q: "?x = summary ?h" if "\<forall>k. \<not> f k"
    using that by (auto simp: summary_def newest_ts_Max filter_empty_conv filter_image_set)
  moreover have "?x \<le> sup (0, 0, 0) (summary ?h)"
    by (auto simp: summary_def newest_ts_Max filter_empty_conv filter_image_set sup_max le_max_iff_disj)
  ultimately show ?thesis by blast
qed

lemma backfillOne_frame [simp]:
  "history_of m (snd (backfillOne f k mac db)) = history_of m db"
  "map r_mac (t_devices (snd (backfillOne f k mac db))) = map r_mac (t_devices db)"
  "t_seen_history (snd (backfillOne f k mac db)) = t_seen_history db"
  by (simp_all add: backfillOne_def Let_def history_of_def keys_update_where)

lemma backfillOne_error: "backfillOne f k mac db = (Some e, db') \<Longrightarrow> db' = db"
  by (auto simp: backfillOne_def Let_def split: if_splits)

text \<open>Presence moved up, and not beyond what the log says.\<close>

definition collapsed :: "db \<Rightarrow> string \<Rightarrow> presence \<Rightarrow> db \<Rightarrow> bool" where
  "collapsed db m p db' \<longleftrightarrow> (\<exists>q. presence_at db' m = Some q \<and> p \<le> q \<and> q \<le> sup p (summary (history_of m db)))"

lemma collapsed_refl: "presence_at db m = Some p \<Longrightarrow> collapsed db m p db"
  by (simp add: collapsed_def)

lemma collapsed_step:
  assumes "collapsed db m p d" and "(0, 0, 0) \<le> p" and "history_of m d = history_of m db"
    and "backfillOne f k mac d = (None, d')"
  shows "collapsed db m p d'"
proof -
  obtain q where q: "presence_at d m = Some q" "p \<le> q" "q \<le> sup p (summary (history_of m db))"
    using assms(1) by (auto simp: collapsed_def)
  obtain x where x: "x \<le> sup (0, 0, 0) (summary (history_of mac d))"
    "presence_at d' m = (if m = mac then map_option (\<lambda>p. sup p x) (presence_at d m) else presence_at d m)"
    using backfillOne_presence [OF assms(4)] by blast
  show ?thesis
  proof (cases "m = mac")
    case True
    have "sup (0, 0, 0) (summary (history_of m db)) \<le> sup p (summary (history_of m db))"
      using assms(2) by (rule sup_mono) simp
    moreover have "x \<le> sup (0, 0, 0) (summary (history_of m db))"
      using x(1) assms(3) by (simp only: True)
    ultimately have "x \<le> sup p (summary (history_of m db))" by (rule order_trans [rotated])
    with q x(2) True show ?thesis by (auto simp: collapsed_def intro: le_supI1)
  next
    case False
    with q x(2) show ?thesis by (auto simp: collapsed_def)
  qed
qed

lemma backfill_loop_frame:
  "backfill_loop f k n macs db = (n', e, db') \<Longrightarrow>
   history_of m db' = history_of m db \<and> map r_mac (t_devices db') = map r_mac (t_devices db) \<and>
   t_seen_history db' = t_seen_history db"
proof (induction macs arbitrary: k n db)
  case Nil
  then show ?case by simp
next
  case (Cons mac macs)
  obtain e1 d where d: "backfillOne f k mac db = (e1, d)" by (cases "backfillOne f k mac db")
  then have fr: "history_of m d = history_of m db" "map r_mac (t_devices d) = map r_mac (t_devices db)"
    "t_seen_history d = t_seen_history db"
    using backfillOne_frame(1) [of m f k mac db] backfillOne_frame(2,3) [of f k mac db] by simp_all
  show ?case
  proof (cases e1)
    case None
    with Cons.prems d have "backfill_loop f (k + 4) (Suc n) macs d = (n', e, db')" by simp
    from Cons.IH [OF this] fr show ?thesis by simp
  next
    case (Some x)
    with Cons.prems d fr show ?thesis by auto
  qed
qed

lemma backfill_loop_collapsed:
  "backfill_loop f k n macs d = (n', e, db') \<Longrightarrow> collapsed db m p d \<Longrightarrow> (0, 0, 0) \<le> p \<Longrightarrow>
   history_of m d = history_of m db \<Longrightarrow> collapsed db m p db'"
proof (induction macs arbitrary: k n d)
  case Nil
  then show ?case by simp
next
  case (Cons mac macs)
  obtain e1 d1 where d1: "backfillOne f k mac d = (e1, d1)" by (cases "backfillOne f k mac d")
  show ?case
  proof (cases e1)
    case None
    with d1 have d1': "backfillOne f k mac d = (None, d1)" by simp
    have h: "history_of m d1 = history_of m db"
      using backfillOne_frame(1) [of m f k mac d] Cons.prems(4) by (simp add: d1)
    have "backfill_loop f (k + 4) (Suc n) macs d1 = (n', e, db')"
      using Cons.prems(1) d1' by simp
    from Cons.IH [OF this collapsed_step [OF Cons.prems(2,3,4) d1'] Cons.prems(3) h] show ?thesis .
  next
    case (Some x)
    with d1 Cons.prems show ?thesis by (auto dest: backfillOne_error)
  qed
qed

lemma backfillOne_ok: "(\<forall>k. \<not> f k) \<Longrightarrow> fst (backfillOne f k mac db) = None"
  by (simp add: backfillOne_def Let_def)

lemma backfill_loop_ok:
  assumes "\<forall>k. \<not> f k"
  shows "\<exists>db'. backfill_loop f k n macs db = (n + length macs, None, db') \<and>
    presence_at db' m = (if m \<in> set macs then map_option (\<lambda>p. sup p (summary (history_of m db))) (presence_at db m)
      else presence_at db m)"
proof (induction macs arbitrary: k n db)
  case Nil
  then show ?case by simp
next
  case (Cons mac macs)
  obtain d where d: "backfillOne f k mac db = (None, d)"
    using backfillOne_ok [OF assms, of k mac db] by (cases "backfillOne f k mac db") auto
  then have h: "history_of m d = history_of m db"
    using backfillOne_frame(1) [of m f k mac db] by simp
  have p: "presence_at d m = (if m = mac then map_option (\<lambda>p. sup p (summary (history_of mac db))) (presence_at db m)
      else presence_at db m)"
    using backfillOne_presence [OF d, of m] assms by auto
  from Cons.IH [of "k + 4" "Suc n" d] obtain db' where
    l: "backfill_loop f (k + 4) (Suc n) macs d = (Suc n + length macs, None, db')" and
    q: "presence_at db' m = (if m \<in> set macs then map_option (\<lambda>p. sup p (summary (history_of m d))) (presence_at d m)
      else presence_at d m)"
    by blast
  have "presence_at db' m = (if m \<in> set (mac # macs)
      then map_option (\<lambda>p. sup p (summary (history_of m db))) (presence_at db m) else presence_at db m)"
  proof (cases "m = mac")
    case True
    note eqs = q [unfolded True] p [unfolded True] h [unfolded True]
    show ?thesis unfolding True by (simp add: eqs option.map_comp comp_def sup.assoc)
  qed (simp add: q p h)
  with l d show ?case by (intro exI [of _ db']) simp
qed

lemma presence_in_devices: "presence_at db m = Some p \<Longrightarrow> m \<in> set (map r_mac (t_devices db))"
  using dom_table_map [of r_mac "t_devices db"] by (auto simp: presence_at_def dev_at_def)

lemma Backfill_ok:
  assumes "\<forall>k. \<not> g k" and "presence_at db m = Some p" and "BackfillLegacy g db = (n, e, db')"
  shows "n = length (t_devices db) \<and> e = None \<and> t_seen_history db' = None \<and>
    presence_at db' m = Some (sup p (summary (history_of m db)))"
proof -
  obtain d where l: "backfill_loop g 1 0 (map r_mac (t_devices db)) db = (length (t_devices db), None, d)"
    and d: "presence_at d m = Some (sup p (summary (history_of m db)))"
    using backfill_loop_ok [OF assms(1), of 1 0 "map r_mac (t_devices db)" db m]
      presence_in_devices [OF assms(2)] assms(2) by auto
  have "BackfillLegacy g db = (length (t_devices db), None, d\<lparr>t_seen_history := None\<rparr>)"
    using assms(1) l by (simp add: BackfillLegacy_def legacyMACs_def Let_def)
  with assms(3) d show ?thesis by auto
qed

text \<open>
  The v0 log is collapsed exactly, also across restarts. A backfill without failures raises
  each tracked device to what its log rows say: whether any was an ICMP reply, the newest ICMP or
  TCP one, the newest of all. An earlier attempt cut off by any failing statement, with the log
  still there, does not change the result: the retry counts every device, drops the log and ends
  in the same presence.
\<close>

theorem backfill_retry:
  assumes "presence_at db m = Some p" and "(0, 0, 0) \<le> p" and "\<forall>k. \<not> g k"
    and "BackfillLegacy f db = (n1, e1, db1)" and "t_seen_history db1 \<noteq> None"
    and "BackfillLegacy g db1 = (n, e, db')"
  shows "e = None \<and> n = length (t_devices db) \<and> t_seen_history db' = None \<and>
    presence_at db' m = Some (sup p (summary (history_of m db)))"
proof -
  let ?macs = "map r_mac (t_devices db)"
  obtain n2 e2 d where l: "backfill_loop f 1 0 ?macs db = (n2, e2, d)" by (cases "backfill_loop f 1 0 ?macs db") auto
  note fr = backfill_loop_frame [OF l, of m]
  have c: "collapsed db m p d"
    using backfill_loop_collapsed [OF l collapsed_refl [OF assms(1)] assms(2)] by simp
  have "db1 = db \<or> db1 = d"
    using assms(4,5) l by (auto simp: BackfillLegacy_def legacyMACs_def Let_def split: if_splits option.splits)
  then have h: "history_of m db1 = history_of m db" and len: "map r_mac (t_devices db1) = ?macs"
    and "collapsed db m p db1"
    using fr c collapsed_refl [OF assms(1)] by auto
  then obtain q where q: "presence_at db1 m = Some q" "p \<le> q" "q \<le> sup p (summary (history_of m db))"
    by (auto simp: collapsed_def)
  have "sup q (summary (history_of m db)) = sup p (summary (history_of m db))"
    using q by (intro order_antisym) (auto intro: le_supI1)
  with Backfill_ok [OF assms(3) q(1) assms(6)] h show ?thesis
    using map_eq_imp_length_eq [OF len] by simp
qed

lemma backfill_retry_witness:
  "presence_at (snd (snd (BackfillLegacy (\<lambda>_. False) (snd (snd (BackfillLegacy (\<lambda>k. k = 4) demo_db)))))) ''m'' =
   Some (1, 40, 70)"
proof -
  have p: "presence_at demo_db ''m'' = Some (0, 0, 0)"
    by (simp add: presence_at_def dev_at_def demo_db_def demo_row_def row_presence_def)
  let ?one = "BackfillLegacy (\<lambda>k. k = 4) demo_db"
  have one: "?one = (fst ?one, fst (snd ?one), snd (snd ?one))" by simp
  have h: "t_seen_history (snd (snd ?one)) \<noteq> None"
    by (simp add: BackfillLegacy_def legacyMACs_def demo_db_def backfillOne_def Let_def)
  let ?two = "BackfillLegacy (\<lambda>_. False) (snd (snd ?one))"
  have two: "?two = (fst ?two, fst (snd ?two), snd (snd ?two))" by simp
  have s: "summary (history_of ''m'' demo_db) = (1, 40, 70)"
  proof -
    have "{r \<in> set [\<lparr>h_mac = ''m'', h_ts = 40, h_signal = ''icmp''\<rparr>, \<lparr>h_mac = ''m'', h_ts = 70, h_signal = ''arp''\<rparr>].
        h_signal r \<in> {''icmp'', ''tcp''}} = {\<lparr>h_mac = ''m'', h_ts = 40, h_signal = ''icmp''\<rparr>}" by auto
    then show ?thesis by (simp add: summary_def history_of_def demo_db_def)
  qed
  show ?thesis
    using backfill_retry [OF p _ _ one h two] s by (simp add: sup_max)
qed

text \<open>
  A query error of \<^verbatim>\<open>backfillOne\<close> is dropped, so one transient failure makes a device's log read
  as empty; the run still succeeds and drops the log, and the sighting is gone for good.
\<close>

lemma backfill_query_error_loses_presence:
  "BackfillLegacy (\<lambda>k. k \<in> {1, 2, 3}) demo_db = (1, None, snd (snd (BackfillLegacy (\<lambda>k. k \<in> {1, 2, 3}) demo_db))) \<and>
   t_seen_history (snd (snd (BackfillLegacy (\<lambda>k. k \<in> {1, 2, 3}) demo_db))) = None \<and>
   presence_at (snd (snd (BackfillLegacy (\<lambda>k. k \<in> {1, 2, 3}) demo_db))) ''m'' = Some (0, 0, 0)"
  by (simp add: BackfillLegacy_def legacyMACs_def demo_db_def demo_row_def backfillOne_def Let_def
      presence_at_def dev_at_def row_presence_def update_where_def max_row_def)

end
