(* ===== verification/Journal.thy ===== *)
theory Journal
  imports PresenceLog StoreHistory
begin

text \<open>
  The server's presence machinery under interleaving: the in-memory model is the authority, the
  store its journal. The methods of \<^verbatim>\<open>state\<close> and of \<^verbatim>\<open>Store\<close> are atomic (each holds its mutex);
  everything between them can interleave, since the render, probe and maintenance loops, the
  backfill goroutine and the API handlers run concurrently. A step of the machine is one such
  method call. \<^verbatim>\<open>Server.flush\<close> is three steps (drain, store flush, restore on failure) and only
  one flush runs at a time; \<^verbatim>\<open>Server.reloadState\<close> is two (the store is read before the
  model's lock is taken), and any number of reloads may be under way.

  Three ghost fields record history: every transition row ever produced, the MACs that were
  untracked, and the cutoffs of the event pruning.
\<close>

section \<open>The machine\<close>

datatype flight = Idle | Drained batch | Failed batch

record sys =
  y_db :: db
  y_mem :: state
  y_flight :: flight
  y_loads :: "device list list"
  y_log :: "seen_event list"
  y_gone :: "string set"
  y_cuts :: "int set"

datatype act =
    Neigh "string list" "string \<Rightarrow> entry option" int
  | Probes "string list" "string \<Rightarrow> live_part option" int
  | ClearLive
  | Touch string string string int
  | Forget string
  | PruneMem "string list" int
  | LoadObs faults int
  | Drain "string list" "string list" "string list"
  | Commit faults int
  | Restore
  | ReadDevices faults
  | MergeDevices nat
  | StoreCall faults store_call
  | BackfillStep faults nat string
  | DropHistory

text \<open>
  When a step can be taken: a \<^verbatim>\<open>range\<close> visits every key of its map; a flush starts when none is
  under way. The store's own flush and backfill are taken apart into the steps above.
\<close>

fun enabled :: "act \<Rightarrow> sys \<Rightarrow> bool" where
  "enabled (Neigh ks byMAC now) y \<longleftrightarrow> enumerates ks (dom (s_devs (y_mem y)))"
| "enabled (Probes ks results now) y \<longleftrightarrow> enumerates ks (dom results)"
| "enabled ClearLive y \<longleftrightarrow> True"
| "enabled (Touch mac ip name now) y \<longleftrightarrow> True"
| "enabled (Forget mac) y \<longleftrightarrow> True"
| "enabled (PruneMem ks before) y \<longleftrightarrow> enumerates ks (dom (s_obs (y_mem y)))"
| "enabled (LoadObs f since) y \<longleftrightarrow> True"
| "enabled (Drain kd ko km) y \<longleftrightarrow> y_flight y = Idle \<and> enumerates kd (dom (s_devs (y_mem y))) \<and>
     enumerates ko (s_obsDirty (y_mem y)) \<and> enumerates km (dom (s_ipMoves (y_mem y)))"
| "enabled (Commit f t) y \<longleftrightarrow> (case y_flight y of Drained b \<Rightarrow> True | _ \<Rightarrow> False)"
| "enabled Restore y \<longleftrightarrow> (case y_flight y of Failed b \<Rightarrow> True | _ \<Rightarrow> False)"
| "enabled (ReadDevices f) y \<longleftrightarrow> True"
| "enabled (MergeDevices i) y \<longleftrightarrow> i < length (y_loads y)"
| "enabled (StoreCall f c) y \<longleftrightarrow> (case c of C_Flush _ _ \<Rightarrow> False | C_Backfill \<Rightarrow> False | _ \<Rightarrow> True)"
| "enabled (BackfillStep f k mac) y \<longleftrightarrow> True"
| "enabled DropHistory y \<longleftrightarrow> True"

definition probe_events :: "string list \<Rightarrow> (string \<Rightarrow> live_part option) \<Rightarrow> int \<Rightarrow> state \<Rightarrow> seen_event list" where
  "probe_events ks results now s = drop (length (s_events s)) (s_events (applyProbes ks results now s))"

definition gone_by :: "store_call \<Rightarrow> string set" where
  "gone_by c = (case c of C_Delete mac \<Rightarrow> {NormMAC mac} | _ \<Rightarrow> {})"

definition cut_by :: "store_call \<Rightarrow> int set" where
  "cut_by c = (case c of C_PruneSeenEvents t \<Rightarrow> {t} | _ \<Rightarrow> {})"

fun perform :: "act \<Rightarrow> sys \<Rightarrow> sys" where
  "perform (Neigh ks byMAC now) y = y\<lparr>y_mem := applyNeigh ks byMAC now (y_mem y)\<rparr>"
| "perform (Probes ks results now) y =
     y\<lparr>y_mem := applyProbes ks results now (y_mem y),
       y_log := y_log y @ probe_events ks results now (y_mem y)\<rparr>"
| "perform ClearLive y = y\<lparr>y_mem := clearLive (y_mem y)\<rparr>"
| "perform (Touch mac ip name now) y = y\<lparr>y_mem := touchObserved mac ip name now (y_mem y)\<rparr>"
| "perform (Forget mac) y = y\<lparr>y_mem := forgetObserved mac (y_mem y)\<rparr>"
| "perform (PruneMem ks before) y = y\<lparr>y_mem := pruneObserved ks before (y_mem y)\<rparr>"
| "perform (LoadObs f since) y = y\<lparr>y_mem := snd (state_LoadObserved f since (y_db y) (y_mem y))\<rparr>"
| "perform (Drain kd ko km) y =
     (let (b, s) = drain kd ko km (y_mem y)
      in y\<lparr>y_mem := s, y_flight := (if batch_Empty b then Idle else Drained b)\<rparr>)"
| "perform (Commit f t) y =
     (case y_flight y of
        Drained b \<Rightarrow>
          (case store_Flush f t b (y_db y) of
             (None, db) \<Rightarrow> y\<lparr>y_db := db, y_flight := Idle\<rparr>
           | (Some e, db) \<Rightarrow> y\<lparr>y_db := db, y_flight := Failed b\<rparr>)
      | _ \<Rightarrow> y)"
| "perform Restore y =
     (case y_flight y of Failed b \<Rightarrow> y\<lparr>y_mem := restore b (y_mem y), y_flight := Idle\<rparr> | _ \<Rightarrow> y)"
| "perform (ReadDevices f) y =
     (case store_List f (y_db y) of Inl e \<Rightarrow> y | Inr devs \<Rightarrow> y\<lparr>y_loads := y_loads y @ [devs]\<rparr>)"
| "perform (MergeDevices i) y =
     y\<lparr>y_mem := load_merge (y_loads y ! i) (y_mem y),
       y_loads := take i (y_loads y) @ drop (Suc i) (y_loads y)\<rparr>"
| "perform (StoreCall f c) y =
     y\<lparr>y_db := run_call f c (y_db y), y_gone := y_gone y \<union> gone_by c, y_cuts := y_cuts y \<union> cut_by c\<rparr>"
| "perform (BackfillStep f k mac) y = y\<lparr>y_db := snd (backfillOne f k mac (y_db y))\<rparr>"
| "perform DropHistory y = y\<lparr>y_db := (y_db y)\<lparr>t_seen_history := None\<rparr>\<rparr>"

inductive server_step :: "sys \<Rightarrow> sys \<Rightarrow> bool" where
  "enabled a y \<Longrightarrow> server_step y (perform a y)"

inductive_cases server_stepE: "server_step y y'"

definition boot :: "sys \<Rightarrow> bool" where
  "boot y \<longleftrightarrow> wf_db (y_db y) \<and> y_mem y = newState \<and> y_flight y = Idle \<and> y_loads y = [] \<and>
     y_log y = t_seen_events (y_db y) \<and> y_gone y = {} \<and> y_cuts y = {}"

text \<open>Sequential runs, for the composed functions and the concrete instances.\<close>

abbreviation run_acts :: "act list \<Rightarrow> sys \<Rightarrow> sys option" where
  "run_acts \<equiv> run_actions enabled perform"

text \<open>
  \<^verbatim>\<open>Server.flush\<close>, \<^verbatim>\<open>Server.reloadState\<close> and \<^verbatim>\<open>Server.prune\<close> run without interleaving, as at
  shutdown, where every loop has stopped.
\<close>

definition server_flush :: "faults \<Rightarrow> int \<Rightarrow> string list \<Rightarrow> string list \<Rightarrow> string list \<Rightarrow> db \<times> state \<Rightarrow>
    store_error option \<times> db \<times> state" where
  "server_flush f t kd ko km = (\<lambda>(db, s).
     let (b, s1) = drain kd ko km s in
     if batch_Empty b then (None, db, s1)
     else (case store_Flush f t b db of
        (None, db1) \<Rightarrow> (None, db1, s1)
      | (Some e, db1) \<Rightarrow> (Some e, db1, restore b s1)))"

definition reloadState :: "faults \<Rightarrow> db \<Rightarrow> state \<Rightarrow> state" where
  "reloadState f db s = snd (state_Load f db s)"

definition observedTTL :: int where
  "observedTTL = 7 * 24 * 60 * 60"

definition seenEventTTL :: int where
  "seenEventTTL = 90 * 24 * 60 * 60"

text \<open>\<^verbatim>\<open>prune\<close> reads the clock twice: \<open>later\<close> is the second reading.\<close>

definition server_prune :: "faults \<Rightarrow> faults \<Rightarrow> int \<Rightarrow> int \<Rightarrow> string list \<Rightarrow> db \<times> state \<Rightarrow> db \<times> state" where
  "server_prune f g now later ks = (\<lambda>(db, s).
     let s1 = pruneObserved ks (now - observedTTL) s;
         db1 = snd (store_PruneObserved f (now - observedTTL) db)
     in (snd (store_PruneSeenEvents g (later - seenEventTTL) db1), s1))"

section \<open>What is under way\<close>

definition flight_batch :: "sys \<Rightarrow> batch" where
  "flight_batch y = (case y_flight y of Idle \<Rightarrow> \<lparr>b_Seen = [], b_Events = [], b_Obs = [], b_IPMoves = []\<rparr>
     | Drained b \<Rightarrow> b | Failed b \<Rightarrow> b)"

definition all_events :: "sys \<Rightarrow> seen_event list" where
  "all_events y = t_seen_events (y_db y) @ b_Events (flight_batch y) @ s_events (y_mem y)"

text \<open>A row that nothing asked to forget: its device was never untracked, no cutoff passed it.\<close>

definition kept :: "sys \<Rightarrow> seen_event \<Rightarrow> bool" where
  "kept y e \<longleftrightarrow> ev_MAC e \<notin> y_gone y \<and> (\<forall>c \<in> y_cuts y. c \<le> ev_TS e)"

text \<open>The stored presence of a device, together with what the batch under way will add.\<close>

definition settled :: "sys \<Rightarrow> string \<Rightarrow> presence option" where
  "settled y mac = map_option (\<lambda>p. fold (\<lambda>u p. sup p (update_presence u)) (updates_for mac (b_Seen (flight_batch y))) p)
     (presence_at (y_db y) mac)"

definition wf_sys :: "sys \<Rightarrow> bool" where
  "wf_sys y \<longleftrightarrow> wf_db (y_db y) \<and> wf_state (y_mem y) \<and> (\<forall>devs \<in> set (y_loads y). wf_devices devs) \<and>
     (\<forall>e \<in> set (b_Events (flight_batch y)) \<union> set (s_events (y_mem y)). NormMAC (ev_MAC e) = ev_MAC e) \<and>
     (\<forall>u \<in> set (b_Seen (flight_batch y)). NormMAC (su_MAC u) = su_MAC u)"

definition log_inv :: "sys \<Rightarrow> bool" where
  "log_inv y \<longleftrightarrow> filter (kept y) (all_events y) = filter (kept y) (y_log y)"

definition ahead_inv :: "sys \<Rightarrow> bool" where
  "ahead_inv y \<longleftrightarrow>
     (\<forall>mac ds. mac \<notin> y_gone y \<longrightarrow> s_devs (y_mem y) mac = Some ds \<longrightarrow>
        presence_at (y_db y) mac \<noteq> None \<and>
        (\<not> ds_dirty ds \<longrightarrow> presence_ahead (Some (dev_presence ds)) (settled y mac))) \<and>
     (\<forall>devs \<in> set (y_loads y). \<forall>d \<in> set devs. d_MAC d \<notin> y_gone y \<longrightarrow>
        presence_ahead (Some (device_presence d)) (presence_at (y_db y) (d_MAC d)))"

definition journal_inv :: "sys \<Rightarrow> bool" where
  "journal_inv y \<longleftrightarrow> wf_sys y \<and> log_inv y \<and> ahead_inv y"

end
