(* ===== verification/JournalProps.thy ===== *)
theory JournalProps
  imports Journal
begin

text \<open>
  The journal machine keeps its invariant: both sides stay well formed, no transition row is
  lost or written twice whatever fails in between, and the store never falls behind a device
  that is not marked dirty.
\<close>

section \<open>Frames of the model's operations\<close>

lemma clearLive_frame [simp]:
  "s_events (clearLive s) = s_events s" "s_order (clearLive s) = s_order s"
  "s_obs (clearLive s) = s_obs s" "s_ipMoves (clearLive s) = s_ipMoves s"
  by (simp_all add: clearLive_def)

lemma touch_frame [simp]:
  "s_devs (touchObserved mac ip name now s) = s_devs s"
  "s_events (touchObserved mac ip name now s) = s_events s"
  by (simp_all add: touchObserved_def Let_def)

lemma forget_frame [simp]:
  "s_devs (forgetObserved mac s) = s_devs s" "s_events (forgetObserved mac s) = s_events s"
  by (simp_all add: forgetObserved_def)

lemma prune_step_frame [simp]:
  "s_devs (prune_step t mac s) = s_devs s" "s_events (prune_step t mac s) = s_events s"
  by (simp_all add: prune_step_def split: option.splits)

lemma prune_frame [simp]:
  "s_devs (pruneObserved ks t s) = s_devs s" "s_events (pruneObserved ks t s) = s_events s"
  unfolding pruneObserved_def by (induction ks arbitrary: s) simp_all

lemma load_obs_frame [simp]:
  "s_devs (fold load_obs_step xs s) = s_devs s" "s_events (fold load_obs_step xs s) = s_events s"
  by (induction xs arbitrary: s) (simp_all add: load_obs_step_def split: option.splits)

lemma LoadObserved_frame [simp]:
  "s_devs (snd (state_LoadObserved f t db s)) = s_devs s"
  "s_events (snd (state_LoadObserved f t db s)) = s_events s"
  by (simp_all add: state_LoadObserved_def split: sum.splits)

lemma flight_batch_simps [simp]:
  "flight_batch (y\<lparr>y_db := d\<rparr>) = flight_batch y" "flight_batch (y\<lparr>y_mem := m\<rparr>) = flight_batch y"
  "flight_batch (y\<lparr>y_loads := l\<rparr>) = flight_batch y" "flight_batch (y\<lparr>y_log := g\<rparr>) = flight_batch y"
  "flight_batch (y\<lparr>y_gone := G\<rparr>) = flight_batch y" "flight_batch (y\<lparr>y_cuts := C\<rparr>) = flight_batch y"
  by (simp_all add: flight_batch_def)

lemma flight_batch_flight:
  "flight_batch (y\<lparr>y_flight := Idle\<rparr>) = \<lparr>b_Seen = [], b_Events = [], b_Obs = [], b_IPMoves = []\<rparr>"
  "flight_batch (y\<lparr>y_flight := Drained b\<rparr>) = b" "flight_batch (y\<lparr>y_flight := Failed b\<rparr>) = b"
  "y_flight y = Drained b \<Longrightarrow> flight_batch y = b" "y_flight y = Failed b \<Longrightarrow> flight_batch y = b"
  "y_flight y = Idle \<Longrightarrow> flight_batch y = \<lparr>b_Seen = [], b_Events = [], b_Obs = [], b_IPMoves = []\<rparr>"
  by (simp_all add: flight_batch_def)

lemma batch_Empty_flight: "batch_Empty b \<Longrightarrow> b_Seen b = [] \<and> b_Events b = []"
  by (simp add: batch_Empty_def)

text \<open>What a drain leaves under way, whether or not there was anything to write.\<close>

lemma flight_Drain:
  assumes "y_flight y = Idle"
  shows "b_Seen (flight_batch (perform (Drain kd ko km) y)) = b_Seen (fst (drain kd ko km (y_mem y))) \<and>
    b_Events (flight_batch (perform (Drain kd ko km) y)) = s_events (y_mem y)"
proof -
  obtain b s where d: "drain kd ko km (y_mem y) = (b, s)" by (cases "drain kd ko km (y_mem y)")
  then have "b_Events b = s_events (y_mem y)" using drain_frame(6) [of kd ko km "y_mem y"] by simp
  with d show ?thesis
    using batch_Empty_flight [of b]
    by (auto simp: Let_def flight_batch_flight)
qed

lemma perform_Drain [simp]:
  "y_db (perform (Drain kd ko km) y) = y_db y" "y_mem (perform (Drain kd ko km) y) = snd (drain kd ko km (y_mem y))"
  "y_loads (perform (Drain kd ko km) y) = y_loads y" "y_log (perform (Drain kd ko km) y) = y_log y"
  "y_gone (perform (Drain kd ko km) y) = y_gone y" "y_cuts (perform (Drain kd ko km) y) = y_cuts y"
  by (simp_all add: case_prod_unfold Let_def)

lemma commit_cases:
  assumes "enabled (Commit f t) y"
  obtains (ok) b db where "y_flight y = Drained b" "store_Flush f t b (y_db y) = (None, db)"
      "perform (Commit f t) y = y\<lparr>y_db := db, y_flight := Idle\<rparr>"
    | (error) b e where "y_flight y = Drained b" "store_Flush f t b (y_db y) = (Some e, y_db y)"
      "perform (Commit f t) y = y\<lparr>y_flight := Failed b\<rparr>"
proof -
  obtain b where b: "y_flight y = Drained b" using assms by (auto split: flight.splits)
  obtain e db where fl: "store_Flush f t b (y_db y) = (e, db)" by (cases "store_Flush f t b (y_db y)")
  show thesis
  proof (cases e)
    case None
    with b fl show thesis by (intro ok [of b db]) simp_all
  next
    case (Some x)
    with fl have "db = y_db y" by (auto dest: Flush_error)
    with b fl Some show thesis by (intro error [of b x]) simp_all
  qed
qed

lemma restore_cases:
  assumes "enabled Restore y"
  obtains b where "y_flight y = Failed b" "perform Restore y = y\<lparr>y_mem := restore b (y_mem y), y_flight := Idle\<rparr>"
  using assms by (auto split: flight.splits)

section \<open>Both sides stay well formed\<close>

lemma probe_rows_norm:
  assumes "wf_state s" and "e \<in> set (probe_rows results now s k)"
  shows "NormMAC (ev_MAC e) = ev_MAC e"
proof -
  obtain ds where "s_devs s k = Some ds"
    using assms(2) by (cases "s_devs s k") (auto simp: probe_rows_def split: option.splits)
  with assms show ?thesis
    using probe_rows_mac [OF assms(2)] by (auto simp: wf_state_def dev_ok_def)
qed

lemma applyProbes_norm:
  assumes "wf_state s" and "distinct ks" and "e \<in> set (s_events (applyProbes ks results now s))"
  shows "e \<in> set (s_events s) \<or> NormMAC (ev_MAC e) = ev_MAC e"
  using assms probe_rows_norm [OF assms(1)] by (auto simp: applyProbes_events)

lemma drain_seen_norm:
  "wf_state s \<Longrightarrow> u \<in> set (b_Seen (fst (drain kd ko km s))) \<Longrightarrow> NormMAC (su_MAC u) = su_MAC u"
  by (auto simp: drain_seen dev_update_def wf_state_def dev_ok_def)

lemmas wf_mem = wf_applyNeigh wf_applyProbes wf_clearLive wf_touchObserved wf_forgetObserved
  wf_pruneObserved wf_LoadObserved wf_load_merge wf_drain wf_restore

lemma wf_sys_step:
  assumes "wf_sys y" and "enabled a y"
  shows "wf_sys (perform a y)"
proof (cases a)
  case (Neigh ks byMAC now)
  with assms show ?thesis by (simp add: wf_sys_def wf_mem)
next
  case (Probes ks results now)
  with assms have "NormMAC (ev_MAC e) = ev_MAC e"
    if "e \<in> set (s_events (applyProbes ks results now (y_mem y)))" for e
    using applyProbes_norm [OF _ _ that] by (auto simp: wf_sys_def enumerates_def)
  with Probes assms show ?thesis by (auto simp: wf_sys_def wf_mem)
next
  case (Drain kd ko km)
  with assms flight_Drain [of y kd ko km] show ?thesis
    using drain_seen_norm [of "y_mem y" _ kd ko km]
    by (auto simp: wf_sys_def wf_mem simp del: perform.simps)
next
  case (Commit f t)
  from assms(2) [unfolded Commit] show ?thesis
  proof (cases rule: commit_cases)
    case (ok b db)
    with assms(1) wf_Flush [of "y_db y" f t b] Commit show ?thesis
      by (simp add: wf_sys_def flight_batch_flight del: perform.simps)
  next
    case (error b e)
    with assms(1) Commit show ?thesis
      by (simp add: wf_sys_def flight_batch_flight del: perform.simps)
  qed
next
  case Restore
  from assms(2) [unfolded Restore] obtain b where
    "y_flight y = Failed b" "perform Restore y = y\<lparr>y_mem := restore b (y_mem y), y_flight := Idle\<rparr>"
    by (rule restore_cases)
  with assms(1) Restore show ?thesis
    by (auto simp add: wf_sys_def flight_batch_flight wf_mem simp del: perform.simps)
next
  case (ReadDevices f)
  with assms show ?thesis
    by (auto simp: wf_sys_def split: sum.splits intro: store_List_wf)
next
  case (MergeDevices i)
  with assms show ?thesis
    by (auto simp: wf_sys_def wf_mem dest: in_set_takeD in_set_dropD)
next
  case (StoreCall f c)
  with assms show ?thesis by (simp add: wf_sys_def wf_run_call)
next
  case (BackfillStep f k mac)
  with assms show ?thesis by (simp add: wf_sys_def wf_backfillOne)
qed (use assms in \<open>simp_all add: wf_sys_def wf_mem\<close>)

section \<open>No transition row is lost or doubled\<close>

lemma log_inv_same:
  assumes "log_inv y" and "all_events y' = all_events y" and "y_log y' = y_log y"
    and "y_gone y' = y_gone y" and "y_cuts y' = y_cuts y"
  shows "log_inv y'"
proof -
  have "kept y' = kept y" using assms(4,5) by (simp add: kept_def fun_eq_iff)
  with assms show ?thesis by (simp add: log_inv_def)
qed

lemma events_run_call:
  assumes "\<And>t b. c \<noteq> C_Flush t b" and "c \<noteq> C_Backfill"
    and "\<And>e. P e \<Longrightarrow> ev_MAC e \<notin> gone_by c \<and> (\<forall>t \<in> cut_by c. t \<le> ev_TS e)"
  shows "filter P (t_seen_events (run_call f c db)) = filter P (t_seen_events db)"
proof (cases c)
  case (C_Delete mac)
  have P: "(\<lambda>x. ev_MAC x \<noteq> NormMAC mac \<and> P x) = P"
    using assms(3) by (auto simp: C_Delete gone_by_def fun_eq_iff)
  have "filter P (t_seen_events (snd (store_Delete f mac db))) = filter P (t_seen_events db)"
    unfolding store_Delete_def
    by (rule exec_all_invariant [where P = "\<lambda>d. filter P (t_seen_events d) = filter P (t_seen_events db)"])
      (auto simp: delete_statements_def delete_where_def P)
  with C_Delete show ?thesis by simp
next
  case (C_PruneSeenEvents t)
  then have "(\<lambda>x. t \<le> ev_TS x \<and> P x) = P"
    using assms(3) by (auto simp: cut_by_def fun_eq_iff)
  with C_PruneSeenEvents show ?thesis
    by (simp add: store_PruneSeenEvents_def delete_where_def not_less)
qed (use assms(1,2) in \<open>auto simp: store_Add_def store_Patch_def store_AddProbe_def store_DeleteProbe_def
    store_PruneObserved_def store_DeleteObserved_def Let_def\<close>)

lemma log_inv_call:
  assumes "log_inv y" and "enabled (StoreCall f c) y"
  shows "log_inv (perform (StoreCall f c) y)"
proof -
  let ?y' = "perform (StoreCall f c) y"
  have k: "kept ?y' e \<longleftrightarrow> kept y e \<and> ev_MAC e \<notin> gone_by c \<and> (\<forall>t \<in> cut_by c. t \<le> ev_TS e)" for e
    by (auto simp: kept_def)
  have ev: "filter (kept ?y') (t_seen_events (run_call f c (y_db y))) = filter (kept ?y') (t_seen_events (y_db y))"
    using assms(2) by (intro events_run_call) (auto simp del: perform.simps simp: k split: store_call.splits)
  have "filter (kept ?y') (all_events ?y') = filter (kept ?y') (all_events y)"
    using ev by (simp add: all_events_def)
  also have "\<dots> = filter (kept ?y') (filter (kept y) (all_events y))"
    by (rule filter_imp [symmetric]) (simp only: k)
  also have "\<dots> = filter (kept ?y') (filter (kept y) (y_log y))"
    using assms(1) by (simp only: log_inv_def)
  also have "\<dots> = filter (kept ?y') (y_log y)"
    by (rule filter_imp) (simp only: k)
  finally show ?thesis by (simp add: log_inv_def)
qed

lemma norm_events_id: "\<forall>e \<in> set es. NormMAC (ev_MAC e) = ev_MAC e \<Longrightarrow>
  map (\<lambda>e. e\<lparr>ev_MAC := NormMAC (ev_MAC e)\<rparr>) es = es"
  by (induction es) auto

lemma log_inv_step:
  assumes "log_inv y" and "wf_sys y" and "enabled a y"
  shows "log_inv (perform a y)"
proof (cases a)
  case (Probes ks results now)
  with assms(3) have "s_events (applyProbes ks results now (y_mem y)) =
      s_events (y_mem y) @ probe_events ks results now (y_mem y)"
    by (auto simp: probe_events_def applyProbes_events enumerates_def)
  moreover have "kept (perform a y) = kept y" by (simp add: Probes kept_def fun_eq_iff)
  ultimately show ?thesis using assms(1) Probes
    by (auto simp: log_inv_def all_events_def)
next
  case (Drain kd ko km)
  with assms flight_Drain [of y kd ko km] show ?thesis
    by (intro log_inv_same [OF assms(1)])
      (simp_all add: all_events_def flight_batch_flight del: perform.simps)
next
  case (Commit f t)
  from assms(3) [unfolded Commit] show ?thesis
  proof (cases rule: commit_cases)
    case (ok b db)
    have "map (\<lambda>e. e\<lparr>ev_MAC := NormMAC (ev_MAC e)\<rparr>) (b_Events b) = b_Events b"
      using assms(2) ok by (intro norm_events_id) (auto simp: wf_sys_def flight_batch_flight)
    with events_Flush [OF ok(2)] ok Commit show ?thesis
      by (intro log_inv_same [OF assms(1)])
        (simp_all add: all_events_def flight_batch_flight del: perform.simps)
  next
    case (error b e)
    with Commit show ?thesis
      by (intro log_inv_same [OF assms(1)])
        (simp_all add: all_events_def flight_batch_flight del: perform.simps)
  qed
next
  case Restore
  from assms(3) [unfolded Restore] obtain b where
    "y_flight y = Failed b" "perform Restore y = y\<lparr>y_mem := restore b (y_mem y), y_flight := Idle\<rparr>"
    by (rule restore_cases)
  with Restore show ?thesis
    by (intro log_inv_same [OF assms(1)])
      (simp_all add: all_events_def flight_batch_flight del: perform.simps)
next
  case (ReadDevices f)
  then show ?thesis
    by (intro log_inv_same [OF assms(1)]) (simp_all add: all_events_def split: sum.splits)
next
  case (StoreCall f c)
  with assms log_inv_call show ?thesis by blast
next
  case (BackfillStep f k mac)
  then show ?thesis
    by (intro log_inv_same [OF assms(1)]) (simp_all add: all_events_def backfillOne_def Let_def)
qed (intro log_inv_same [OF assms(1)]; simp add: all_events_def)+

section \<open>The store never falls behind a clean device\<close>

lemma fold_sup_bounds:
  "p \<le> fold (\<lambda>u p. sup p (g u)) us (p :: presence)"
  "u \<in> set us \<Longrightarrow> g u \<le> fold (\<lambda>u p. sup p (g u)) us (p :: presence)"
  using fold_sup_le [of g us p "fold (\<lambda>u p. sup p (g u)) us p"] by blast+

lemma fold_sup_mono:
  assumes "p \<le> q"
  shows "fold (\<lambda>u p. sup p (g u)) us p \<le> fold (\<lambda>u p. sup p (g u)) us (q :: presence)"
  unfolding fold_sup_le
  by (intro conjI ballI order_trans [OF assms fold_sup_bounds(1)] fold_sup_bounds(2))

lemma presence_ahead_Some: "presence_ahead (Some p) r \<longleftrightarrow> r \<noteq> None \<and> p \<le> the r"
  by (cases r) (simp_all add: presence_ahead_def)

lemma presence_ahead_sup_Some:
  "presence_ahead (Some p) r \<Longrightarrow> presence_ahead (Some q) r \<Longrightarrow> presence_ahead (Some (sup p q)) r"
  by (simp add: presence_ahead_Some)

lemma settled_ahead: "presence_ahead (presence_at (y_db y) mac) (settled y mac)"
  by (cases "presence_at (y_db y) mac")
    (simp_all add: settled_def presence_ahead_def fold_sup_bounds(1))

lemma settled_update:
  assumes "presence_at (y_db y) mac \<noteq> None" and "u \<in> set (b_Seen (flight_batch y))" and "NormMAC (su_MAC u) = mac"
  shows "presence_ahead (Some (update_presence u)) (settled y mac)"
proof -
  have "u \<in> set (updates_for mac (b_Seen (flight_batch y)))"
    using assms(2,3) by (simp add: updates_for_def)
  then show ?thesis
    using assms(1) by (cases "presence_at (y_db y) mac") (simp_all add: settled_def presence_ahead_def fold_sup_bounds(2))
qed

lemma settled_mono:
  assumes "presence_ahead (presence_at (y_db y) mac) (presence_at (y_db y') mac)"
    and "b_Seen (flight_batch y') = b_Seen (flight_batch y)"
  shows "presence_ahead (settled y mac) (settled y' mac)"
  using assms
  by (cases "presence_at (y_db y) mac"; cases "presence_at (y_db y') mac")
    (simp_all add: settled_def presence_ahead_def fold_sup_mono)

lemma settled_idle: "updates_for mac (b_Seen (flight_batch y)) = [] \<Longrightarrow> settled y mac = presence_at (y_db y) mac"
  by (simp add: settled_def option.map_ident)

lemma settled_cong: "y_db y = y_db y' \<Longrightarrow> b_Seen (flight_batch y) = b_Seen (flight_batch y') \<Longrightarrow>
  settled y mac = settled y' mac"
  by (simp add: settled_def)

lemma ahead_invI:
  assumes "\<And>mac ds. mac \<notin> y_gone y \<Longrightarrow> s_devs (y_mem y) mac = Some ds \<Longrightarrow> presence_at (y_db y) mac \<noteq> None"
    and "\<And>mac ds. mac \<notin> y_gone y \<Longrightarrow> s_devs (y_mem y) mac = Some ds \<Longrightarrow> \<not> ds_dirty ds \<Longrightarrow>
      presence_ahead (Some (dev_presence ds)) (settled y mac)"
    and "\<And>devs d. devs \<in> set (y_loads y) \<Longrightarrow> d \<in> set devs \<Longrightarrow> d_MAC d \<notin> y_gone y \<Longrightarrow>
      presence_ahead (Some (device_presence d)) (presence_at (y_db y) (d_MAC d))"
  shows "ahead_inv y"
  using assms unfolding ahead_inv_def by blast

lemma ahead_invD:
  assumes "ahead_inv y"
  shows "mac \<notin> y_gone y \<Longrightarrow> s_devs (y_mem y) mac = Some ds \<Longrightarrow> presence_at (y_db y) mac \<noteq> None"
    and "mac \<notin> y_gone y \<Longrightarrow> s_devs (y_mem y) mac = Some ds \<Longrightarrow> \<not> ds_dirty ds \<Longrightarrow>
      presence_ahead (Some (dev_presence ds)) (settled y mac)"
    and "devs \<in> set (y_loads y) \<Longrightarrow> d \<in> set devs \<Longrightarrow> d_MAC d \<notin> y_gone y \<Longrightarrow>
      presence_ahead (Some (device_presence d)) (presence_at (y_db y) (d_MAC d))"
  using assms unfolding ahead_inv_def by blast+

text \<open>Steps on the model that never clear a dirty mark and keep the presence of clean devices.\<close>

lemma ahead_inv_mem:
  assumes inv: "ahead_inv y"
    and y': "y_db y' = y_db y" "b_Seen (flight_batch y') = b_Seen (flight_batch y)" "y_gone y' = y_gone y"
      "y_loads y' = y_loads y"
    and dev: "\<And>mac ds'. s_devs (y_mem y') mac = Some ds' \<Longrightarrow> \<exists>ds. s_devs (y_mem y) mac = Some ds \<and>
      (\<not> ds_dirty ds' \<longrightarrow> \<not> ds_dirty ds \<and> dev_presence ds' = dev_presence ds)"
  shows "ahead_inv y'"
  using inv dev settled_cong [OF y'(1,2)] unfolding ahead_inv_def y' by metis

text \<open>Steps on the store alone.\<close>

lemma ahead_inv_db:
  assumes inv: "ahead_inv y"
    and y': "y_mem y' = y_mem y" "b_Seen (flight_batch y') = b_Seen (flight_batch y)" "y_gone y \<subseteq> y_gone y'"
      "y_loads y' = y_loads y"
    and db: "\<And>mac. mac \<notin> y_gone y' \<Longrightarrow> presence_ahead (presence_at (y_db y) mac) (presence_at (y_db y') mac)"
  shows "ahead_inv y'"
  unfolding ahead_inv_def y'
proof (intro conjI allI impI ballI)
  fix mac ds
  assume g: "mac \<notin> y_gone y'" and d: "s_devs (y_mem y) mac = Some ds"
  from g y'(3) have g0: "mac \<notin> y_gone y" by blast
  with inv d have p: "presence_at (y_db y) mac \<noteq> None" by (simp add: ahead_inv_def)
  with db [OF g] show "presence_at (y_db y') mac \<noteq> None"
    by (auto simp: presence_ahead_def split: option.splits)
  assume "\<not> ds_dirty ds"
  with inv d g0 have "presence_ahead (Some (dev_presence ds)) (settled y mac)" by (simp add: ahead_inv_def)
  also have "presence_ahead (settled y mac) (settled y' mac)"
    using db [OF g] y'(2) by (rule settled_mono)
  finally show "presence_ahead (Some (dev_presence ds)) (settled y' mac)" .
next
  fix devs d
  assume l: "devs \<in> set (y_loads y)" "d \<in> set devs" and g: "d_MAC d \<notin> y_gone y'"
  from g y'(3) have "d_MAC d \<notin> y_gone y" by blast
  with inv l have "presence_ahead (Some (device_presence d)) (presence_at (y_db y) (d_MAC d))"
    unfolding ahead_inv_def by blast
  also have "presence_ahead (presence_at (y_db y) (d_MAC d)) (presence_at (y_db y') (d_MAC d))"
    using db [OF g] .
  finally show "presence_ahead (Some (device_presence d)) (presence_at (y_db y') (d_MAC d))" .
qed

lemma List_presence:
  assumes "wf_db db" and "store_List f db = Inr devs" and "d \<in> set devs"
  shows "presence_at db (d_MAC d) = Some (device_presence d)"
proof -
  obtain r where r: "r \<in> set (t_devices db)" "d_MAC d = r_mac r" "d_IcmpSeen d = (r_icmp_seen r = 1)"
    "d_LastSeenUp d = r_last_seen_up r" "d_LastSeen d = r_last_seen r"
    using list_all2_in_set2 [OF store_List_rows [OF assms(2)] assms(3)] by auto
  then have "dev_at db (d_MAC d) = Some r" and "r_icmp_seen r \<in> {0, 1}"
    using assms(1) table_map_in [of r_mac "t_devices db" r]
    by (auto simp: wf_db_def wf_rows_def dev_at_def)
  with r show ?thesis
    by (auto simp: presence_at_def row_presence_def device_presence_def boolInt_def)
qed

lemma update_dev_presence: "update_presence (dev_update mac ds) = dev_presence ds"
  by (simp add: update_presence_def dev_update_def dev_presence_def)

lemma ahead_Drain:
  assumes inv: "ahead_inv y" and wf: "wf_sys y" and en: "enabled (Drain kd ko km) y"
  shows "ahead_inv (perform (Drain kd ko km) y)"
proof -
  let ?y' = "perform (Drain kd ko km) y"
  have kd: "set kd = dom (s_devs (y_mem y))" and idle: "y_flight y = Idle"
    using en by (auto simp: enumerates_def)
  have seen: "b_Seen (flight_batch ?y') = b_Seen (fst (drain kd ko km (y_mem y)))"
    using flight_Drain [OF idle] by blast
  have "presence_ahead (Some (dev_presence ds)) (settled ?y' mac)"
    if g: "mac \<notin> y_gone y" and d: "s_devs (y_mem y) mac = Some ds" for mac ds
  proof (cases "ds_dirty ds")
    case True
    have "dev_update mac ds \<in> set (b_Seen (flight_batch ?y'))"
      using d kd True unfolding seen drain_seen by blast
    moreover have "NormMAC (su_MAC (dev_update mac ds)) = mac"
      using wf d by (auto simp: wf_sys_def wf_state_def dev_ok_def dev_update_def)
    moreover have "presence_at (y_db ?y') mac \<noteq> None"
      using inv g d unfolding perform_Drain ahead_inv_def by blast
    ultimately show ?thesis
      using settled_update [of ?y' mac "dev_update mac ds"] by (simp add: update_dev_presence del: perform.simps)
  next
    case False
    have "presence_ahead (Some (dev_presence ds)) (settled y mac)"
      using inv g d False by (simp add: ahead_inv_def)
    also have "settled y mac = presence_at (y_db y) mac"
      using idle by (intro settled_idle) (simp add: flight_batch_flight updates_for_def)
    also have "presence_ahead \<dots> (settled ?y' mac)"
      using settled_ahead [of ?y' mac] unfolding perform_Drain .
    finally show ?thesis .
  qed
  note new = this
  have old: "\<exists>ds. s_devs (y_mem y) mac = Some ds \<and> dev_presence ds' = dev_presence ds"
    if "s_devs (y_mem ?y') mac = Some ds'" for mac ds'
    using that unfolding perform_Drain drain_devs by (auto simp: dev_presence_def)
  show ?thesis
  proof (rule ahead_invI; unfold perform_Drain(1,3,5))
    fix mac ds
    assume g: "mac \<notin> y_gone y" and "s_devs (y_mem ?y') mac = Some ds"
    with old obtain ds0 where d: "s_devs (y_mem y) mac = Some ds0" "dev_presence ds = dev_presence ds0" by blast
    from ahead_invD(1) [OF inv g d(1)] show "presence_at (y_db y) mac \<noteq> None" .
    from new [OF g d(1)] d(2) show "presence_ahead (Some (dev_presence ds)) (settled ?y' mac)" by simp
  qed (rule ahead_invD(3) [OF inv])
qed

lemma ahead_Commit:
  assumes inv: "ahead_inv y" and en: "enabled (Commit f t) y"
  shows "ahead_inv (perform (Commit f t) y)"
  using en
proof (cases rule: commit_cases)
  case (ok b db)
  let ?y' = "perform (Commit f t) y"
  have up: "presence_ahead (presence_at (y_db y) mac) (presence_at db mac)" for mac
    using ahead_Flush [of "y_db y" mac f t b] ok(2) by simp
  have "settled ?y' mac = settled y mac" for mac
    unfolding ok(3) using presence_Flush [OF ok(2)] ok(1)
    by (simp add: settled_def flight_batch_flight updates_for_def option.map_ident)
  moreover have "presence_at db mac \<noteq> None" if "presence_at (y_db y) mac \<noteq> None" for mac
    using up [of mac] that by (auto simp: presence_ahead_def split: option.splits)
  moreover have "presence_ahead p (presence_at db mac)" if "presence_ahead p (presence_at (y_db y) mac)" for p mac
    using that up by (rule presence_ahead_trans)
  ultimately show ?thesis
    using ahead_invD [OF inv] by (intro ahead_invI) (simp_all add: ok(3) del: perform.simps)
next
  case (error b e)
  have "settled (perform (Commit f t) y) mac = settled y mac" for mac
    using error by (intro settled_cong) (simp_all add: flight_batch_flight del: perform.simps)
  then show ?thesis
    using ahead_invD [OF inv] by (intro ahead_invI) (simp_all add: error(3) del: perform.simps)
qed

lemma ahead_Restore:
  assumes inv: "ahead_inv y" and wf: "wf_sys y" and en: "enabled Restore y"
  shows "ahead_inv (perform Restore y)"
proof -
  from en obtain b where b: "y_flight y = Failed b"
    and p: "perform Restore y = y\<lparr>y_mem := restore b (y_mem y), y_flight := Idle\<rparr>"
    by (rule restore_cases)
  have s: "settled (perform Restore y) mac = presence_at (y_db y) mac" for mac
    unfolding p by (simp add: settled_def flight_batch_flight updates_for_def option.map_ident)
  have c: "settled y mac = presence_at (y_db y) mac" if "mac \<notin> su_MAC ` set (b_Seen b)" for mac
  proof (rule settled_idle)
    have "NormMAC (su_MAC u) = su_MAC u" if "u \<in> set (b_Seen b)" for u
      using wf b that by (auto simp: wf_sys_def flight_batch_flight)
    with \<open>mac \<notin> _\<close> show "updates_for mac (b_Seen (flight_batch y)) = []"
      using b by (auto simp: updates_for_def flight_batch_flight filter_empty_conv)
  qed
  have d: "dev_presence (mark_dirty b mac ds) = dev_presence ds" for mac ds
    by (simp add: mark_dirty_def dev_presence_def)
  have nd: "\<not> ds_dirty (mark_dirty b mac ds) \<Longrightarrow> \<not> ds_dirty ds \<and> mac \<notin> su_MAC ` set (b_Seen b)" for mac ds
    by (auto simp: mark_dirty_def split: if_splits)
  have db: "y_db (perform Restore y) = y_db y" "y_gone (perform Restore y) = y_gone y"
    "y_loads (perform Restore y) = y_loads y" "y_mem (perform Restore y) = restore b (y_mem y)"
    unfolding p by simp_all
  show ?thesis
  proof (rule ahead_invI; unfold s db restore_devs)
    fix mac ds
    assume g: "mac \<notin> y_gone y" and "map_option (mark_dirty b mac) (s_devs (y_mem y) mac) = Some ds"
    then obtain ds0 where d0: "s_devs (y_mem y) mac = Some ds0" "ds = mark_dirty b mac ds0"
      by (auto simp: map_option_eq_Some)
    from ahead_invD(1) [OF inv g d0(1)] show "presence_at (y_db y) mac \<noteq> None" .
    assume "\<not> ds_dirty ds"
    with d0(2) nd have "\<not> ds_dirty ds0" and m: "mac \<notin> su_MAC ` set (b_Seen b)" by blast+
    with ahead_invD(2) [OF inv g d0(1)] have "presence_ahead (Some (dev_presence ds0)) (settled y mac)" by blast
    then show "presence_ahead (Some (dev_presence ds)) (presence_at (y_db y) mac)"
      unfolding c [OF m] d0(2) d .
  qed (rule ahead_invD(3) [OF inv])
qed

end
