(* ===== verification/JournalSpecs.thy ===== *)
theory JournalSpecs
  imports JournalProps
begin

text \<open>
  The remaining steps of the journal machine, its invariant as an interpretation of the state
  machine contract, and the properties of the server's persistence: exactly-once transition
  rows, durability of clean devices, well-formedness, and a shutdown that loses nothing.
\<close>

lemma ahead_Merge:
  assumes inv: "ahead_inv y" and wf: "wf_sys y" and i: "i < length (y_loads y)"
  shows "ahead_inv (perform (MergeDevices i) y)"
proof -
  let ?devs = "y_loads y ! i" and ?y' = "perform (MergeDevices i) y"
  have devs: "?devs \<in> set (y_loads y)" using i by simp
  then have wd: "wf_devices ?devs" using wf by (simp add: wf_sys_def)
  have st: "settled ?y' mac = settled y mac" for mac
    by (intro settled_cong) simp_all
  have load: "presence_ahead (Some (device_presence d)) (presence_at (y_db y) mac)"
    if "table_map d_MAC ?devs mac = Some d" "mac \<notin> y_gone y" for mac d
    using ahead_invD(3) [OF inv devs, of d] table_map_key [OF that(1)] that(2) by simp
  show ?thesis
  proof (rule ahead_invI)
    fix mac ds
    assume g: "mac \<notin> y_gone ?y'" and m: "s_devs (y_mem ?y') mac = Some ds"
    have "map_option (load_dev (y_mem y)) (table_map d_MAC ?devs mac) = Some ds"
      using m unfolding load_merge_devs [OF wd, symmetric] by simp
    then obtain d where d: "table_map d_MAC ?devs mac = Some d" "ds = load_dev (y_mem y) d"
      by (auto simp: map_option_eq_Some)
    from g have g: "mac \<notin> y_gone y" by simp
    have k: "d_MAC d = mac" using table_map_key [OF d(1)] by simp
    note l = load [OF d(1) g]
    then show "presence_at (y_db ?y') mac \<noteq> None" by (simp add: presence_ahead_Some)
    assume nd: "\<not> ds_dirty ds"
    have ls: "presence_ahead (Some (device_presence d)) (settled y mac)"
      using l settled_ahead [of y mac] by (rule presence_ahead_trans)
    show "presence_ahead (Some (dev_presence ds)) (settled ?y' mac)"
    proof (cases "s_devs (y_mem y) mac")
      case None
      with ls d k show ?thesis unfolding st by (simp add: load_presence)
    next
      case (Some ds0)
      with nd d k have "\<not> ds_dirty ds0" by (simp add: load_dirty)
      from ahead_invD(2) [OF inv g Some this] ls show ?thesis
        unfolding st by (simp add: d(2) load_presence k Some presence_ahead_sup_Some)
    qed
  next
    fix devs d
    assume "devs \<in> set (y_loads ?y')" "d \<in> set devs" "d_MAC d \<notin> y_gone ?y'"
    then show "presence_ahead (Some (device_presence d)) (presence_at (y_db ?y') (d_MAC d))"
      using ahead_invD(3) [OF inv, of devs d] by (auto dest: in_set_takeD in_set_dropD)
  qed
qed

lemma ahead_Read:
  assumes inv: "ahead_inv y" and wf: "wf_sys y"
  shows "ahead_inv (perform (ReadDevices f) y)"
proof (cases "store_List f (y_db y)")
  case (Inl e)
  with inv show ?thesis by simp
next
  case (Inr devs)
  have "settled (y\<lparr>y_loads := l\<rparr>) mac = settled y mac" for l mac
    by (intro settled_cong) simp_all
  moreover have "presence_ahead (Some (device_presence d)) (presence_at (y_db y) (d_MAC d))" if "d \<in> set devs" for d
    using List_presence [OF _ Inr that] wf by (simp add: wf_sys_def presence_ahead_Some)
  ultimately show ?thesis
    using ahead_invD [OF inv] Inr by (intro ahead_invI) auto
qed

lemma ahead_run_call_not_flush:
  assumes "mac \<notin> gone_by c"
  shows "presence_ahead (presence_at db mac) (presence_at (run_call f c db) mac)"
  using assms by (intro ahead_run_call) (auto simp: deletes_def gone_by_def split: store_call.splits)

lemma ahead_step:
  assumes inv: "ahead_inv y" and wf: "wf_sys y" and en: "enabled a y"
  shows "ahead_inv (perform a y)"
proof (cases a)
  case (Neigh ks byMAC now)
  with en show ?thesis
    by (intro ahead_inv_mem [OF inv])
      (auto simp: applyNeigh_devs enumerates_def dest: presence_clean_neigh split: if_splits)
next
  case (Probes ks results now)
  with en show ?thesis
    by (intro ahead_inv_mem [OF inv])
      (auto simp: applyProbes_devs enumerates_def split: if_splits option.splits dest: presence_clean_probe)
next
  case ClearLive
  then show ?thesis
    by (intro ahead_inv_mem [OF inv]) (auto simp: clearLive_def dev_presence_def)
next
  case (Drain kd ko km)
  with inv wf en ahead_Drain show ?thesis by blast
next
  case (Commit f t)
  with inv en ahead_Commit show ?thesis by blast
next
  case Restore
  with inv wf en ahead_Restore show ?thesis by blast
next
  case (ReadDevices f)
  with inv wf ahead_Read show ?thesis by blast
next
  case (MergeDevices i)
  with inv wf en ahead_Merge show ?thesis by simp
next
  case (StoreCall f c)
  then show ?thesis
    by (intro ahead_inv_db [OF inv]) (auto intro: ahead_run_call_not_flush)
next
  case (BackfillStep f k mac)
  then show ?thesis
    by (intro ahead_inv_db [OF inv]) (auto intro: presence_backfillOne)
next
  case DropHistory
  then show ?thesis by (intro ahead_inv_db [OF inv]) auto
qed (auto intro!: ahead_inv_mem [OF inv])

section \<open>The invariant\<close>

interpretation journal: action_machine boot server_step journal_inv enabled perform
proof
  fix y
  assume "boot y"
  then show "journal_inv y"
    by (simp add: boot_def journal_inv_def wf_sys_def log_inv_def ahead_inv_def all_events_def
        flight_batch_def wf_newState, simp add: newState_def)
next
  fix y y'
  assume inv: "journal_inv y" and "server_step y y'"
  from this(2) obtain a where a: "enabled a y" "y' = perform a y" by (rule server_stepE)
  with inv show "journal_inv y'"
    by (simp add: journal_inv_def wf_sys_step log_inv_step ahead_step del: perform.simps enabled.simps)
next
  fix a y
  assume "enabled a y"
  then show "server_step y (perform a y)" by (rule server_step.intros)
qed

lemma reachable_journal:
  assumes "reachable boot server_step y"
  shows "wf_sys y" and "log_inv y" and "ahead_inv y"
  using journal.reachable_inv [OF assms] by (simp_all add: journal_inv_def)

section \<open>A concrete run\<close>

definition demo_boot :: sys where
  "demo_boot = \<lparr>y_db = demo_db, y_mem = newState, y_flight = Idle, y_loads = [], y_log = [], y_gone = {}, y_cuts = {}\<rparr>"

definition demo_acts :: "act list" where
  "demo_acts = [ReadDevices (\<lambda>_. False), MergeDevices 0, Probes [''m''] [''m'' \<mapsto> demo_up] 10,
     Probes [''m''] [''m'' \<mapsto> no_live] 12]"

definition demo_sys :: sys where
  "demo_sys = the (run_acts demo_acts demo_boot)"

lemma demo_loaded: "store_List (\<lambda>_. False) demo_db = Inr [row_device demo_db (demo_row ''m'')]"
  by (simp add: List_ok [OF wf_demo_db], simp add: demo_db_def)

lemmas demo_run_simps = demo_loaded demo_boot_def enumerates_def applyProbes_def probe_step_def probe_dev_def
  part_signal_def load_merge_def load_dev_def seed_dev_def newState_def no_live_def demo_up_def
  row_device_def demo_row_def Let_def

definition demo_ds :: devState where
  "demo_ds = (seed_dev (row_device demo_db (demo_row ''m'')))\<lparr>ds_icmpSeen := True, ds_lastSeenUp := 10,
     ds_lastSeen := 10, ds_status := ''down'', ds_dirty := True\<rparr>"

definition demo_event :: seen_event where
  "demo_event = \<lparr>ev_MAC = ''m'', ev_TS = 12, ev_State = ''down'', ev_Signal = ''none''\<rparr>"

lemma demo_run: "run_acts demo_acts demo_boot = Some (demo_boot\<lparr>
    y_mem := newState\<lparr>s_devs := [''m'' \<mapsto> demo_ds], s_order := [''m''], s_events := [demo_event]\<rparr>, y_log := [demo_event]\<rparr>)"
  by (simp add: demo_acts_def demo_run_simps probe_events_def demo_ds_def demo_event_def)

lemma demo_reachable: "reachable boot server_step demo_sys"
proof -
  have "boot demo_boot" using wf_demo_db by (simp add: boot_def demo_boot_def) (simp add: demo_db_def)
  then show ?thesis
    unfolding demo_sys_def using journal.run_reachable [OF reach_init] demo_run by simp
qed

lemma demo_sys_simps [simp]:
  "y_db demo_sys = demo_db" "y_flight demo_sys = Idle" "y_gone demo_sys = {}" "y_cuts demo_sys = {}"
  "y_log demo_sys = [demo_event]" "s_devs (y_mem demo_sys) = [''m'' \<mapsto> demo_ds]"
  "s_obsDirty (y_mem demo_sys) = {}" "s_ipMoves (y_mem demo_sys) = Map.empty" "s_events (y_mem demo_sys) = [demo_event]"
  by (simp_all add: demo_sys_def demo_run, simp_all add: demo_boot_def newState_def)

section \<open>Properties\<close>

text \<open>
  C1. Transition rows are journalled exactly once, in order. In every reachable state, whatever
  interleaving of loops, handlers and failing flushes led to it, the rows in the store, those in
  a batch under way and those pending in memory are together exactly the rows ever produced, in
  production order: none lost, none doubled. (Rows of untracked devices and rows behind a pruning
  cutoff are left out on both sides.)
\<close>

theorem transition_rows_exactly_once:
  assumes "reachable boot server_step y"
  shows "filter (kept y) (t_seen_events (y_db y) @ b_Events (flight_batch y) @ s_events (y_mem y)) =
    filter (kept y) (y_log y)"
  using reachable_journal(2) [OF assms] by (simp add: log_inv_def all_events_def)

lemma transition_rows_exactly_once_witness:
  "filter (kept demo_sys) (t_seen_events (y_db demo_sys) @ b_Events (flight_batch demo_sys) @ s_events (y_mem demo_sys)) =
   filter (kept demo_sys) [demo_event]"
  using transition_rows_exactly_once [OF demo_reachable] by simp

text \<open>
  C6. Whatever is not marked dirty is durable. In every reachable state with no flush under way,
  a tracked device that was never untracked and carries no dirty mark has stored presence at
  least as far ahead as memory's: a kill at that point loses none of it. This holds across
  reloads that race a flush and across failed flushes.
\<close>

theorem clean_devices_are_durable:
  assumes "reachable boot server_step y" and "y_flight y = Idle" and "mac \<notin> y_gone y"
    and "s_devs (y_mem y) mac = Some ds" and "\<not> ds_dirty ds"
  shows "\<exists>p. presence_at (y_db y) mac = Some p \<and> dev_presence ds \<le> p"
proof -
  have "updates_for mac (b_Seen (flight_batch y)) = []"
    using assms(2) by (simp add: flight_batch_def updates_for_def)
  then have "presence_ahead (Some (dev_presence ds)) (presence_at (y_db y) mac)"
    using ahead_invD(2) [OF reachable_journal(3) [OF assms(1)] assms(3-5)] settled_idle by metis
  then show ?thesis by (auto simp: presence_ahead_def split: option.splits)
qed

lemma demo_flushed:
  "run_acts [Drain [''m''] [] [], Commit (\<lambda>_. False) 30] demo_sys =
   Some (the (run_acts [Drain [''m''] [] [], Commit (\<lambda>_. False) 30] demo_sys))"
  by (simp add: enumerates_def drain_def Let_def map_filter_simps demo_ds_def batch_Empty_def store_Flush_def exec_all_ok)

lemma clean_devices_are_durable_witness:
  "let y = the (run_acts [Drain [''m''] [] [], Commit (\<lambda>_. False) 30] demo_sys) in
   \<exists>p. presence_at (y_db y) ''m'' = Some p \<and> (1, 10, 10) \<le> p"
proof -
  let ?y = "the (run_acts [Drain [''m''] [] [], Commit (\<lambda>_. False) 30] demo_sys)"
  have r: "reachable boot server_step ?y" by (rule journal.run_reachable [OF demo_reachable demo_flushed])
  have y: "y_flight ?y = Idle" "y_gone ?y = {}" "s_devs (y_mem ?y) ''m'' = Some (demo_ds\<lparr>ds_dirty := False\<rparr>)"
    by (simp_all add: enumerates_def drain_def Let_def map_filter_simps batch_Empty_def store_Flush_def exec_all_ok)
  have "dev_presence (demo_ds\<lparr>ds_dirty := False\<rparr>) = (1, 10, 10)"
    by (simp add: dev_presence_def demo_ds_def boolInt_def)
  then show ?thesis
    using clean_devices_are_durable [OF r y(1) _ y(3)] y(2) by (simp add: Let_def)
qed

text \<open>
  Both sides stay well formed under every interleaving: the tables keep one row per canonical
  MAC, and the model's render order lists exactly the tracked devices, each once and under its
  own canonical MAC, with a verdict that is unset, up or down, while the hosts marked for
  writing are remembered ones.
\<close>

theorem interleaving_keeps_wf:
  assumes "reachable boot server_step y"
  shows "wf_db (y_db y) \<and> wf_state (y_mem y)"
  using reachable_journal(1) [OF assms] by (simp add: wf_sys_def)

lemma interleaving_keeps_wf_witness: "wf_db (y_db demo_sys) \<and> wf_state (y_mem demo_sys)"
  by (rule interleaving_keeps_wf [OF demo_reachable])

lemma shutdown_run:
  assumes "y_flight y = Idle" and "server_flush f t kd ko km (y_db y, y_mem y) = (None, db, s)"
    and "enabled (Drain kd ko km) y"
  shows "\<exists>as y'. run_acts as y = Some y' \<and> y_db y' = db \<and> y_mem y' = s \<and> y_flight y' = Idle \<and>
    y_gone y' = y_gone y \<and> y_cuts y' = y_cuts y \<and> y_log y' = y_log y \<and> s_events s = [] \<and>
    (\<forall>mac. s_devs s mac = map_option (\<lambda>ds. ds\<lparr>ds_dirty := False\<rparr>) (s_devs (y_mem y) mac))"
proof -
  let ?d = "perform (Drain kd ko km) y"
  obtain b s1 where d: "drain kd ko km (y_mem y) = (b, s1)" by (cases "drain kd ko km (y_mem y)")
  have s1: "s_events s1 = []" "\<forall>mac. s_devs s1 mac = map_option (\<lambda>ds. ds\<lparr>ds_dirty := False\<rparr>) (s_devs (y_mem y) mac)"
    using drain_frame(5) [of kd ko km "y_mem y"] drain_devs [of kd ko km "y_mem y"] assms(3) d
    by (auto simp: enumerates_def dom_def map_option_case split: option.splits)
  show ?thesis
  proof (cases "batch_Empty b")
    case True
    with assms d s1 show ?thesis
      by (intro exI [of _ "[Drain kd ko km]"] exI [of _ ?d]) (simp add: server_flush_def Let_def)
  next
    case False
    with assms d have fl: "store_Flush f t b (y_db y) = (None, db)" and s: "s = s1"
      by (auto simp: server_flush_def Let_def split: prod.splits option.splits)
    with assms d s1 False show ?thesis
      by (intro exI [of _ "[Drain kd ko km, Commit f t]"] exI [of _ "?d\<lparr>y_db := db, y_flight := Idle\<rparr>"])
        (simp add: Let_def)
  qed
qed

lemma flushed_rows:
  assumes "reachable boot server_step y" and "y_flight y = Idle" and "enabled (Drain kd ko km) y"
    and "server_flush f t kd ko km (y_db y, y_mem y) = (None, db, s)"
  shows "filter (kept y) (t_seen_events db) = filter (kept y) (y_log y)"
proof -
  obtain as y' where r: "run_acts as y = Some y'" "y_db y' = db" "y_mem y' = s" "y_flight y' = Idle"
      "y_gone y' = y_gone y" "y_cuts y' = y_cuts y" "y_log y' = y_log y" "s_events s = []"
    using shutdown_run [OF assms(2,4,3)] by metis
  note inv = reachable_journal(2) [OF journal.run_reachable [OF assms(1) r(1)]]
  have "kept y' = kept y" using r by (simp add: kept_def fun_eq_iff)
  with inv r show ?thesis by (simp add: log_inv_def all_events_def flight_batch_def)
qed

lemma shutdown_restart:
  assumes "reachable boot server_step y" and "y_flight y = Idle" and "enabled (Drain kd ko km) y"
    and "server_flush f t kd ko km (y_db y, y_mem y) = (None, db, s)"
    and "\<forall>k. \<not> g k" and "mac \<notin> y_gone y" and "s_devs (y_mem y) mac = Some ds"
  shows "presence_ahead (Some (dev_presence ds)) (mem_presence (reloadState g db newState) mac)"
proof -
  obtain as y' where r: "run_acts as y = Some y'" "y_db y' = db" "y_mem y' = s" "y_flight y' = Idle"
      "y_gone y' = y_gone y"
    and dv: "s_devs s mac = map_option (\<lambda>ds. ds\<lparr>ds_dirty := False\<rparr>) (s_devs (y_mem y) mac)"
    using shutdown_run [OF assms(2,4,3)] by metis
  note inv = reachable_journal [OF journal.run_reachable [OF assms(1) r(1)]]
  have "presence_ahead (Some (dev_presence (ds\<lparr>ds_dirty := False\<rparr>))) (settled y' mac)"
    using r assms(6,7) dv by (intro ahead_invD(2) [OF inv(3)]) simp_all
  then have st: "presence_ahead (Some (dev_presence ds)) (presence_at db mac)"
    using r settled_idle [of mac y'] by (simp add: flight_batch_def updates_for_def dev_presence_def)
  then obtain row where row: "dev_at db mac = Some row"
    by (auto simp: presence_ahead_Some presence_at_def)
  have wf: "wf_db db" using inv(1) r by (simp add: wf_sys_def)
  let ?devs = "map (row_device db) (sort_key display_key (t_devices db))"
  have ls: "store_List g db = Inr ?devs" by (rule List_ok [OF wf assms(5)])
  have "row \<in> set (t_devices db)" "r_mac row = mac"
    using table_map_key [of r_mac "t_devices db" mac row] row by (auto simp: dev_at_def)
  then have "mac \<in> d_MAC ` set ?devs" by (force simp: row_device_def)
  then obtain d where d: "table_map d_MAC ?devs mac = Some d" using table_map_ex by metis
  have "presence_at db mac = Some (device_presence d)"
    using List_presence [OF wf ls, of d] table_map_key [OF d] by simp
  moreover have "mem_presence (reloadState g db newState) mac = Some (device_presence d)"
    using load_merge_devs [OF store_List_wf [OF wf ls], of newState mac] d
    by (simp add: reloadState_def state_Load_def ls mem_presence_def load_presence, simp add: newState_def)
  ultimately show ?thesis using st by simp
qed

text \<open>
  A graceful shutdown loses nothing. When the final flush (no other one under way) succeeds in
  any reachable state, the store then holds every transition row produced, and a restart that
  reads it comes up tracking every device of the model that was never untracked, with presence
  at least as far ahead as before the shutdown.
\<close>

theorem shutdown_restart_keeps_presence:
  assumes "reachable boot server_step y" and "y_flight y = Idle" and "enabled (Drain kd ko km) y"
    and "server_flush f t kd ko km (y_db y, y_mem y) = (None, db, s)"
    and "\<forall>k. \<not> g k" and "mac \<notin> y_gone y" and "s_devs (y_mem y) mac = Some ds"
  shows "filter (kept y) (t_seen_events db) = filter (kept y) (y_log y) \<and>
    presence_ahead (Some (dev_presence ds)) (mem_presence (reloadState g db newState) mac)"
  using flushed_rows [OF assms(1-4)] shutdown_restart [OF assms] by blast

lemma shutdown_restart_keeps_presence_witness:
  "let (e, db, s) = server_flush (\<lambda>_. False) 30 [''m''] [] [] (demo_db, y_mem demo_sys) in
   e = None \<and> presence_ahead (Some (1, 10, 10)) (mem_presence (reloadState (\<lambda>_. False) db newState) ''m'')"
proof -
  let ?r = "server_flush (\<lambda>_. False) 30 [''m''] [] [] (y_db demo_sys, y_mem demo_sys)"
  have e: "fst ?r = None"
    by (simp add: server_flush_def drain_def Let_def map_filter_simps batch_Empty_def store_Flush_def exec_all_ok)
  then have r: "?r = (None, fst (snd ?r), snd (snd ?r))" by (simp add: prod_eq_iff)
  have en: "enabled (Drain [''m''] [] []) demo_sys" by (simp add: enumerates_def)
  have "dev_presence demo_ds = (1, 10, 10)" by (simp add: dev_presence_def demo_ds_def boolInt_def)
  then show ?thesis
    using shutdown_restart_keeps_presence [OF demo_reachable _ en r, of "\<lambda>_. False" "''m''" demo_ds] e
    by (simp add: case_prod_unfold Let_def)
qed

text \<open>
  Presence in memory moves forward. Every step of the machine keeps a tracked device's ICMP
  flag and last-seen times or raises them, provided that the clock of a probe cycle is not
  behind them and that a reload still lists the device.
\<close>

theorem memory_presence_forward:
  assumes "wf_sys y" and "enabled a y" and "s_devs (y_mem y) mac = Some ds"
    and "case a of Probes ks results now \<Rightarrow> ds_lastSeenUp ds \<le> now \<and> ds_lastSeen ds \<le> now
         | MergeDevices i \<Rightarrow> mac \<in> d_MAC ` set (y_loads y ! i) | _ \<Rightarrow> True"
  shows "presence_ahead (Some (dev_presence ds)) (mem_presence (y_mem (perform a y)) mac)"
proof (cases a)
  case (Neigh ks byMAC now)
  with assms(2,3) show ?thesis
    by (simp add: mem_presence_def applyNeigh_devs enumerates_def presence_ahead_Some neigh_dev_presence)
next
  case (Probes ks results now)
  with assms(2-4) show ?thesis
    by (simp add: mem_presence_def applyProbes_devs enumerates_def presence_ahead_Some probe_dev_presence
        split: option.splits)
next
  case (MergeDevices i)
  have "wf_devices (y_loads y ! i)" using assms(1,2) MergeDevices by (simp add: wf_sys_def)
  from Load_forward [OF this, of mac "y_mem y"] assms(3,4) MergeDevices show ?thesis
    by (simp add: mem_presence_def)
next
  case ClearLive
  with assms(3) show ?thesis by (simp add: mem_presence_def clearLive_def presence_ahead_Some dev_presence_def)
next
  case (Drain kd ko km)
  with assms(3) show ?thesis
    by (simp add: mem_presence_def drain_devs presence_ahead_Some dev_presence_def del: perform.simps)
next
  case (Commit f t)
  with assms(2,3) show ?thesis
    by (auto simp: mem_presence_def split: flight.splits prod.splits option.splits)
next
  case Restore
  from assms(2) [unfolded Restore] obtain b where
    "perform Restore y = y\<lparr>y_mem := restore b (y_mem y), y_flight := Idle\<rparr>" by (rule restore_cases)
  with Restore assms(3) show ?thesis
    by (simp add: mem_presence_def restore_devs presence_ahead_Some mark_dirty_def dev_presence_def del: perform.simps)
next
  case (ReadDevices f)
  with assms(3) show ?thesis by (simp add: mem_presence_def split: sum.splits)
qed (use assms(3) in \<open>simp_all add: mem_presence_def\<close>)

lemma memory_presence_forward_witness:
  "presence_ahead (Some (1, 10, 10)) (mem_presence (y_mem (perform (Probes [''m''] [''m'' \<mapsto> demo_up] 14) demo_sys)) ''m'')"
proof -
  have p: "dev_presence demo_ds = (1, 10, 10)" "ds_lastSeenUp demo_ds = 10" "ds_lastSeen demo_ds = 10"
    by (simp_all add: dev_presence_def demo_ds_def boolInt_def)
  show ?thesis
    using memory_presence_forward [OF reachable_journal(1) [OF demo_reachable],
        of "Probes [''m''] [''m'' \<mapsto> demo_up] 14" "''m''" demo_ds]
    by (simp add: p enumerates_def del: perform.simps)
qed

section \<open>What the conditions are for\<close>

text \<open>\<^verbatim>\<open>applyProbes\<close> assigns the clock unconditionally: a clock stepped back takes last-seen back.\<close>

lemma clock_step_back_regresses:
  "mem_presence (y_mem (perform (Probes [''m''] [''m'' \<mapsto> demo_up] 4) demo_sys)) ''m'' = Some (1, 4, 4)"
  by (simp add: demo_ds_def applyProbes_def probe_step_def probe_dev_def part_signal_def demo_up_def Let_def
      mem_presence_def dev_presence_def boolInt_def)

text \<open>
  Two reloads that overlap: the store is read before the model is locked, so the older list can be
  merged last, and memory then shows the config from before the later patch.
\<close>

lemma stale_reload_overwrites_config:
  "map_option (map d_Name o map ds_dev o snapshot o y_mem)
     (run_acts [ReadDevices (\<lambda>_. False), StoreCall (\<lambda>_. False) (C_Patch 9 ''m'' (no_patch\<lparr>p_Name := Some ''nas''\<rparr>)),
        ReadDevices (\<lambda>_. False), MergeDevices 1, MergeDevices 0] demo_boot) = Some [[]] \<and>
   map_option (map r_name o t_devices o y_db)
     (run_acts [ReadDevices (\<lambda>_. False), StoreCall (\<lambda>_. False) (C_Patch 9 ''m'' (no_patch\<lparr>p_Name := Some ''nas''\<rparr>)),
        ReadDevices (\<lambda>_. False), MergeDevices 1, MergeDevices 0] demo_boot) = Some [''nas'']"
  by (simp add: demo_boot_def store_List_def demo_db_def demo_row_def scanDevice_def store_Patch_def empty_patch_def
      no_patch_def update_where_def patch_row_def set_col_def load_merge_def load_dev_def seed_dev_def keep_dev_def newState_def
      snapshot_def map_filter_simps)

end
