(* ===== verification/Oui.thy ===== *)
theory Oui
  imports Macs
begin

text \<open>
  The vendor table, \<^verbatim>\<open>internal/oui/oui.go\<close>. The embedded registry \<^verbatim>\<open>oui.txt\<close> is an argument:
  the list of its lines, each short enough for \<^verbatim>\<open>bufio.Scanner\<close>. The lemmas show that a lookup
  depends on the bytes of the address alone, and what a line of the registry contributes.
\<close>

type_synonym vendor_table = "string \<Rightarrow> string option"

text \<open>The entry of one line, \<open>None\<close> where the loop continues without one.\<close>

definition oui_entry :: "string \<Rightarrow> (string \<times> string) option" where
  "oui_entry text =
     (let line = trim_space text in
      if line = [] \<or> has_prefix line ''#'' then None
      else (case index_where (\<lambda>c. c = CHR '' '' \<or> c = CHR 0x09) line of
              None \<Rightarrow> None
            | Some i \<Rightarrow>
                if i < 6 then None
                else let prefix = to_upper (remove_char (CHR '':'') (take i line)) in
                  if length prefix \<noteq> 6 then None
                  else Some (prefix, trim_space (drop (Suc i) line))))"

definition oui_load :: "string list \<Rightarrow> vendor_table" where
  "oui_load raw = fold (\<lambda>text table. case oui_entry text of None \<Rightarrow> table
     | Some (prefix, vendor) \<Rightarrow> table(prefix \<mapsto> vendor)) raw Map.empty"

text \<open>
  \<^verbatim>\<open>strconv.ParseUint(hex[:2], 16, 8)\<close> is 0 when either byte is not a hex digit; the error is
  dropped.
\<close>

definition isLocallyAdministered :: "string \<Rightarrow> bool" where
  "isLocallyAdministered hex =
     (let b = (case hex_byte (hex ! 0) (hex ! 1) of None \<Rightarrow> 0 | Some b \<Rightarrow> b) in bit b 1)"

definition mac_digits :: "string \<Rightarrow> string" where
  "mac_digits mac = to_upper (remove_char (CHR ''-'') (remove_char (CHR '':'') (trim_space mac)))"

definition oui_lookup :: "vendor_table \<Rightarrow> string \<Rightarrow> string" where
  "oui_lookup table mac =
     (let hex = mac_digits mac in
      if length hex < 6 then []
      else if isLocallyAdministered hex then ''(randomized)''
      else (case table (take 6 hex) of None \<Rightarrow> [] | Some v \<Rightarrow> v))"

section \<open>Lookups see the bytes only\<close>

definition upper_octet :: "byte \<Rightarrow> string" where
  "upper_octet b = map upper_char (octet_string b)"

lemma octet_string_filter [simp]:
  "filter (\<lambda>c. c \<noteq> CHR '':'') (octet_string b) = octet_string b"
  "filter (\<lambda>c. c \<noteq> CHR ''-'') (octet_string b) = octet_string b"
  by (simp_all add: octet_string_def)

lemma digits_hw_string:
  "filter (\<lambda>c. c \<noteq> CHR ''-'') (filter (\<lambda>c. c \<noteq> CHR '':'') (hw_string bs)) = concat (map octet_string bs)"
  by (induction bs) (auto simp: hw_string_Cons simp del: filter_filter)

lemma trim_hw_string [simp]: "trim_space (hw_string bs) = hw_string bs"
  using hw_string_ends [of bs] by (cases "bs = []") (auto intro: trim_space_id)

lemma mac_digits_hw_string: "mac_digits (hw_string bs) = concat (map upper_octet bs)"
  unfolding mac_digits_def trim_hw_string remove_char_def digits_hw_string to_upper_def upper_octet_def
  by (simp add: map_concat comp_def)

lemma length_upper_octet [simp]: "length (upper_octet b) = 2"
  by (simp add: upper_octet_def)

lemma hex_val_upper_lower: "v < 16 \<Longrightarrow> hex_val (upper_char (hex_lower v)) = Some v"
  by (auto simp: hex_val_def Let_def of_char_upper of_char_hex_lower)

lemma hex_byte_upper [simp]: "hex_byte (upper_octet b ! 0) (upper_octet b ! 1) = Some b"
  by (simp add: upper_octet_def octet_string_def hex_byte_def hex_val_upper_lower)

lemma Lookup_hw_string:
  assumes "length bs = 6"
  shows "oui_lookup table (hw_string bs) =
    (if bit (bs ! 0) 1 then ''(randomized)''
     else (case table (concat (map upper_octet (take 3 bs))) of None \<Rightarrow> [] | Some v \<Rightarrow> v))"
proof -
  obtain a b c r where bs: "bs = a # b # c # r" "length r = 3"
    using assms by (auto simp: length_6)
  let ?d = "concat (map upper_octet bs)"
  have pre: "?d = (upper_octet a @ upper_octet b @ upper_octet c) @ concat (map upper_octet r)"
    by (simp add: bs)
  have "take 6 ?d = upper_octet a @ upper_octet b @ upper_octet c"
    unfolding pre by (simp del: append_assoc)
  moreover have "?d ! 0 = upper_octet a ! 0" "?d ! 1 = upper_octet a ! 1"
    by (simp_all add: pre nth_append)
  moreover have "\<not> length ?d < 6" by (simp add: pre)
  ultimately show ?thesis
    unfolding oui_lookup_def mac_digits_hw_string Let_def isLocallyAdministered_def
    by (simp add: bs del: One_nat_def)
qed

lemma upper_lower_char [simp]: "upper_char (lower_char c) = upper_char c"
  by (simp only: char_eq_nat of_char_lower of_char_upper) auto

lemma norm_char_upper: "c \<noteq> CHR ''-'' \<Longrightarrow> upper_char (norm_char c) = upper_char c"
  by (simp add: norm_char_def)

lemma mac_digits_norm: "mac_digits (map norm_char m) = mac_digits m"
proof -
  have sp: "trim_space (map norm_char m) = map norm_char (trim_space m)"
    by (rule trim_space_map) simp
  have "map upper_char (filter (\<lambda>c. c \<noteq> CHR ''-'') (filter (\<lambda>c. c \<noteq> CHR '':'') (map norm_char s))) =
      map upper_char (filter (\<lambda>c. c \<noteq> CHR ''-'') (filter (\<lambda>c. c \<noteq> CHR '':'') s))" for s
  proof (induction s)
    case (Cons c s)
    then show ?case
      by (cases "c = CHR ''-''") (auto simp: norm_char_upper, auto simp: norm_char_def)
  qed simp
  then show ?thesis
    unfolding mac_digits_def to_upper_def remove_char_def sp by simp
qed

section \<open>The table\<close>

lemma oui_load_snoc: "oui_load (ls @ [l]) = (case oui_entry l of None \<Rightarrow> oui_load ls
   | Some (p, v) \<Rightarrow> (oui_load ls)(p \<mapsto> v))"
  by (simp add: oui_load_def split: option.splits)

lemma oui_load_last:
  assumes "oui_entry l = Some (p, v)" and "\<forall>x \<in> set after. \<forall>w. oui_entry x \<noteq> Some (p, w)"
  shows "oui_load (before @ l # after) p = Some v"
  using assms(2)
proof (induction after rule: rev_induct)
  case Nil
  then show ?case by (simp add: oui_load_snoc assms(1))
next
  case (snoc x xs)
  have "oui_load ((before @ l # xs) @ [x]) p = Some v"
    using snoc by (auto simp only: oui_load_snoc split: option.splits prod.splits) (auto simp: snoc)
  then show ?case by simp
qed

lemma oui_load_keys: "oui_load raw p \<noteq> None \<Longrightarrow> length p = 6"
proof (induction raw rule: rev_induct)
  case Nil
  then show ?case by (simp add: oui_load_def)
next
  case (snoc l ls)
  then show ?case
    by (cases "oui_entry l") (auto simp: oui_load_snoc oui_entry_def Let_def split: if_splits option.splits)
qed

section \<open>Properties\<close>

text \<open>
  A vendor lookup sees the address, not its spelling. For every spelling of a MAC the API
  accepts (either separator, either case), the answer is "(randomized)" exactly when the U/L bit
  of the first byte is set, and else the vendor that the last line of the registry for its
  three-byte prefix gives, or the empty string when the registry has none.
\<close>

theorem vendor_of_address:
  assumes "macRe mac" and "ParseMAC (NormMAC mac) = Some hw"
  shows "oui_lookup (oui_load raw) mac =
    (if bit (hw ! 0) 1 then ''(randomized)''
     else (case find (\<lambda>(p, v). p = concat (map upper_octet (take 3 hw))) (rev (List.map_filter oui_entry raw)) of
        None \<Rightarrow> [] | Some (p, v) \<Rightarrow> v))"
proof -
  obtain bs where bs: "length bs = 6" "map norm_char mac = hw_string bs" "NormMAC mac = hw_string bs"
  proof -
    obtain bs where "length bs = 6" "map norm_char mac = hw_string bs" "\<not> is_space (hd mac)" "\<not> is_space (last mac)" "mac \<noteq> []"
      using mac_re_groups_norm [of 5 mac] assms(1) by (auto simp: macRe_def)
    then show thesis by (intro that) (auto simp: NormMAC_hw_string_of trim_space_id)
  qed
  then have hw: "hw = bs" using assms(2) by (simp add: ParseMAC_hw_string)
  have load: "oui_load raw p = map_option snd (find (\<lambda>(q, v). q = p) (rev (List.map_filter oui_entry raw)))" for p
    by (induction raw rule: rev_induct)
      (auto simp: oui_load_snoc oui_load_def map_filter_def split: option.splits)
  have "oui_lookup (oui_load raw) mac = oui_lookup (oui_load raw) (hw_string bs)"
    using mac_digits_norm [of mac] bs(2) by (simp add: oui_lookup_def)
  then show ?thesis
    unfolding Lookup_hw_string [OF bs(1)] hw by (auto simp: load split: option.splits)
qed

lemma vendor_of_address_witness:
  "oui_lookup (oui_load [''# registry'', ''18C04D'' @ [CHR 0x09] @ ''Gigabyte'']) ''18-c0-4D-00-00-01'' = ''Gigabyte''"
proof -
  have h: "macRe ''18-c0-4D-00-00-01''" "ParseMAC (NormMAC ''18-c0-4D-00-00-01'') = Some [0x18, 0xC0, 0x4D, 0, 0, 1]"
    by code_simp+
  have e: "List.map_filter oui_entry [''# registry'', ''18C04D'' @ [CHR 0x09] @ ''Gigabyte''] = [(''18C04D'', ''Gigabyte'')]"
    by code_simp
  have p: "concat (map upper_octet [0x18, 0xC0, 0x4D]) = ''18C04D''" by code_simp
  show ?thesis
    unfolding vendor_of_address [OF h] e using p by simp
qed

end
