(* ===== verification/Naming.thy ===== *)
theory Naming
  imports Oui "HOL-Library.Monad_Syntax"
begin

text \<open>
  Name resolution, \<^verbatim>\<open>internal/naming\<close>. The two network exchanges are arguments: \<open>rdns\<close> is what
  the resolver returns for an address (\<open>None\<close> on error), \<open>nbstat\<close> the datagram a host answers to
  the node-status query (\<open>None\<close> when dialling, writing or reading fails). The parser of that
  answer works on bytes a stranger chose: indexing and slicing are checked, \<open>None\<close> is a Go
  panic, and the lemmas show that it never happens.
\<close>

unbundle bit_operations_syntax

section \<open>NetBIOS\<close>

definition str_bytes :: "string \<Rightarrow> byte list" where
  "str_bytes s = map (\<lambda>c. of_nat (of_char c)) s"

definition bytes_str :: "byte list \<Rightarrow> string" where
  "bytes_str bs = map (\<lambda>b. char_of (unat b)) bs"

definition nbstatQuery :: "byte list" where
  "nbstatQuery =
     [0x00, 0x00, 0x00, 0x00, 0x00, 0x01, 0x00, 0x00, 0x00, 0x00, 0x00, 0x00, 0x20] @
     concat (map (\<lambda>b. [0x41 + drop_bit 4 b, 0x41 + (b AND 0x0F)]) (0x2A # replicate 15 0)) @
     [0x00, 0x00, 0x21, 0x00, 0x01]"

text \<open>\<open>b[i]\<close> and \<open>b[i:j]\<close> with the run-time checks.\<close>

definition at :: "byte list \<Rightarrow> nat \<Rightarrow> byte option" where
  "at b i = (if i < length b then Some (b ! i) else None)"

definition go_slice :: "byte list \<Rightarrow> nat \<Rightarrow> nat \<Rightarrow> byte list option" where
  "go_slice b i j = (if i \<le> j \<and> j \<le> length b then Some (take (j - i) (drop i b)) else None)"

definition flags16 :: "byte \<Rightarrow> byte \<Rightarrow> 16 word" where
  "flags16 hi lo = push_bit 8 (ucast hi) OR ucast lo"

fun nb_names :: "byte list \<Rightarrow> nat \<Rightarrow> nat \<Rightarrow> string option" where
  "nb_names b off 0 = Some []"
| "nb_names b off (Suc i) =
     (if off + 18 > length b then Some []
      else do {
        raw \<leftarrow> go_slice b off (off + 15);
        suffix \<leftarrow> at b (off + 15);
        hi \<leftarrow> at b (off + 16);
        lo \<leftarrow> at b (off + 17);
        let name = trim_right (\<lambda>c. c = CHR '' '' \<or> c = CHR 0x00) (bytes_str raw);
        let isGroup = (flags16 hi lo AND 0x8000 \<noteq> 0);
        if suffix = 0 \<and> \<not> isGroup \<and> name \<noteq> [] then Some name else nb_names b (off + 18) i
      })"

definition parseNBStat :: "byte list \<Rightarrow> string option" where
  "parseNBStat b =
     (let off = 12 + (34 + 4) in
      if length b < off + 12 then Some []
      else let off1 = off + (34 + 2 + 2 + 4 + 2) in
        if off1 \<ge> length b then Some []
        else do { count \<leftarrow> at b off1; nb_names b (off1 + 1) (unat count) })"

text \<open>The reply is read into a buffer of 1500 bytes; a longer datagram is cut off there.\<close>

definition netbiosName :: "(byte list \<Rightarrow> byte list option) \<Rightarrow> string option" where
  "netbiosName exchange =
     (case exchange nbstatQuery of None \<Rightarrow> Some [] | Some reply \<Rightarrow> parseNBStat (take 1500 reply))"

section \<open>Layered resolution\<close>

definition shortName :: "string \<Rightarrow> string" where
  "shortName fqdn =
     (let s = trim_suffix fqdn ''.'' in
      case index_where (\<lambda>c. c = CHR ''.'') s of
        Some i \<Rightarrow> if i > 0 then take i s else s
      | None \<Rightarrow> s)"

definition reverseDNS :: "(string \<Rightarrow> string list option) \<Rightarrow> string \<Rightarrow> string" where
  "reverseDNS rdns ip = (case rdns ip of None \<Rightarrow> [] | Some [] \<Rightarrow> [] | Some (n # ns) \<Rightarrow> shortName n)"

record name_result =
  nr_Name :: string
  nr_Source :: string
  nr_Vendor :: string

text \<open>\<^verbatim>\<open>Name\<close> and \<^verbatim>\<open>Resolve\<close>: \<open>None\<close> only where the NetBIOS parser would panic.\<close>

definition naming_Name :: "(string \<Rightarrow> string list option) \<Rightarrow> (string \<Rightarrow> byte list \<Rightarrow> byte list option) \<Rightarrow>
    string \<Rightarrow> (string \<times> string) option" where
  "naming_Name rdns nbstat ip =
     (if reverseDNS rdns ip \<noteq> [] then Some (reverseDNS rdns ip, ''rdns'')
      else do {
        name \<leftarrow> netbiosName (nbstat ip);
        Some (if name \<noteq> [] then (name, ''netbios'') else ([], []))
      })"

definition naming_Resolve :: "vendor_table \<Rightarrow> (string \<Rightarrow> string list option) \<Rightarrow>
    (string \<Rightarrow> byte list \<Rightarrow> byte list option) \<Rightarrow> string \<Rightarrow> string \<Rightarrow> name_result option" where
  "naming_Resolve table rdns nbstat ip mac =
     (let v = oui_lookup table mac in
      if ip = [] then Some \<lparr>nr_Name = [], nr_Source = [], nr_Vendor = v\<rparr>
      else do {
        (name, source) \<leftarrow> naming_Name rdns nbstat ip;
        Some \<lparr>nr_Name = name, nr_Source = source, nr_Vendor = v\<rparr>
      })"

section \<open>The parser never panics\<close>

lemma nb_names_Some: "\<exists>s. nb_names b off n = Some s"
  by (induction n arbitrary: off) (auto simp: go_slice_def at_def Let_def)

lemma parseNBStat_Some: "\<exists>s. parseNBStat b = Some s"
  using nb_names_Some by (auto simp: parseNBStat_def Let_def at_def)

lemma netbiosName_Some: "\<exists>s. netbiosName ex = Some s"
  using parseNBStat_Some by (auto simp: netbiosName_def split: option.splits)

lemma naming_Name_Some: "\<exists>r. naming_Name rdns nbstat ip = Some r"
  using netbiosName_Some [of "nbstat ip"] by (auto simp: naming_Name_def)

lemma naming_Resolve_Some: "\<exists>r. naming_Resolve table rdns nbstat ip mac = Some r"
  using naming_Name_Some [of rdns nbstat ip] by (auto simp: naming_Resolve_def Let_def)

section \<open>What it finds\<close>

text \<open>A reply as the code expects it: header, echoed question, record head, the name table.\<close>

record nb_entry =
  nb_name :: "byte list"
  nb_suffix :: byte
  nb_hi :: byte
  nb_lo :: byte

definition nb_bytes :: "nb_entry \<Rightarrow> byte list" where
  "nb_bytes e = nb_name e @ [nb_suffix e, nb_hi e, nb_lo e]"

definition nb_host :: "nb_entry \<Rightarrow> string" where
  "nb_host e = trim_right (\<lambda>c. c = CHR '' '' \<or> c = CHR 0x00) (bytes_str (nb_name e))"

definition workstation :: "nb_entry \<Rightarrow> bool" where
  "workstation e \<longleftrightarrow> nb_suffix e = 0 \<and> \<not> bit (nb_hi e) 7 \<and> nb_host e \<noteq> []"

definition first_workstation :: "nb_entry list \<Rightarrow> string" where
  "first_workstation es = (case find workstation es of None \<Rightarrow> [] | Some e \<Rightarrow> nb_host e)"

lemma group_bit: "flags16 hi lo AND 0x8000 \<noteq> 0 \<longleftrightarrow> bit hi 7"
proof -
  have "(0x8000 :: 16 word) = push_bit 15 1" by simp
  moreover have "bit (flags16 hi lo) 15 \<longleftrightarrow> bit hi 7"
    using bit_imp_le_length [of lo 15] by (auto simp: flags16_def bit_simps)
  ultimately show ?thesis by (simp add: bit_iff_and_push_bit_not_eq_0)
qed

lemma length_nb_bytes: "length (nb_name e) = 15 \<Longrightarrow> length (nb_bytes e) = 18"
  by (simp add: nb_bytes_def)

lemma nb_names_step:
  assumes "length (nb_name e) = 15"
  shows "nb_names (pre @ nb_bytes e @ post) (length pre) (Suc i) =
    (if workstation e then Some (nb_host e) else nb_names (pre @ nb_bytes e @ post) (length pre + 18) i)"
proof -
  let ?b = "pre @ nb_bytes e @ post"
  have "go_slice ?b (length pre) (length pre + 15) = Some (nb_name e)"
    using assms by (simp add: go_slice_def nb_bytes_def)
  moreover have "at ?b (length pre + 15) = Some (nb_suffix e)" "at ?b (length pre + 16) = Some (nb_hi e)"
    "at ?b (length pre + 17) = Some (nb_lo e)"
    using assms by (simp_all add: at_def nb_bytes_def nth_append)
  moreover have "\<not> length pre + 18 > length ?b" using length_nb_bytes [OF assms] by simp
  ultimately show ?thesis
    by (simp add: Let_def group_bit workstation_def nb_host_def del: nb_names.simps(1))
qed

lemma nb_names_entries:
  assumes "\<forall>e \<in> set es. length (nb_name e) = 15"
  shows "nb_names (pre @ concat (map nb_bytes es) @ post) (length pre) (length es) = Some (first_workstation es)"
  using assms
proof (induction es arbitrary: pre)
  case Nil
  then show ?case by (simp add: first_workstation_def)
next
  case (Cons e es)
  from Cons.prems have l: "length (nb_name e) = 15" by simp
  have "nb_names ((pre @ nb_bytes e) @ concat (map nb_bytes es) @ post) (length (pre @ nb_bytes e)) (length es) =
      Some (first_workstation es)"
    using Cons.prems by (intro Cons.IH) simp
  with nb_names_step [OF l, of pre "concat (map nb_bytes es) @ post" "length es"] length_nb_bytes [OF l]
  show ?case by (auto simp: first_workstation_def simp del: nb_names.simps)
qed

section \<open>Properties\<close>

text \<open>
  The NetBIOS parser never panics: on every datagram, however short or malformed, each index
  and slice it takes is in bounds and it returns a name (possibly empty), so resolving a host
  always returns.
\<close>

theorem nbstat_never_panics:
  "parseNBStat b \<noteq> None \<and> naming_Resolve table rdns nbstat ip mac \<noteq> None"
  using parseNBStat_Some [of b] naming_Resolve_Some [of table rdns nbstat ip mac] by auto

text \<open>
  The NetBIOS parser finds the workstation name. On a well-formed node-status reply (header,
  echoed question and record head of the expected sizes, a name count, that many 18-byte
  entries, anything after them) it returns the trimmed name of the first entry that is unique,
  of the workstation service and not blank, and the empty string when there is none.
\<close>

theorem nbstat_finds_workstation:
  assumes "length head = 94" and "length es < 256" and "\<forall>e \<in> set es. length (nb_name e) = 15"
    and "es \<noteq> [] \<or> rest \<noteq> []"
  shows "parseNBStat (head @ of_nat (length es) # concat (map nb_bytes es) @ rest) = Some (first_workstation es)"
proof -
  let ?b = "head @ of_nat (length es) # concat (map nb_bytes es) @ rest"
  have "unat (of_nat (length es) :: byte) = length es"
    using assms(2) by (simp add: unat_of_nat)
  moreover have "at ?b 94 = Some (of_nat (length es))"
    using assms(1) by (simp add: at_def nth_append)
  moreover have "nb_names ?b 95 (length es) = Some (first_workstation es)"
    using nb_names_entries [OF assms(3), of "head @ [of_nat (length es)]" rest] assms(1) by simp
  ultimately show ?thesis
    using assms(1) by (simp add: parseNBStat_def Let_def)
qed

definition demo_entry :: nb_entry where
  "demo_entry = \<lparr>nb_name = str_bytes ''NAS            '', nb_suffix = 0, nb_hi = 0x04, nb_lo = 0\<rparr>"

lemma nbstat_finds_workstation_witness:
  "parseNBStat (replicate 94 0 @ of_nat (length [demo_entry\<lparr>nb_suffix := 0x20\<rparr>, demo_entry]) #
     concat (map nb_bytes [demo_entry\<lparr>nb_suffix := 0x20\<rparr>, demo_entry]) @ []) = Some ''NAS''"
proof -
  have "length (nb_name demo_entry) = 15" by code_simp
  then have p: "\<forall>e \<in> set [demo_entry\<lparr>nb_suffix := 0x20\<rparr>, demo_entry]. length (nb_name e) = 15" by simp
  have f: "first_workstation [demo_entry\<lparr>nb_suffix := 0x20\<rparr>, demo_entry] = ''NAS''" by code_simp
  show ?thesis unfolding f [symmetric]
    by (rule nbstat_finds_workstation [OF _ _ p]) simp_all
qed

section \<open>A reply without a question section\<close>

text \<open>
  RFC 1002 (4.2.18) gives a node status response no question section: the record follows the
  header at once. On such a reply, here with one workstation entry and zero statistics, the
  fixed offset lands in the statistics and no name is found.
\<close>

lemma nbstat_reply_without_question:
  "parseNBStat (replicate 12 0 @ replicate 44 0 @ [1] @ nb_bytes demo_entry @ replicate 46 0) = Some []"
  by code_simp

end
