(* ===== verification/Wol.thy ===== *)
theory Wol
  imports GoNet
begin

text \<open>
  Wake-on-LAN, \<^verbatim>\<open>internal/wol\<close> (the Linux build): the magic payload, the raw Ethernet frame and
  the UDP datagrams of one barrage. The sockets are an environment of oracles: which
  interface exists and with what hardware address, whether a socket opens, whether a write
  succeeds. A send returns what it emitted, its count and whether it reports an error.
\<close>

record sockets =
  k_iface :: "string \<Rightarrow> byte list option"
  k_l2_listen :: "string \<Rightarrow> bool"
  k_l2_write :: "byte list \<Rightarrow> bool"
  k_udp_listen :: bool
  k_udp_write :: "ip \<Rightarrow> int \<Rightarrow> bool"

datatype packet = Frame "byte list" | Datagram ip int "byte list"

definition wakePorts :: "int list" where
  "wakePorts = [9, 7]"

record waker =
  w_Iface :: string
  w_Broadcast :: string

definition MagicPayload :: "byte list \<Rightarrow> byte list" where
  "MagicPayload mac = replicate 6 0xFF @ concat (replicate 16 mac)"

definition l2_frame :: "byte list \<Rightarrow> byte list \<Rightarrow> byte list" where
  "l2_frame src payload = replicate 6 0xFF @ src @ [0x08, 0x42] @ payload"

definition sendL2 :: "sockets \<Rightarrow> string \<Rightarrow> byte list \<Rightarrow> byte list \<Rightarrow> packet list \<times> nat \<times> bool" where
  "sendL2 k iface mac payload =
     (case k_iface k iface of
        None \<Rightarrow> ([], 0, True)
      | Some src \<Rightarrow>
          if \<not> k_l2_listen k iface then ([], 0, True)
          else if \<not> k_l2_write k (l2_frame src payload) then ([], 0, True)
          else ([Frame (l2_frame src payload)], 1, False))"

text \<open>The inner loop over the ports, with the running count and the first error.\<close>

fun udp_ports :: "sockets \<Rightarrow> byte list \<Rightarrow> ip \<Rightarrow> int list \<Rightarrow> packet list \<times> nat \<times> bool \<Rightarrow> packet list \<times> nat \<times> bool" where
  "udp_ports k payload a [] st = st"
| "udp_ports k payload a (p # ps) (out, sent, err) =
     (if k_udp_write k a p then udp_ports k payload a ps (out @ [Datagram a p payload], Suc sent, err)
      else udp_ports k payload a ps (out, sent, True))"

fun udp_dests :: "sockets \<Rightarrow> byte list \<Rightarrow> string list \<Rightarrow> int list \<Rightarrow> packet list \<times> nat \<times> bool \<Rightarrow> packet list \<times> nat \<times> bool" where
  "udp_dests k payload [] ports st = st"
| "udp_dests k payload (d # ds) ports st =
     (if ParseIP d = [] then udp_dests k payload ds ports st
      else udp_dests k payload ds ports (udp_ports k payload (ParseIP d) ports st))"

definition sendUDP :: "sockets \<Rightarrow> byte list \<Rightarrow> string list \<Rightarrow> int list \<Rightarrow> packet list \<times> nat \<times> bool" where
  "sendUDP k payload dests ports =
     (if \<not> k_udp_listen k then ([], 0, True) else udp_dests k payload dests ports ([], 0, False))"

definition wake_dests :: "waker \<Rightarrow> string \<Rightarrow> string list" where
  "wake_dests wk unicastIP =
     (if w_Broadcast wk \<noteq> [] then [w_Broadcast wk] else []) @ [''255.255.255.255''] @
     (if unicastIP \<noteq> [] then [unicastIP] else [])"

definition waker_Send :: "sockets \<Rightarrow> waker \<Rightarrow> byte list \<Rightarrow> string \<Rightarrow> packet list \<times> nat \<times> bool" where
  "waker_Send k wk mac unicastIP =
     (let payload = MagicPayload mac;
          (out1, n1, err1) = sendL2 k (w_Iface wk) mac payload;
          (out2, n2, err2) = sendUDP k payload (wake_dests wk unicastIP) wakePorts
      in (out1 @ out2, (if err1 then 0 else n1) + n2, err1 \<or> err2))"

section \<open>What is emitted\<close>

lemma udp_ports_spec: "udp_ports k payload a ps (out, sent, err) =
  (out @ map (\<lambda>p. Datagram a p payload) (filter (k_udp_write k a) ps),
   sent + length (filter (k_udp_write k a) ps), err \<or> (\<exists>p \<in> set ps. \<not> k_udp_write k a p))"
  by (induction ps arbitrary: out sent err) auto

definition datagrams :: "sockets \<Rightarrow> byte list \<Rightarrow> string list \<Rightarrow> int list \<Rightarrow> packet list" where
  "datagrams k payload dests ports =
     concat (map (\<lambda>d. if ParseIP d = [] then []
       else map (\<lambda>p. Datagram (ParseIP d) p payload) (filter (k_udp_write k (ParseIP d)) ports)) dests)"

lemma udp_dests_spec: "udp_dests k payload ds ports (out, sent, err) =
  (out @ datagrams k payload ds ports, sent + length (datagrams k payload ds ports),
   err \<or> (\<exists>d \<in> set ds. ParseIP d \<noteq> [] \<and> (\<exists>p \<in> set ports. \<not> k_udp_write k (ParseIP d) p)))"
proof (induction ds arbitrary: out sent err)
  case Nil
  then show ?case by (simp add: datagrams_def)
next
  case (Cons d ds)
  then show ?case by (auto simp: udp_ports_spec datagrams_def)
qed

lemma concat_replicate_nth:
  assumes "i < n"
  shows "take (length xs) (drop (length xs * i) (concat (replicate n xs))) = xs"
proof -
  have "n = i + Suc (n - Suc i)" using assms by simp
  then have "concat (replicate n xs) = concat (replicate i xs) @ xs @ concat (replicate (n - Suc i) xs)"
    by (metis concat.simps(2) concat_append replicate_Suc replicate_add)
  moreover have "length (concat (replicate i xs)) = length xs * i"
    by (induction i) auto
  ultimately show ?thesis by simp
qed

section \<open>Properties\<close>

text \<open>
  The magic payload has the Wake-on-LAN form: six 0xFF bytes, then the target's address
  sixteen times, 102 bytes for a six-byte address; the raw frame carries it to the broadcast
  address under the WoL ethertype.
\<close>

theorem magic_payload_form:
  assumes "length mac = 6" and "i < 16"
  shows "length (MagicPayload mac) = 102 \<and> take 6 (MagicPayload mac) = replicate 6 0xFF \<and>
    take 6 (drop (6 + 6 * i) (MagicPayload mac)) = mac \<and>
    drop 14 (l2_frame mac (MagicPayload mac)) = MagicPayload mac \<and>
    take 6 (l2_frame mac (MagicPayload mac)) = replicate 6 0xFF \<and>
    take 2 (drop 12 (l2_frame mac (MagicPayload mac))) = [0x08, 0x42]"
proof -
  have "length (concat (replicate 16 mac)) = 96"
    using assms(1) by (simp add: length_concat sum_list_replicate)
  moreover have "take 6 (drop (6 * i) (concat (replicate 16 mac))) = mac"
    using concat_replicate_nth [OF assms(2), of mac] assms(1) by simp
  ultimately show ?thesis using assms(1)
    by (simp add: MagicPayload_def l2_frame_def)
qed

lemma magic_payload_form_witness:
  "take 6 (drop 96 (MagicPayload [0xAA, 0xBB, 0xCC, 0xDD, 0xEE, 0xFF])) = [0xAA, 0xBB, 0xCC, 0xDD, 0xEE, 0xFF]"
  using magic_payload_form [of "[0xAA, 0xBB, 0xCC, 0xDD, 0xEE, 0xFF]" 15] by simp

lemma length_datagrams: "length (datagrams k pl ds [9, 7]) \<le> 2 * length ds"
  by (induction ds) (auto simp: datagrams_def)

lemma waker_Send_count:
  assumes "waker_Send k wk mac unicastIP = (out, sent, err)"
  shows "sent = length out \<and> sent \<le> 7"
proof -
  have "length (wake_dests wk unicastIP) \<le> 3" by (simp add: wake_dests_def)
  then have "length (datagrams k (MagicPayload mac) (wake_dests wk unicastIP) [9, 7]) \<le> 6"
    using length_datagrams [of k "MagicPayload mac" "wake_dests wk unicastIP"] by linarith
  then show ?thesis using assms
    by (auto simp: waker_Send_def Let_def sendL2_def sendUDP_def udp_dests_spec wakePorts_def split: option.splits if_splits)
qed

text \<open>
  C35. A barrage is never aborted by a failure. Whatever sockets fail, one send emits the raw frame
  when the interface allows it and, when the UDP socket opens, exactly the datagrams whose
  destination parses and whose write succeeds, to each destination on ports 9 and 7; the count
  it returns is the number of packets emitted, and an error is reported exactly when something
  failed.
\<close>

theorem barrage_is_complete:
  "case waker_Send k wk mac unicastIP of (out, sent, err) \<Rightarrow>
     sent = length out \<and> sent \<le> 7 \<and>
     out = (case k_iface k (w_Iface wk) of None \<Rightarrow> []
         | Some src \<Rightarrow> if k_l2_listen k (w_Iface wk) \<and> k_l2_write k (l2_frame src (MagicPayload mac))
             then [Frame (l2_frame src (MagicPayload mac))] else []) @
       (if k_udp_listen k then datagrams k (MagicPayload mac) (wake_dests wk unicastIP) [9, 7] else []) \<and>
     (err \<longleftrightarrow> (\<forall>m. Frame m \<notin> set out) \<or> \<not> k_udp_listen k \<or>
        (\<exists>d \<in> set (wake_dests wk unicastIP). ParseIP d \<noteq> [] \<and> (\<exists>p \<in> {9, 7}. \<not> k_udp_write k (ParseIP d) p)))"
proof -
  have len: "length (wake_dests wk unicastIP) \<le> 3" by (simp add: wake_dests_def)
  have nf: "Frame m \<notin> set (datagrams k pl ds ps)" for m pl ds ps
    by (auto simp: datagrams_def split: if_splits)
  have d6: "length (datagrams k (MagicPayload mac) (wake_dests wk unicastIP) [9, 7]) \<le> 6"
    using length_datagrams [of k "MagicPayload mac" "wake_dests wk unicastIP"] len by linarith
  show ?thesis
    using d6 nf
    by (auto simp: waker_Send_def Let_def sendL2_def sendUDP_def udp_dests_spec wakePorts_def split: option.splits)
qed

definition demo_sockets :: sockets where
  "demo_sockets = \<lparr>k_iface = \<lambda>_. None, k_l2_listen = \<lambda>_. True, k_l2_write = \<lambda>_. True,
     k_udp_listen = True, k_udp_write = \<lambda>a p. p = 7\<rparr>"

lemma demo_sockets_bad_write: "ParseIP ''10.0.0.2'' \<noteq> [] \<and> \<not> k_udp_write demo_sockets (ParseIP ''10.0.0.2'') 9"
  by code_simp

lemma barrage_is_complete_witness:
  "case waker_Send demo_sockets \<lparr>w_Iface = ''eth0'', w_Broadcast = ''10.0.0.255''\<rparr> [1, 2, 3, 4, 5, 6] ''10.0.0.2'' of
     (out, sent, err) \<Rightarrow> sent = length out \<and> err"
proof -
  let ?wk = "\<lparr>w_Iface = ''eth0'', w_Broadcast = ''10.0.0.255''\<rparr>"
  have "''10.0.0.2'' \<in> set (wake_dests ?wk ''10.0.0.2'')" by (simp add: wake_dests_def)
  with demo_sockets_bad_write barrage_is_complete [of demo_sockets ?wk "[1, 2, 3, 4, 5, 6]" "''10.0.0.2''"]
  show ?thesis by (auto split: prod.splits)
qed

end
