(* ===== verification/GoNetProps.thy ===== *)
theory GoNetProps
  imports GoNet
begin

text \<open>
  Arithmetic of IPv4 addresses: a four-byte slice is the base-256 notation of a number below
  \<open>2 ^ 32\<close>, masking is integer division, and printing and parsing are inverse.
\<close>

unbundle bit_operations_syntax

section \<open>Decimal round trip\<close>

lemma dec_val_digit [simp]: "d < 10 \<Longrightarrow> dec_val (char_of (48 + d)) = Some d"
  by (simp add: dec_val_def)

lemma dec_digits_snoc: "dec_digits acc (xs @ [c]) =
  (case dec_digits acc xs of None \<Rightarrow> None
   | Some v \<Rightarrow> (case dec_val c of None \<Rightarrow> None | Some d \<Rightarrow> Some (10 * v + d)))"
  by (induction xs arbitrary: acc) (auto split: option.splits)

lemma nat_string_rec: "nat_string n = (if n < 10 then [] else nat_string (n div 10)) @ [char_of (48 + n mod 10)]"
  by (subst nat_string.simps) simp

lemma dec_digits_nat_string: "dec_digits 0 (nat_string n) = Some n"
proof (induction n rule: less_induct)
  case (less n)
  show ?case
  proof (cases "n < 10")
    case True
    then show ?thesis by (subst nat_string_rec) (simp add: dec_digits_snoc)
  next
    case False
    then show ?thesis
      by (subst nat_string_rec) (simp add: dec_digits_snoc less)
  qed
qed

lemma nat_string_nonempty [simp]: "nat_string n \<noteq> []"
  by (subst nat_string_rec) simp

lemma parse_nat_string [simp]: "parse_nat (nat_string n) = Some n"
  by (simp add: parse_nat_def dec_digits_nat_string)

lemma nat_string_chars: "c \<in> set (nat_string n) \<Longrightarrow> \<exists>d<10. c = char_of (48 + d :: nat)"
proof (induction n rule: less_induct)
  case (less n)
  have "c \<in> set (if n < 10 then [] else nat_string (n div 10)) \<or> c = char_of (48 + n mod 10)"
    using less.prems by (subst (asm) nat_string_rec) (simp only: set_append Un_iff set_simps insert_iff empty_iff, blast)
  then show ?case
  proof
    assume c: "c \<in> set (if n < 10 then [] else nat_string (n div 10))"
    then have "n div 10 < n" "c \<in> set (nat_string (n div 10))" by (cases "n < 10"; simp)+
    from less.IH [OF this] show ?thesis .
  qed (auto intro: exI [of _ "n mod 10"])
qed

lemma nat_string_hd: "n \<noteq> 0 \<Longrightarrow> hd (nat_string n) \<noteq> CHR ''0''"
proof (induction n rule: less_induct)
  case (less n)
  show ?case
  proof (cases "n < 10")
    case True
    then show ?thesis
      using less.prems by (subst nat_string_rec) (auto simp: char_eq_nat simp del: of_char_eq_iff)
  next
    case False
    then have "hd (nat_string n) = hd (nat_string (n div 10))"
      by (subst nat_string_rec) (simp add: hd_append)
    with less False show ?thesis by simp
  qed
qed

lemma nat_string_no_punct: "c \<in> set (nat_string n) \<Longrightarrow> c \<notin> {CHR ''.'', CHR '':'', CHR ''%'', CHR ''/''}"
  by (drule nat_string_chars) (auto simp: char_eq_nat simp del: of_char_eq_iff)

lemma length_nat_string_1: "n < 10 \<Longrightarrow> length (nat_string n) = 1"
  by (subst nat_string_rec) simp

lemma v4_field_string [simp]: "v4_field (nat_string (unat (b :: byte))) = Some b"
proof -
  have "\<not> (length (nat_string (unat b)) > 1 \<and> hd (nat_string (unat b)) = CHR ''0'')"
    using nat_string_hd [of "unat b"] length_nat_string_1 [of "unat b"] by (cases "unat b = 0") auto
  moreover have "\<not> unat b > 255" using unat_byte_less [of b] by arith
  ultimately show ?thesis by (auto simp: v4_field_def)
qed

section \<open>IPv4 round trip\<close>

lemma length_4: "length xs = 4 \<longleftrightarrow> (\<exists>a b c d. xs = [a, b, c, d])"
  by (auto simp: length_Suc_conv numeral_eq_Suc)

lemma split_v4_string:
  "a \<noteq> [] \<Longrightarrow> split_on (CHR ''.'') (v4_string a) = map (\<lambda>b. nat_string (unat b)) a"
  unfolding v4_string_def using nat_string_no_punct by (intro split_join) auto

lemma parse_v4_string: "length a = 4 \<Longrightarrow> parse_v4 (v4_string a) = Some a"
  by (auto simp: parse_v4_def split_v4_string length_4)

lemma v4_string_chars: "c \<in> set (v4_string a) \<Longrightarrow> c \<noteq> CHR '':'' \<and> c \<noteq> CHR ''%'' \<and> c \<noteq> CHR ''/''"
proof (induction a)
  case Nil
  then show ?case by (simp add: v4_string_def)
next
  case (Cons b a)
  then show ?case
    using nat_string_no_punct [of c "unat b"] by (cases a) (auto simp: v4_string_def)
qed

lemma parse_addr_v4_string:
  assumes "length a = 4"
  shows "parse_addr (v4_string a) = Some a"
proof -
  let ?s = "v4_string a" and ?p = "\<lambda>c. c = CHR ''.'' \<or> c = CHR '':''"
  have "CHR ''.'' \<in> set ?s"
    using assms unfolding length_4 by (elim exE) (simp add: v4_string_def)
  then have "\<exists>c \<in> set ?s. ?p c" by blast
  then obtain i where i: "index_where ?p ?s = Some i"
    using index_where_None [of ?p ?s] by auto
  then have "?s ! i = CHR ''.''"
    using index_where_Some [OF i] v4_string_chars [of "?s ! i" a] nth_mem by auto
  with i assms show ?thesis
    using v4_string_chars [of _ a] by (auto simp: parse_addr_def parse_v4_string)
qed

lemma ParseIP_v4_string: "length a = 4 \<Longrightarrow> ParseIP (v4_string a) = v4InV6Prefix @ a"
  by (simp add: ParseIP_def parse_addr_v4_string To16_def)

lemma length_v4InV6Prefix [simp]: "length v4InV6Prefix = 12"
  by (simp add: v4InV6Prefix_def)

lemma To4_v4 [simp]: "length a = 4 \<Longrightarrow> To4 a = a" "length a = 4 \<Longrightarrow> To4 (v4InV6Prefix @ a) = a"
  by (simp_all add: To4_def)

lemma ip_string_v4: "length a = 4 \<Longrightarrow> ip_string a = v4_string a"
  by (auto simp: ip_string_def length_4)

section \<open>Addresses as numbers\<close>

text \<open>The base-256 digits of a number, least significant first.\<close>

fun le_bytes :: "nat \<Rightarrow> nat \<Rightarrow> byte list" where
  "le_bytes 0 k = []"
| "le_bytes (Suc n) k = of_nat k # le_bytes n (k div 256)"

definition v4_of :: "nat \<Rightarrow> ip" where
  "v4_of k = rev (le_bytes 4 k)"

lemma length_le_bytes [simp]: "length (le_bytes n k) = n"
  by (induction n arbitrary: k) auto

lemma length_v4_of [simp]: "length (v4_of k) = 4"
  by (simp add: v4_of_def)

lemma v4_of_nonempty [simp]: "v4_of k \<noteq> []"
  using length_v4_of [of k] by (metis list.size(3) zero_neq_numeral)

lemma of_nat_byte_eq: "(of_nat j :: byte) = of_nat k \<longleftrightarrow> j mod 256 = k mod 256"
  by (simp add: word_of_nat_eq_iff take_bit_eq_mod)

lemma le_bytes_inj: "le_bytes n j = le_bytes n k \<longleftrightarrow> j mod 256 ^ n = k mod 256 ^ n"
proof (induction n arbitrary: j k)
  case 0
  then show ?case by simp
next
  case (Suc n)
  have "j mod 256 ^ Suc n = j mod 256 + 256 * (j div 256 mod 256 ^ n)" for j :: nat
    by (simp add: mod_mult2_eq)
  moreover have "a + 256 * b = c + 256 * d \<longleftrightarrow> a = c \<and> b = d" if l: "a < 256" "c < 256" for a b c d :: nat
  proof
    assume eq: "a + 256 * b = c + 256 * d"
    then have "(a + 256 * b) mod 256 = (c + 256 * d) mod 256" by (simp only:)
    with l have "a = c" by simp
    with eq show "a = c \<and> b = d" by simp
  qed simp
  ultimately show ?case by (simp add: Suc of_nat_byte_eq)
qed

lemma v4_of_inj: "j < 2 ^ 32 \<Longrightarrow> k < 2 ^ 32 \<Longrightarrow> v4_of j = v4_of k \<longleftrightarrow> j = k"
  by (simp add: v4_of_def le_bytes_inj)

lemma le_bytes_ex: "\<exists>k < 256 ^ length bs. le_bytes (length bs) k = bs"
proof (induction bs)
  case Nil
  then show ?case by simp
next
  case (Cons b bs)
  then obtain k where k: "k < 256 ^ length bs" "le_bytes (length bs) k = bs" by blast
  have lt: "unat b + 256 * k < 256 ^ length (b # bs)"
  proof -
    have "256 * Suc k \<le> 256 * 256 ^ length bs" using k(1) by simp
    then have "256 + 256 * k \<le> 256 ^ length (b # bs)" by simp
    moreover have "unat b + 256 * k < 256 + 256 * k" using unat_byte_less [of b] by simp
    ultimately show ?thesis by (rule less_le_trans [rotated])
  qed
  have "(of_nat (unat b + 256 * k) :: byte) = of_nat (unat b)"
    by (subst of_nat_byte_eq) simp
  moreover have "(unat b + 256 * k) div 256 = k" using unat_byte_less [of b] by simp
  ultimately have "le_bytes (length (b # bs)) (unat b + 256 * k) = b # bs"
    using k(2) by (simp del: of_nat_add)
  with lt show ?case by blast
qed

lemma v4_of_ex: "length a = 4 \<Longrightarrow> \<exists>k < 2 ^ 32. a = v4_of k"
  using le_bytes_ex [of "rev a"] by (auto simp: v4_of_def)

section \<open>Masks\<close>

lemma and_le_bytes: "map2 (AND) (le_bytes n j) (le_bytes n k) = le_bytes n (j AND k)"
proof (induction n arbitrary: j k)
  case 0
  then show ?case by simp
next
  case (Suc n)
  have "(j AND k) div 256 = (j div 256) AND (k div 256)"
    using drop_bit_and [of 8 j k] by (simp add: drop_bit_eq_div)
  then show ?case by (simp add: Suc of_nat_and_eq)
qed

lemma map2_rev: "length xs = length ys \<Longrightarrow> map2 f (rev xs) (rev ys) = rev (map2 f xs ys)"
  by (simp add: zip_rev rev_map)

lemma and_bytes_v4: "and_bytes (v4_of j) (v4_of k) = v4_of (j AND k)"
  by (simp add: and_bytes_def v4_of_def map2_rev and_le_bytes)

definition host_bits :: "nat \<Rightarrow> nat" where
  "host_bits n = 32 - n"

lemma v4_of_explicit:
  "v4_of k = [of_nat (k div 16777216), of_nat (k div 65536), of_nat (k div 256), of_nat k]"
proof -
  have "(4 :: nat) = Suc (Suc (Suc (Suc 0)))" by simp
  then have "v4_of k = [of_nat (k div 256 div 256 div 256), of_nat (k div 256 div 256), of_nat (k div 256), of_nat k]"
    by (simp only: v4_of_def le_bytes.simps rev.simps append.simps)
  then show ?thesis by (simp flip: div_mult2_eq)
qed

lemma mask_byte:
  assumes "k < 8"
  shows "(NOT (drop_bit k 0xFF) :: byte) = of_nat (256 - 2 ^ (8 - k))"
proof -
  have "\<forall>k \<in> {0, 1, 2, 3, 4, 5, 6, 7}. (NOT (drop_bit k 0xFF) :: byte) = of_nat (256 - 2 ^ (8 - k))"
    by code_simp
  moreover have "k \<in> {0, 1, 2, 3, 4, 5, 6, 7}" using assms by auto
  ultimately show ?thesis by blast
qed

lemma le_bytes_top: "le_bytes (Suc l) k = le_bytes l k @ [of_nat (k div 256 ^ l)]"
  by (induction l arbitrary: k) (simp_all add: div_mult2_eq)

lemma le_bytes_mod: "le_bytes l (k mod 256 ^ l) = le_bytes l k"
  by (simp add: le_bytes_inj)

lemma cidr_zero: "cidr_bytes 0 l = rev (le_bytes l 0)"
proof (induction l)
  case (Suc l)
  have "(NOT (drop_bit 0 0xFF) :: byte) = 0" by code_simp
  then show ?case using Suc by (simp add: le_bytes_top del: le_bytes.simps(2))
qed simp

lemma cidr_bytes_le: "n \<le> 8 * l \<Longrightarrow> cidr_bytes n l = rev (le_bytes l (256 ^ l - 2 ^ (8 * l - n)))"
proof (induction l arbitrary: n)
  case 0
  then show ?case by simp
next
  case (Suc l)
  let ?B = "256 ^ l :: nat" and ?k = "256 ^ Suc l - 2 ^ (8 * Suc l - n) :: nat"
  have e: "?B = 2 ^ (8 * l)" by (simp add: power_mult)
  have "?k div ?B = (if 8 \<le> n then 255 else 256 - 2 ^ (8 - n)) \<and>
      le_bytes l (?k mod ?B) = (if 8 \<le> n then le_bytes l (?B - 2 ^ (8 * l - (n - 8))) else le_bytes l 0)"
  proof (cases "8 \<le> n")
    case True
    let ?r = "2 ^ (8 * l - (n - 8)) :: nat"
    have x: "8 * Suc l - n = 8 * l - (n - 8)" using True by simp
    have r: "?r \<le> ?B" "0 < ?r" unfolding e by (simp_all add: power_increasing)
    have k: "?k = 255 * ?B + (?B - ?r)" unfolding x using r by simp
    have "(255 * ?B + (?B - ?r)) div ?B = 255" using r by (intro div_nat_eqI) (simp_all add: algebra_simps)
    moreover have "le_bytes l ((255 * ?B + (?B - ?r)) mod ?B) = le_bytes l (?B - ?r)"
      unfolding le_bytes_mod by (simp add: le_bytes_inj)
    ultimately show ?thesis unfolding k using True by simp
  next
    case False
    have "2 ^ (8 * Suc l - n) = ?B * 2 ^ (8 - n)"
      unfolding e power_add [symmetric] using False by simp
    then have k: "?k = ?B * (256 - 2 ^ (8 - n))" by (simp add: diff_mult_distrib2)
    show ?thesis unfolding k using False by simp
  qed
  then show ?case
    using Suc.IH [of "n - 8"] Suc.prems
    by (auto simp: le_bytes_top cidr_zero mask_byte le_bytes_mod simp del: le_bytes.simps(2) split: if_splits)
qed

lemma CIDRMask_v4:
  assumes "n \<le> 32"
  shows "CIDRMask n 32 = v4_of (2 ^ 32 - 2 ^ host_bits n)"
  using assms cidr_bytes_le [of n 4] by (simp add: CIDRMask_def v4_of_def host_bits_def)

lemma and_mask:
  fixes x :: nat
  assumes "x < 2 ^ 32" and "j \<le> 32"
  shows "x AND (2 ^ 32 - 2 ^ j) = 2 ^ j * (x div 2 ^ j)"
proof -
  have p: "(2 :: nat) ^ 32 = 2 ^ (32 - j) * 2 ^ j"
    using assms(2) by (metis le_add_diff_inverse2 power_add)
  have m: "(2 ^ 32 - 2 ^ j :: nat) = push_bit j (mask (32 - j))"
    unfolding push_bit_eq_mult mask_eq_exp_minus_1 p by (simp add: diff_mult_distrib)
  have b: "bit x i \<Longrightarrow> i < 32" for i
    using assms(1) by (metis bit_take_bit_iff take_bit_nat_eq_self)
  have "x AND push_bit j (mask (32 - j)) = push_bit j (drop_bit j x)"
    by (intro bit_eqI) (auto simp: bit_simps intro: diff_less_mono dest: b)
  then show ?thesis unfolding m by (simp add: push_bit_eq_mult drop_bit_eq_div mult.commute)
qed

definition v4_net :: "nat \<Rightarrow> nat \<Rightarrow> ipnet" where
  "v4_net k n = \<lparr>n_IP = v4_of k, n_Mask = CIDRMask n 32\<rparr>"

lemma network_v4: "n \<le> 32 \<Longrightarrow> network_number (v4_net k n) = (v4_of k, CIDRMask n 32)"
  by (simp add: network_number_def v4_net_def Let_def CIDRMask_v4)

text \<open>A network contains the addresses that agree with its own on the prefix.\<close>

lemma contains_v4:
  assumes "n \<le> 32" and "k < 2 ^ 32" and "x < 2 ^ 32"
  shows "ip_contains (v4_net k n) (v4_of x) \<longleftrightarrow> x div 2 ^ host_bits n = k div 2 ^ host_bits n"
proof -
  have h: "host_bits n \<le> 32" by (simp add: host_bits_def)
  have lt: "2 ^ host_bits n * (y div 2 ^ host_bits n) < 2 ^ 32" if "y < 2 ^ 32" for y :: nat
    using that by (metis le_less_trans times_div_less_eq_dividend)
  show ?thesis
    using assms lt [OF assms(2)] lt [OF assms(3)]
    by (auto simp: ip_contains_def network_v4 CIDRMask_v4 and_bytes_v4 and_mask [OF _ h, simplified] v4_of_inj)
qed

lemma mask_v4:
  assumes "n \<le> 32" and "k < 2 ^ 32"
  shows "ip_mask (v4_of k) (CIDRMask n 32) = v4_of (2 ^ host_bits n * (k div 2 ^ host_bits n))"
proof -
  have h: "host_bits n \<le> 32" by (simp add: host_bits_def)
  show ?thesis
    using assms by (simp add: ip_mask_def Let_def CIDRMask_v4 and_bytes_v4 and_mask [OF _ h, simplified])
qed

end
