(* ===== verification/Netconf.thy ===== *)
theory Netconf
  imports GoNetProps
begin

text \<open>
  The LAN interface, \<^verbatim>\<open>internal/netconf\<close> (the Linux build). What the kernel reports enters as
  arguments: the interfaces with their addresses, the lines of \<^verbatim>\<open>/proc/net/route\<close> and of
  \<^verbatim>\<open>/etc/resolv.conf\<close> (\<open>None\<close> when the file cannot be opened). \<open>None\<close> as the result of
  \<open>Broadcast\<close> is a Go panic (an index out of range).
\<close>

unbundle bit_operations_syntax

record iface =
  i_Name :: string
  i_Up :: bool
  i_Loopback :: bool
  i_Addrs :: "ipnet option list"

record net_info =
  ni_Iface :: string
  ni_IP :: string
  ni_CIDR :: string
  ni_Broadcast :: string
  ni_Gateway :: string
  ni_DNS :: "string list"
  ni_TSIP :: string
  ni_ipNet :: ipnet

definition Broadcast :: "ip \<Rightarrow> byte list \<Rightarrow> ip option" where
  "Broadcast ip msk =
     (let a = To4 ip in
      if length a < 4 \<or> length msk < 4 then None
      else Some (map (\<lambda>i. a ! i OR NOT (msk ! i)) [0..<4]))"

definition isTailnet :: "ip \<Rightarrow> bool" where
  "isTailnet ip = (let a = To4 ip in a \<noteq> [] \<and> a ! 0 = 100 \<and> 64 \<le> a ! 1 \<and> a ! 1 \<le> 127)"

definition skipIface :: "string \<Rightarrow> bool" where
  "skipIface name \<longleftrightarrow>
     (\<exists>p \<in> set [''tailscale'', ''utun'', ''docker'', ''br-'', ''veth'', ''lo'']. has_prefix name p)"

definition SubnetSize :: "string \<Rightarrow> nat option" where
  "SubnetSize cidr =
     (case ParseCIDR cidr of
        None \<Rightarrow> None
      | Some (_, n) \<Rightarrow>
          (let (ones, bits) = mask_size (n_Mask n) in
           if bits \<noteq> 32 then None else Some (2 ^ (bits - ones))))"

text \<open>The scan over the addresses: the chosen interface, if any, and the tailnet address.\<close>

type_synonym detect_state = "(string \<times> ip \<times> ipnet) option \<times> string"

definition detect_addr :: "string \<Rightarrow> iface \<Rightarrow> ipnet option \<Rightarrow> detect_state \<Rightarrow> detect_state" where
  "detect_addr pref ifc a st =
     (case a of
        None \<Rightarrow> st
      | Some ipn \<Rightarrow>
          let ip4 = To4 (n_IP ipn) in
          if ip4 = [] then st
          else if isTailnet ip4 then (fst st, ip_string ip4)
          else if \<not> IsPrivate ip4 then st
          else if skipIface (i_Name ifc) then st
          else if pref \<noteq> [] \<and> i_Name ifc \<noteq> pref then st
          else if fst st = None then (Some (i_Name ifc, ip4, ipn), snd st) else st)"

definition detect_iface :: "string \<Rightarrow> iface \<Rightarrow> detect_state \<Rightarrow> detect_state" where
  "detect_iface pref ifc st =
     (if \<not> i_Up ifc \<or> i_Loopback ifc then st else fold (detect_addr pref ifc) (i_Addrs ifc) st)"

text \<open>\<^verbatim>\<open>hex.DecodeString\<close>.\<close>

fun hex_decode :: "string \<Rightarrow> byte list option" where
  "hex_decode [] = Some []"
| "hex_decode [a] = None"
| "hex_decode (a # b # r) =
     (case (hex_byte a b, hex_decode r) of (Some x, Some xs) \<Rightarrow> Some (x # xs) | _ \<Rightarrow> None)"

definition route_line :: "string \<Rightarrow> string option" where
  "route_line line =
     (let fs = str_fields line in
      if length fs < 3 \<or> fs ! 1 \<noteq> ''00000000'' then None
      else (case hex_decode (fs ! 2) of
              Some [a, b, c, d] \<Rightarrow> Some (v4_string [d, c, b, a])
            | _ \<Rightarrow> None))"

definition defaultGateway :: "string list option \<Rightarrow> string" where
  "defaultGateway file =
     (case file of None \<Rightarrow> []
      | Some ls \<Rightarrow> (case List.map_filter route_line (drop 1 ls) of [] \<Rightarrow> [] | g # _ \<Rightarrow> g))"

definition resolv_line :: "string \<Rightarrow> string option" where
  "resolv_line text =
     (let line = trim_space text in
      if has_prefix line ''nameserver'' then
        (case str_fields line of [_, server] \<Rightarrow> Some server | _ \<Rightarrow> None)
      else None)"

definition systemDNS :: "string list option \<Rightarrow> string list" where
  "systemDNS file = (case file of None \<Rightarrow> [] | Some ls \<Rightarrow> List.map_filter resolv_line ls)"

datatype detect_result = Detected net_info | No_interface | Detect_panic

definition Detect :: "string list option \<Rightarrow> string list option \<Rightarrow> string \<Rightarrow> iface list option \<Rightarrow> detect_result" where
  "Detect route resolv pref ifaces =
     (case ifaces of
        None \<Rightarrow> No_interface
      | Some ifs \<Rightarrow>
          (case fold (detect_iface pref) ifs (None, []) of
             (None, _) \<Rightarrow> No_interface
           | (Some (name, ip4, ipn), tsIP) \<Rightarrow>
               (case Broadcast ip4 (n_Mask ipn) of
                  None \<Rightarrow> Detect_panic
                | Some b \<Rightarrow> Detected
                    \<lparr>ni_Iface = name, ni_IP = ip_string ip4,
                     ni_CIDR = net_string \<lparr>n_IP = ip_mask ip4 (n_Mask ipn), n_Mask = n_Mask ipn\<rparr>,
                     ni_Broadcast = ip_string b, ni_Gateway = defaultGateway route,
                     ni_DNS = systemDNS resolv, ni_TSIP = tsIP, ni_ipNet = ipn\<rparr>)))"

section \<open>The subnet-directed broadcast\<close>

lemma not_le_bytes: "map NOT (le_bytes n k) = le_bytes n (256 ^ n - 1 - k mod 256 ^ n)"
proof (induction n arbitrary: k)
  case 0
  then show ?case by simp
next
  case (Suc n)
  let ?B = "256 ^ n :: nat" and ?m = "256 ^ Suc n - 1 - k mod 256 ^ Suc n :: nat"
  have km: "k mod 256 ^ Suc n = k mod 256 + 256 * (k div 256 mod ?B)" by (simp add: mod_mult2_eq)
  have lt: "k div 256 mod ?B < ?B" "k mod 256 < 256" by simp_all
  have m: "?m = (255 - k mod 256) + 256 * (?B - 1 - k div 256 mod ?B)"
  proof -
    have "256 * (?B - 1 - k div 256 mod ?B) = 256 * ?B - 256 - 256 * (k div 256 mod ?B)"
      by (simp add: diff_mult_distrib2)
    moreover have "256 * Suc (k div 256 mod ?B) \<le> 256 * ?B" using lt(1) by (intro mult_le_mono2 Suc_leI)
    then have "256 + 256 * (k div 256 mod ?B) \<le> 256 * ?B" by simp
    ultimately show ?thesis unfolding km using lt(2) by simp
  qed
  have dm: "(r + 256 * q) div 256 = q \<and> (r + 256 * q) mod 256 = r" if "r < 256" for r q :: nat
    using that by simp
  have q: "?m div 256 = ?B - 1 - k div 256 mod ?B \<and> ?m mod 256 = 255 - k mod 256"
    unfolding m by (rule dm) simp
  then have "?m mod 256 = (255 - k mod 256) mod 256" by simp
  then have low: "(of_nat ?m :: byte) = of_nat (255 - k mod 256)" unfolding of_nat_byte_eq .
  have "(NOT (of_nat k) :: byte) = of_nat (255 - k mod 256)"
  proof -
    have "(of_nat k :: byte) = of_nat (k mod 256)" by (simp add: of_nat_byte_eq)
    moreover have "(of_nat (255 - k mod 256) :: byte) = 255 - of_nat (k mod 256)"
      using lt(2) by (simp add: of_nat_diff)
    ultimately show ?thesis by (simp add: not_eq_complement minus_1_eq_mask mask_eq_exp_minus_1)
  qed
  then show ?case
    by (simp only: le_bytes.simps list.map Suc.IH low conjunct1 [OF q])
qed

lemma or_le_bytes: "map2 (OR) (le_bytes n j) (le_bytes n k) = le_bytes n (j OR k)"
proof (induction n arbitrary: j k)
  case 0
  then show ?case by simp
next
  case (Suc n)
  have "(j OR k) div 256 = (j div 256) OR (k div 256)"
    using drop_bit_or [of 8 j k] by (simp add: drop_bit_eq_div)
  then show ?case by (simp add: Suc of_nat_or_eq)
qed

lemma or_host_mask:
  fixes k :: nat
  shows "k OR (2 ^ j - 1) = 2 ^ j * (k div 2 ^ j) + (2 ^ j - 1)"
proof -
  have "k OR mask j = push_bit j (drop_bit j k) OR mask j"
    by (intro bit_eqI) (auto simp: bit_simps)
  also have "\<dots> = push_bit j (drop_bit j k) + mask j"
    by (rule disjunctive_add_eq_or [symmetric], rule bit_eqI) (auto simp: bit_simps)
  finally show ?thesis by (simp add: mask_eq_exp_minus_1 push_bit_eq_mult drop_bit_eq_div mult.commute)
qed

lemma Broadcast_v4:
  assumes "n \<le> 32" and "k < 2 ^ 32"
  shows "Broadcast (v4_of k) (CIDRMask n 32) =
    Some (v4_of (2 ^ host_bits n * (k div 2 ^ host_bits n) + (2 ^ host_bits n - 1)))"
proof -
  let ?j = "host_bits n"
  have j: "?j \<le> 32" by (simp add: host_bits_def)
  have p: "(2 :: nat) ^ ?j \<le> 2 ^ 32" "0 < (2 :: nat) ^ ?j" using j by (simp_all add: power_increasing del: power_numeral)
  have "map (\<lambda>i. a ! i OR NOT (m ! i)) [0..<4] = map2 (OR) a (map NOT m)"
    if "length a = 4" "length m = 4" for a m :: "byte list"
    using that by (auto simp: length_4 upt_rec [of 0] upt_rec [of "Suc 0"] upt_rec [of "Suc (Suc 0)"]
        upt_rec [of "Suc (Suc (Suc 0))"])
  then have "Broadcast (v4_of k) (CIDRMask n 32) =
      Some (map2 (OR) (v4_of k) (map NOT (v4_of (2 ^ 32 - 2 ^ ?j))))"
    by (simp add: Broadcast_def Let_def CIDRMask_v4 assms(1))
  also have "map NOT (v4_of (2 ^ 32 - 2 ^ ?j)) = v4_of (2 ^ ?j - 1)"
    using p by (simp add: v4_of_def not_le_bytes flip: rev_map)
  also have "map2 (OR) (v4_of k) (v4_of (2 ^ ?j - 1)) = v4_of (k OR (2 ^ ?j - 1))"
    by (simp add: v4_of_def map2_rev or_le_bytes)
  finally show ?thesis unfolding or_host_mask .
qed

section \<open>What Detect picks\<close>

definition lan_addr :: "string \<Rightarrow> iface \<Rightarrow> ipnet \<Rightarrow> bool" where
  "lan_addr pref ifc ipn \<longleftrightarrow> i_Up ifc \<and> \<not> i_Loopback ifc \<and> Some ipn \<in> set (i_Addrs ifc) \<and> To4 (n_IP ipn) \<noteq> [] \<and>
     \<not> isTailnet (To4 (n_IP ipn)) \<and> IsPrivate (To4 (n_IP ipn)) \<and> \<not> skipIface (i_Name ifc) \<and>
     (pref = [] \<or> i_Name ifc = pref)"

definition picked :: "string \<Rightarrow> iface set \<Rightarrow> detect_state \<Rightarrow> bool" where
  "picked pref ifs st \<longleftrightarrow> (case fst st of None \<Rightarrow> True
     | Some (name, ip4, ipn) \<Rightarrow> \<exists>ifc \<in> ifs. name = i_Name ifc \<and> ip4 = To4 (n_IP ipn) \<and> lan_addr pref ifc ipn)"

lemma picked_addr:
  "picked pref ifs st \<Longrightarrow> ifc \<in> ifs \<Longrightarrow> i_Up ifc \<Longrightarrow> \<not> i_Loopback ifc \<Longrightarrow> a \<in> set (i_Addrs ifc) \<Longrightarrow>
   picked pref ifs (detect_addr pref ifc a st)"
  by (auto simp: picked_def detect_addr_def Let_def lan_addr_def split: option.splits)

lemma picked_iface:
  assumes "picked pref ifs st" and "ifc \<in> ifs"
  shows "picked pref ifs (detect_iface pref ifc st)"
proof -
  have "picked pref ifs (fold (detect_addr pref ifc) (i_Addrs ifc) st)" if "i_Up ifc" "\<not> i_Loopback ifc"
    by (rule fold_invariant [where Q = "\<lambda>a. a \<in> set (i_Addrs ifc)"])
      (use assms that in \<open>simp_all add: picked_addr\<close>)
  with assms show ?thesis by (auto simp: detect_iface_def)
qed

lemma picked_all: "set is \<subseteq> ifs \<Longrightarrow> picked pref ifs st \<Longrightarrow> picked pref ifs (fold (detect_iface pref) is st)"
  by (rule fold_invariant [where Q = "\<lambda>i. i \<in> ifs"]) (auto intro: picked_iface)

text \<open>A choice once made stands.\<close>

lemma detect_stable:
  "fst st \<noteq> None \<Longrightarrow> fst (fold (detect_iface pref) is st) = fst st"
proof (induction "is" arbitrary: st)
  case (Cons i "is")
  have "fst (fold (detect_addr pref i) as st) = fst st" if "fst st \<noteq> None" for as st
    using that by (induction as arbitrary: st) (auto simp: detect_addr_def Let_def split: option.splits)
  with Cons show ?case by (auto simp: detect_iface_def)
qed simp

lemma detect_addr_some:
  "\<not> isTailnet (To4 (n_IP ipn)) \<Longrightarrow> lan_addr pref ifc ipn \<Longrightarrow> fst (detect_addr pref ifc (Some ipn) st) \<noteq> None"
  by (simp add: detect_addr_def lan_addr_def Let_def)

lemma detect_iface_some:
  assumes "lan_addr pref ifc ipn"
  shows "fst (detect_iface pref ifc st) \<noteq> None"
proof -
  have keep: "fst (fold (detect_addr pref ifc) as st) = fst st" if "fst st \<noteq> None" for as st
    using that by (induction as arbitrary: st) (auto simp: detect_addr_def Let_def split: option.splits)
  obtain xs ys where "i_Addrs ifc = xs @ Some ipn # ys"
    using assms by (auto simp: lan_addr_def dest: split_list)
  moreover have "fst (detect_addr pref ifc (Some ipn) st') \<noteq> None" for st'
    using assms by (intro detect_addr_some) (simp_all add: lan_addr_def)
  ultimately show ?thesis
    using assms keep by (simp add: detect_iface_def lan_addr_def)
qed

section \<open>Properties\<close>

text \<open>
  C36. Detection finds the LAN interface. It succeeds exactly when some interface qualifies (up,
  not loopback, not a tunnel or container bridge, the preferred one if one is set, with a
  private IPv4 address outside the tailnet range); the interface it reports is such a one, and
  for a prefix of \<open>n\<close> bits its network and broadcast are the first and last address that agree
  with its own on those bits.
\<close>

theorem Detect_finds_lan:
  assumes "\<forall>ifc \<in> set ifs. \<forall>ipn. Some ipn \<in> set (i_Addrs ifc) \<longrightarrow>
    (To4 (n_IP ipn) \<noteq> [] \<longrightarrow> (\<exists>n \<le> 32. n_Mask ipn = CIDRMask n 32))"
  shows "case Detect route resolv pref (Some ifs) of
      Detected info \<Rightarrow> (\<exists>ifc \<in> set ifs. \<exists>ipn k n. lan_addr pref ifc ipn \<and> ni_Iface info = i_Name ifc \<and>
        ni_ipNet info = ipn \<and> k < 2 ^ 32 \<and> n \<le> 32 \<and> To4 (n_IP ipn) = v4_of k \<and> n_Mask ipn = CIDRMask n 32 \<and>
        ni_IP info = v4_string (v4_of k) \<and>
        ni_CIDR info = net_string (v4_net (2 ^ (32 - n) * (k div 2 ^ (32 - n))) n) \<and>
        ni_Broadcast info = v4_string (v4_of (2 ^ (32 - n) * (k div 2 ^ (32 - n)) + (2 ^ (32 - n) - 1))))
    | No_interface \<Rightarrow> \<not> (\<exists>ifc \<in> set ifs. \<exists>ipn. lan_addr pref ifc ipn)
    | Detect_panic \<Rightarrow> False"
proof -
  let ?st = "fold (detect_iface pref) ifs (None, [])"
  have p: "picked pref (set ifs) ?st" by (rule picked_all) (simp_all add: picked_def)
  show ?thesis
  proof (cases "fst ?st")
    case None
    have "\<not> lan_addr pref ifc ipn" if i: "ifc \<in> set ifs" for ifc ipn
    proof
      assume l: "lan_addr pref ifc ipn"
      from split_list [OF i] obtain xs ys where "ifs = xs @ ifc # ys" by blast
      then have "fst ?st \<noteq> None"
        using detect_stable detect_iface_some [OF l] by (simp del: fst_conv)
      with None show False by simp
    qed
    with None show ?thesis by (cases ?st) (auto simp: Detect_def)
  next
    case (Some c)
    obtain name ip4 ipn where c: "c = (name, ip4, ipn)" by (cases c)
    obtain ifc where ifc: "ifc \<in> set ifs" "name = i_Name ifc" "ip4 = To4 (n_IP ipn)" "lan_addr pref ifc ipn"
      using p Some c by (auto simp: picked_def)
    then obtain n where n: "n \<le> 32" "n_Mask ipn = CIDRMask n 32"
      using assms by (auto simp: lan_addr_def)
    have "length ip4 = 4" using ifc by (auto simp: lan_addr_def To4_def split: if_splits)
    then obtain k where k: "k < 2 ^ 32" "ip4 = v4_of k" using v4_of_ex by blast
    have d: "Detect route resolv pref (Some ifs) = Detected
        \<lparr>ni_Iface = name, ni_IP = v4_string (v4_of k),
         ni_CIDR = net_string (v4_net (2 ^ (32 - n) * (k div 2 ^ (32 - n))) n),
         ni_Broadcast = v4_string (v4_of (2 ^ (32 - n) * (k div 2 ^ (32 - n)) + (2 ^ (32 - n) - 1))),
         ni_Gateway = defaultGateway route, ni_DNS = systemDNS resolv, ni_TSIP = snd ?st, ni_ipNet = ipn\<rparr>"
      using Some c by (cases ?st)
        (simp add: Detect_def n k Broadcast_v4 [OF n(1) k(1)] mask_v4 [OF n(1) k(1)] ip_string_v4 v4_net_def host_bits_def)
    show ?thesis unfolding d detect_result.case
      using ifc n k by (intro bexI [of _ ifc] exI [of _ ipn] exI [of _ k] exI [of _ n]) simp_all
  qed
qed

definition demo_iface :: iface where
  "demo_iface = \<lparr>i_Name = ''eth0'', i_Up = True, i_Loopback = False,
     i_Addrs = [Some \<lparr>n_IP = [192, 168, 50, 7], n_Mask = CIDRMask 24 32\<rparr>]\<rparr>"

lemma Detect_finds_lan_witness:
  "Detect None None [] (Some [demo_iface]) \<noteq> No_interface \<and> Detect None None [] (Some [demo_iface]) \<noteq> Detect_panic"
proof -
  have l: "lan_addr [] demo_iface \<lparr>n_IP = [192, 168, 50, 7], n_Mask = CIDRMask 24 32\<rparr>"
    by (simp add: lan_addr_def demo_iface_def) code_simp
  have "\<forall>ifc \<in> set [demo_iface]. \<forall>ipn. Some ipn \<in> set (i_Addrs ifc) \<longrightarrow>
    (To4 (n_IP ipn) \<noteq> [] \<longrightarrow> (\<exists>n \<le> 32. n_Mask ipn = CIDRMask n 32))"
    by (auto simp: demo_iface_def intro: exI [of _ 24])
  from Detect_finds_lan [OF this, where route = None and resolv = None and pref = "[]"] l show ?thesis
    by (auto split: detect_result.splits)
qed

text \<open>The tailnet test is membership in 100.64.0.0/10.\<close>

theorem isTailnet_is_cgnat:
  assumes "k < 2 ^ 32"
  shows "isTailnet (v4_of k) \<longleftrightarrow> ip_contains (v4_net (100 * 2 ^ 24 + 64 * 2 ^ 16) 10) (v4_of k)"
proof -
  have b: "(of_nat x :: byte) = 100 \<longleftrightarrow> x = 100"
    "(64 \<le> (of_nat x :: byte) \<and> (of_nat x :: byte) \<le> 127) \<longleftrightarrow> 64 \<le> x \<and> x \<le> 127" if "x < 256" for x
    using of_nat_byte_eq [of x 100] that by (simp, simp add: word_le_nat_alt unat_of_nat)
  have m: "(of_nat x :: byte) = of_nat (x mod 256)" for x by (simp add: of_nat_byte_eq)
  have "k div 16777216 < 256" using assms by simp
  then have "isTailnet (v4_of k) \<longleftrightarrow> k div 16777216 = 100 \<and> 64 \<le> k div 65536 mod 256 \<and> k div 65536 mod 256 \<le> 127"
    using b(1) [of "k div 16777216"] b(2) [of "k div 65536 mod 256"] m [of "k div 65536"]
    by (simp add: isTailnet_def v4_of_explicit To4_def)
  also have "\<dots> \<longleftrightarrow> k div 65536 div 256 = 100 \<and> 64 \<le> k div 65536 mod 256 \<and> k div 65536 mod 256 \<le> 127"
    by (simp flip: div_mult2_eq)
  also have "\<dots> \<longleftrightarrow> k div 65536 div 64 = 401"
  proof -
    have "y div 256 = 100 \<and> 64 \<le> y mod 256 \<and> y mod 256 \<le> 127 \<longleftrightarrow> y div 64 = 401" for y :: nat
    proof -
      have d: "y div 256 = y div 64 div 4" by (simp flip: div_mult2_eq)
      have m: "y mod 256 = 64 * (y div 64 mod 4) + y mod 64" using mod_mult2_eq [of y 64 4] by simp
      have "64 \<le> 64 * q + r \<and> 64 * q + r \<le> 127 \<longleftrightarrow> q = 1" if "r < 64" for q r :: nat
        using that by presburger
      moreover have "z div 4 = 100 \<and> z mod 4 = 1 \<longleftrightarrow> z = 401" for z :: nat by presburger
      ultimately show ?thesis unfolding d m by simp
    qed
    then show ?thesis .
  qed
  also have "\<dots> \<longleftrightarrow> k div 4194304 = 401" by (simp flip: div_mult2_eq)
  also have "\<dots> \<longleftrightarrow> ip_contains (v4_net (100 * 2 ^ 24 + 64 * 2 ^ 16) 10) (v4_of k)"
    using assms by (subst contains_v4) (simp_all add: host_bits_def)
  finally show ?thesis .
qed

lemma isTailnet_is_cgnat_witness: "isTailnet (v4_of (100 * 2 ^ 24 + 64 * 2 ^ 16 + 5))"
  by (subst isTailnet_is_cgnat) (simp, subst contains_v4, simp_all add: host_bits_def)

end
