(* ===== verification/Scan.thy ===== *)
theory Scan
  imports Netconf Neigh
begin

text \<open>
  The ARP sweep, \<^verbatim>\<open>internal/scan/scan.go\<close>: validating a target, enumerating its hosts and
  filtering the neighbour cache. The loop over the addresses can run forever (on a target that
  contains every address), so it is a partial function: \<open>None\<close> is "does not return" (or the
  panic of \<open>Broadcast\<close>), and that it returns is a theorem. The workers and the progress they
  report are the machine of ScanFeed, which ends in every schedule with the hosts nudged.
\<close>

datatype scan_error = Invalid_CIDR | IPv4_only | Not_local | Too_large nat

definition MaxHosts :: nat where
  "MaxHosts = 1024"

text \<open>The error of \<^verbatim>\<open>SubnetSize\<close> is dropped: the size is then 0.\<close>

definition Validate :: "string \<Rightarrow> ipnet option \<Rightarrow> scan_error option" where
  "Validate target local =
     (case ParseCIDR target of
        None \<Rightarrow> Some Invalid_CIDR
      | Some (ip, n) \<Rightarrow>
          if To4 ip = [] then Some IPv4_only
          else if (case local of None \<Rightarrow> False | Some l \<Rightarrow> \<not> ip_contains l (n_IP n)) then Some Not_local
          else let size = (case SubnetSize (net_string n) of None \<Rightarrow> 0 | Some s \<Rightarrow> s)
            in if size > MaxHosts then Some (Too_large size) else None)"

text \<open>\<^verbatim>\<open>inc\<close> works from the last byte; here on the reversed slice.\<close>

fun inc_rev :: "byte list \<Rightarrow> byte list" where
  "inc_rev [] = []"
| "inc_rev (b # bs) = (if b + 1 \<noteq> 0 then (b + 1) # bs else 0 # inc_rev bs)"

definition ip_inc :: "ip \<Rightarrow> ip" where
  "ip_inc ip = rev (inc_rev (rev ip))"

partial_function (option) enum_loop :: "ipnet \<Rightarrow> ip \<Rightarrow> ip \<Rightarrow> ip \<Rightarrow> string list \<Rightarrow> string list option" where
  [code]: "enum_loop n network bcast cur out =
     (if ip_contains n cur
      then enum_loop n network bcast (ip_inc cur)
        (if ip_equal cur network \<or> ip_equal cur bcast then out else out @ [ip_string cur])
      else Some out)"

definition enumerate_hosts :: "ipnet \<Rightarrow> string list option" where
  "enumerate_hosts n =
     (let ip = To4 (ip_mask (n_IP n) (n_Mask n)) in
      if ip = [] then Some []
      else (case Broadcast ip (n_Mask n) of
              None \<Rightarrow> None
            | Some bcast \<Rightarrow> enum_loop n ip bcast ip []))"

datatype sweep_result = Sweep_error | Cancelled | Swept "entry list"

text \<open>\<open>cancelled\<close>: the context ended before every host was handed to a worker.\<close>

definition Sweep :: "string \<Rightarrow> bool \<Rightarrow> entry list option \<Rightarrow> sweep_result option" where
  "Sweep target cancelled cache =
     (case ParseCIDR target of
        None \<Rightarrow> Some Sweep_error
      | Some (ip, n) \<Rightarrow>
          (case enumerate_hosts n of
             None \<Rightarrow> None
           | Some hosts \<Rightarrow>
               if cancelled \<and> hosts \<noteq> [] then Some Cancelled
               else (case cache of
                  None \<Rightarrow> Some Sweep_error
                | Some all \<Rightarrow> Some (Swept (filter (\<lambda>e. ParseIP (e_IP e) \<noteq> [] \<and> ip_contains n (ParseIP (e_IP e))) all)))))"

section \<open>The loop\<close>

lemma inc_rev_le: "inc_rev (le_bytes n k) = le_bytes n (Suc k)"
proof (induction n arbitrary: k)
  case 0
  then show ?case by simp
next
  case (Suc n)
  have z: "(of_nat k + 1 :: byte) = 0 \<longleftrightarrow> Suc k mod 256 = 0"
    using of_nat_byte_eq [of "Suc k" 0] by (simp add: add.commute)
  show ?case
  proof (cases "Suc k mod 256 = 0")
    case True
    then have "Suc k div 256 = Suc (k div 256)" by (simp add: div_Suc)
    moreover have "(of_nat (Suc k) :: byte) = 0" using of_nat_byte_eq [of "Suc k" 0] True by simp
    ultimately show ?thesis using True z Suc.IH by simp
  next
    case False
    then have "Suc k div 256 = k div 256" by (simp add: div_Suc)
    with False z show ?thesis by (simp add: add.commute)
  qed
qed

lemma ip_inc_v4: "ip_inc (v4_of k) = v4_of (Suc k)"
  by (simp add: ip_inc_def v4_of_def inc_rev_le)

lemma ip_equal_v4: "j < 2 ^ 32 \<Longrightarrow> k < 2 ^ 32 \<Longrightarrow> ip_equal (v4_of j) (v4_of k) \<longleftrightarrow> j = k"
  by (simp add: ip_equal_def v4_of_inj)

lemma v4_of_wrap: "v4_of (2 ^ 32) = v4_of 0"
  by (simp add: v4_of_def le_bytes_inj)

definition net_first :: "nat \<Rightarrow> nat \<Rightarrow> nat" where
  "net_first k n = 2 ^ host_bits n * (k div 2 ^ host_bits n)"

definition net_last :: "nat \<Rightarrow> nat \<Rightarrow> nat" where
  "net_last k n = net_first k n + (2 ^ host_bits n - 1)"

lemma net_last_less:
  assumes "1 \<le> n" and "n \<le> 32" and "k < 2 ^ 32"
  shows "net_last k n < 2 ^ 32"
proof -
  let ?h = "host_bits n"
  have e: "(2 :: nat) ^ 32 = 2 ^ ?h * 2 ^ n" unfolding power_add [symmetric] host_bits_def using assms(2) by simp
  then have "k div 2 ^ ?h < 2 ^ n" using assms(3) by (simp add: less_mult_imp_div_less mult.commute)
  then have "2 ^ ?h * Suc (k div 2 ^ ?h) \<le> 2 ^ ?h * 2 ^ n" by (intro mult_le_mono2 Suc_leI)
  then have "net_first k n + 2 ^ ?h \<le> 2 ^ 32" unfolding e net_first_def by simp
  moreover have "0 < (2 :: nat) ^ ?h" by simp
  ultimately show ?thesis unfolding net_last_def by linarith
qed

lemma net_range:
  assumes "n \<le> 32"
  shows "x div 2 ^ host_bits n = k div 2 ^ host_bits n \<longleftrightarrow> net_first k n \<le> x \<and> x \<le> net_last k n"
proof -
  let ?B = "2 ^ host_bits n :: nat" and ?q = "k div 2 ^ host_bits n"
  have B: "0 < ?B" by simp
  have "x div ?B = ?q \<longleftrightarrow> ?q * ?B \<le> x \<and> x < Suc ?q * ?B"
  proof
    assume "x div ?B = ?q"
    then show "?q * ?B \<le> x \<and> x < Suc ?q * ?B"
      using dividend_less_div_times [OF B, of x] div_times_less_eq_dividend [of x ?B] by simp
  next
    assume "?q * ?B \<le> x \<and> x < Suc ?q * ?B"
    then show "x div ?B = ?q" by (intro div_nat_eqI) (simp_all add: mult.commute)
  qed
  also have "\<dots> \<longleftrightarrow> net_first k n \<le> x \<and> x \<le> net_last k n"
  proof -
    have l: "y \<le> a + (b - 1) \<longleftrightarrow> y < a + b" if "0 < b" for y a b :: nat
      using that by linarith
    show ?thesis unfolding net_first_def net_last_def l [OF B] by (simp add: mult.commute add.commute)
  qed
  finally show ?thesis .
qed

lemma enum_loop_v4:
  assumes n: "1 \<le> n" "n \<le> 32" and k: "k < 2 ^ 32" and x: "net_first k n \<le> x" "x \<le> Suc (net_last k n)"
    and net: "\<And>i. ip_contains net (v4_of i) = ip_contains (v4_net k n) (v4_of i)" and bc: "bc < 2 ^ 32"
  shows "enum_loop net (v4_of (net_first k n)) (v4_of bc) (v4_of x) out =
    Some (out @ map (\<lambda>i. v4_string (v4_of i))
      (filter (\<lambda>i. i \<noteq> net_first k n \<and> i \<noteq> bc) [x..<Suc (net_last k n)]))"
  using x
proof (induction "Suc (net_last k n) - x" arbitrary: x out)
  case 0
  then have x: "x = Suc (net_last k n)" by simp
  have last: "net_last k n < 2 ^ 32" using n k by (rule net_last_less)
  have "\<not> ip_contains (v4_net k n) (v4_of x)"
  proof (cases "x < 2 ^ 32")
    case True
    then show ?thesis using contains_v4 [OF n(2) k True] net_range [OF n(2), of x k] x by simp
  next
    case False
    with last x have x32: "x = 2 ^ 32" by simp
    have "\<not> (net_first k n \<le> 0 \<and> 0 \<le> net_last k n)"
    proof
      assume "net_first k n \<le> 0 \<and> 0 \<le> net_last k n"
      then have "2 ^ host_bits n = (2 :: nat) ^ 32" using x x32 by (simp add: net_last_def)
      then have "host_bits n = 32" by (simp only: power_inject_exp)
      with n(1) show False by (simp add: host_bits_def)
    qed
    then show ?thesis
      unfolding x32 v4_of_wrap using contains_v4 [OF n(2) k, of 0] net_range [OF n(2), of 0 k] by simp
  qed
  then show ?case by (subst enum_loop.simps) (simp add: x net)
next
  case (Suc d)
  then have le: "x \<le> net_last k n" by simp
  have last: "net_last k n < 2 ^ 32" using n k by (rule net_last_less)
  have lt: "x < 2 ^ 32" "net_first k n < 2 ^ 32"
    using le last Suc.prems(1) by simp_all
  have c: "ip_contains net (v4_of x)"
    unfolding net using contains_v4 [OF n(2) k lt(1)] net_range [OF n(2), of x k] le Suc.prems(1) by simp
  let ?out = "if x = net_first k n \<or> x = bc then out else out @ [v4_string (v4_of x)]"
  have "enum_loop net (v4_of (net_first k n)) (v4_of bc) (v4_of x) out =
      enum_loop net (v4_of (net_first k n)) (v4_of bc) (v4_of (Suc x)) ?out"
    using c lt last bc by (subst enum_loop.simps) (simp add: ip_inc_v4 ip_equal_v4 ip_string_v4)
  also have "\<dots> = Some (?out @ map (\<lambda>i. v4_string (v4_of i))
      (filter (\<lambda>i. i \<noteq> net_first k n \<and> i \<noteq> bc) [Suc x..<Suc (net_last k n)]))"
    using Suc.prems Suc.hyps(2) le by (intro Suc.hyps(1)) simp_all
  also have "[x..<Suc (net_last k n)] = x # [Suc x..<Suc (net_last k n)]"
    using le by (simp add: upt_conv_Cons del: upt_Suc)
  ultimately show ?case by (simp del: upt_Suc)
qed

lemma filter_ends: "filter (\<lambda>i. i \<noteq> a \<and> i \<noteq> b) [a..<Suc b] = [Suc a..<b]" if "a \<le> b" for a b :: nat
proof (cases "a = b")
  case False
  with that have "[a..<Suc b] = a # [Suc a..<b] @ [b]"
    by (simp add: upt_conv_Cons)
  moreover have "filter (\<lambda>i. i \<noteq> a \<and> i \<noteq> b) [Suc a..<b] = [Suc a..<b]"
    by (auto simp: filter_id_conv)
  ultimately show ?thesis by (simp del: upt_Suc)
qed simp

lemma enumerate_v4:
  assumes n: "1 \<le> n" "n \<le> 32" and k: "k < 2 ^ 32"
  shows "enumerate_hosts (v4_net k n) =
    Some (map (\<lambda>i. v4_string (v4_of i)) [Suc (net_first k n)..<net_last k n])"
proof -
  have m: "ip_mask (v4_of k) (CIDRMask n 32) = v4_of (net_first k n)"
    using mask_v4 [OF n(2) k] by (simp add: net_first_def)
  have f: "net_first k n < 2 ^ 32" "net_first (net_first k n) n = net_first k n"
    using k by (auto simp: net_first_def intro: le_less_trans [OF times_div_less_eq_dividend])
  have "Broadcast (v4_of (net_first k n)) (CIDRMask n 32) = Some (v4_of (net_last k n))"
    using Broadcast_v4 [OF n(2) f(1)] f(2) by (simp add: net_last_def net_first_def)
  then have "enumerate_hosts (v4_net k n) =
      enum_loop (v4_net k n) (v4_of (net_first k n)) (v4_of (net_last k n)) (v4_of (net_first k n)) []"
    using m by (simp add: enumerate_hosts_def Let_def v4_net_def)
  also have "\<dots> = Some (map (\<lambda>i. v4_string (v4_of i)) [Suc (net_first k n)..<net_last k n])"
  proof -
    have le: "net_first k n \<le> net_last k n" unfolding net_last_def by (rule le_add1)
    then show ?thesis
      using enum_loop_v4 [OF n k order_refl, of "v4_net k n" "net_last k n" "[]"] net_last_less [OF n k] filter_ends [OF le] by (simp del: upt_Suc)
  qed
  finally show ?thesis .
qed

lemma net_first_less: "k < 2 ^ 32 \<Longrightarrow> net_first k n < 2 ^ 32"
  unfolding net_first_def by (rule le_less_trans [OF times_div_less_eq_dividend])

lemma enumerate_first:
  assumes "1 \<le> n" and "n \<le> 32" and "k < 2 ^ 32"
  shows "enumerate_hosts (v4_net (net_first k n) n) = Some (map (\<lambda>i. v4_string (v4_of i)) [Suc (net_first k n)..<net_last k n])"
proof -
  have "net_first (net_first k n) n = net_first k n" "net_last (net_first k n) n = net_last k n"
    by (simp_all add: net_first_def net_last_def)
  with enumerate_v4 [OF assms(1,2) net_first_less [OF assms(3)]] show ?thesis by simp
qed

section \<open>What a validated target is\<close>

lemma mask_length_v4: "n \<le> 32 \<Longrightarrow> mask_length (CIDRMask n 32) = Some n"
proof -
  have "list_all (\<lambda>n. mask_length (CIDRMask n 32) = Some n) [0..<33]"
    by code_simp
  then show "n \<le> 32 \<Longrightarrow> ?thesis" by (simp only: list_all_iff set_upt) auto
qed

lemma index_where_append: "(\<forall>c \<in> set xs. \<not> p c) \<Longrightarrow> p y \<Longrightarrow> index_where p (xs @ y # ys) = Some (length xs)"
  by (induction xs) auto

lemma net_string_v4:
  assumes "n \<le> 32"
  shows "net_string (v4_net k n) = v4_string (v4_of k) @ CHR ''/'' # nat_string n"
  using assms by (simp add: net_string_def network_v4 mask_length_v4 ip_string_v4)

lemma ParseCIDR_net_string:
  assumes "n \<le> 32" and "k < 2 ^ 32"
  shows "ParseCIDR (net_string (v4_net k n)) = Some (v4InV6Prefix @ v4_of k, v4_net (net_first k n) n)"
proof -
  let ?s = "v4_string (v4_of k)"
  have i: "index_where (\<lambda>c. c = CHR ''/'') (?s @ CHR ''/'' # nat_string n) = Some (length ?s)"
    using v4_string_chars [of _ "v4_of k"] by (intro index_where_append) auto
  have m: "ip_mask (v4InV6Prefix @ v4_of k) (CIDRMask n 32) = v4_of (net_first k n)"
    using mask_v4 [OF assms] CIDRMask_v4 [OF assms(1)] by (simp add: ip_mask_def Let_def net_first_def)
  show ?thesis
    unfolding net_string_v4 [OF assms(1)] ParseCIDR_def
    using assms i m by (simp add: parse_addr_v4_string To16_def v4_net_def Let_def)
qed

lemma SubnetSize_v4:
  assumes "n \<le> 32" and "k < 2 ^ 32"
  shows "SubnetSize (net_string (v4_net k n)) = Some (2 ^ (32 - n))"
proof -
  have l: "length (CIDRMask n 32) = 4" by (simp add: CIDRMask_v4 [OF assms(1)])
  show ?thesis
    unfolding SubnetSize_def ParseCIDR_net_string [OF assms]
    using assms l by (simp add: mask_size_def v4_net_def mask_length_v4)
qed

text \<open>A target written in dotted form is the network of its address and prefix.\<close>

lemma length_cidr_bytes [simp]: "length (cidr_bytes n l) = l"
  by (induction l arbitrary: n) auto

lemma ParseCIDR_dotted:
  assumes "ParseCIDR s = Some (ip, net)" and "length (n_Mask net) = 4"
  shows "\<exists>k n. k < 2 ^ 32 \<and> n \<le> 32 \<and> ip = v4InV6Prefix @ v4_of k \<and> net = v4_net (net_first k n) n"
proof -
  obtain i a n where a: "parse_addr (take i s) = Some a" "parse_nat (drop (Suc i) s) = Some n" "n \<le> 8 * length a"
    "ip = To16 a" "net = \<lparr>n_IP = ip_mask (To16 a) (CIDRMask n (8 * length a)), n_Mask = CIDRMask n (8 * length a)\<rparr>"
    using assms(1) by (auto simp: ParseCIDR_def Let_def split: option.splits if_splits)
  then have "length (CIDRMask n (8 * length a)) = 4" using assms(2) by simp
  then have l: "length a = 4" by (auto simp: CIDRMask_def split: if_splits)
  then obtain k where k: "k < 2 ^ 32" "a = v4_of k" using v4_of_ex by blast
  have n: "n \<le> 32" using a(3) l by simp
  have "ip_mask (v4InV6Prefix @ v4_of k) (CIDRMask n 32) = v4_of (net_first k n)"
    using mask_v4 [OF n k(1)] CIDRMask_v4 [OF n] by (simp add: ip_mask_def Let_def net_first_def)
  with a l k n show ?thesis
    by (intro exI [of _ k] exI [of _ n]) (simp add: To16_def v4_net_def)
qed

text \<open>
  A target may also be written as an IPv4-mapped IPv6 network, which the test for IPv4 lets through.
  With a prefix of 96 bits or more it is the network of the address and the rest of the prefix, under
  a mask of 16 bytes; with a shorter one it is no IPv4 network any more.
\<close>

definition mapped_net :: "nat \<Rightarrow> nat \<Rightarrow> ipnet" where
  "mapped_net k n = \<lparr>n_IP = v4InV6Prefix @ v4_of k, n_Mask = replicate 12 0xFF @ CIDRMask n 32\<rparr>"

lemma cidr_bytes_skip: "cidr_bytes (8 * j + n) (j + l) = replicate j 0xFF @ cidr_bytes n l"
  by (induction j) simp_all

lemma CIDRMask_mapped: "n \<le> 32 \<Longrightarrow> CIDRMask (96 + n) 128 = replicate 12 0xFF @ CIDRMask n 32"
  using cidr_bytes_skip [of 12 n 4] by (simp add: CIDRMask_def)

lemma and_prefix: "length v = length w \<Longrightarrow> and_bytes (v4InV6Prefix @ v) (replicate 12 0xFF @ w) = v4InV6Prefix @ and_bytes v w"
  by (simp add: and_bytes_def v4InV6Prefix_def eval_nat_numeral)

lemma length_prefix [simp]: "length v4InV6Prefix = 12"
  by (simp add: v4InV6Prefix_def)

lemma To4_mapped [simp]: "To4 (v4InV6Prefix @ v4_of k) = v4_of k"
  by (simp add: To4_def)

lemma mask_mapped:
  assumes "n \<le> 32" and "k < 2 ^ 32"
  shows "ip_mask (v4InV6Prefix @ v4_of k) (replicate 12 0xFF @ CIDRMask n 32) = v4InV6Prefix @ v4_of (net_first k n)"
proof -
  have "and_bytes (v4_of k) (CIDRMask n 32) = v4_of (net_first k n)"
    using mask_v4 [OF assms] CIDRMask_v4 [OF assms(1)] by (simp add: ip_mask_def net_first_def)
  then show ?thesis using CIDRMask_v4 [OF assms(1)] by (simp add: ip_mask_def and_prefix)
qed

lemma network_mapped: "n \<le> 32 \<Longrightarrow> network_number (mapped_net k n) = network_number (v4_net k n)"
  unfolding network_v4 using CIDRMask_v4 [of n] by (simp add: network_number_def mapped_net_def)

lemma contains_mapped: "n \<le> 32 \<Longrightarrow> ip_contains (mapped_net k n) a = ip_contains (v4_net k n) a"
  by (simp add: ip_contains_def network_mapped)

lemma Broadcast_mapped: "Broadcast (v4_of k) (replicate 12 0xFF @ w) = Some (v4_of k)"
proof -
  have "map (\<lambda>i. v4_of k ! i OR NOT ((replicate 12 0xFF @ w) ! i)) [0..<4] = map (\<lambda>i. v4_of k ! i) [0..<4]"
  proof (rule map_cong)
    fix i :: nat
    assume "i \<in> set [0..<4]"
    moreover have "NOT (0xFF :: byte) = 0" by code_simp
    moreover from calculation have "(replicate 12 0xFF @ w) ! i = 0xFF" by (simp add: nth_append)
    ultimately show "v4_of k ! i OR NOT ((replicate 12 0xFF @ w) ! i) = v4_of k ! i" by (simp only: or.right_neutral)
  qed simp
  also have "\<dots> = v4_of k" using map_nth [of "v4_of k"] by simp
  finally show ?thesis by (simp add: Broadcast_def To4_def)
qed

text \<open>Its broadcast address is not recognised: only the network address is skipped.\<close>

lemma enumerate_mapped:
  assumes n: "1 \<le> n" "n \<le> 32" and k: "k < 2 ^ 32"
  shows "enumerate_hosts (mapped_net (net_first k n) n) =
    Some (map (\<lambda>i. v4_string (v4_of i)) [Suc (net_first k n)..<Suc (net_last k n)])"
proof -
  have f: "net_first k n < 2 ^ 32" "net_first (net_first k n) n = net_first k n" "net_last (net_first k n) n = net_last k n"
    using k by (auto simp: net_first_def net_last_def intro: le_less_trans [OF times_div_less_eq_dividend])
  have "enumerate_hosts (mapped_net (net_first k n) n) =
      enum_loop (mapped_net (net_first k n) n) (v4_of (net_first k n)) (v4_of (net_first k n)) (v4_of (net_first k n)) []"
    using mask_mapped [OF n(2) f(1)] f(2) by (simp add: enumerate_hosts_def mapped_net_def Broadcast_mapped Let_def)
  also have "\<dots> = Some (map (\<lambda>i. v4_string (v4_of i)) (filter (\<lambda>i. i \<noteq> net_first k n) [net_first k n..<Suc (net_last k n)]))"
    using enum_loop_v4 [OF n f(1), of "net_first k n" "mapped_net (net_first k n) n" "net_first k n" "[]"] f contains_mapped [OF n(2)]
    by (simp add: net_last_def del: upt_Suc)
  also have "filter (\<lambda>i. i \<noteq> net_first k n) [net_first k n..<Suc (net_last k n)] = [Suc (net_first k n)..<Suc (net_last k n)]"
    by (simp add: upt_conv_Cons net_last_def filter_id_conv del: upt_Suc)
  finally show ?thesis .
qed

lemma enumerate_short:
  assumes "n < 96" and "length q = 4"
  shows "enumerate_hosts \<lparr>n_IP = ip_mask (v4InV6Prefix @ q) (CIDRMask n 128), n_Mask = CIDRMask n 128\<rparr> = Some []"
proof -
  let ?m = "cidr_bytes n 16"
  have "list_all (\<lambda>n. and_bytes (and_bytes v4InV6Prefix (take 12 (cidr_bytes n 16))) (take 12 (cidr_bytes n 16)) \<noteq> v4InV6Prefix) [0..<96]"
    by code_simp
  then have "and_bytes (and_bytes v4InV6Prefix (take 12 ?m)) (take 12 ?m) \<noteq> v4InV6Prefix"
    using assms(1) unfolding list_all_iff set_upt by auto
  moreover have "take 12 (and_bytes x ?m) = and_bytes (take 12 x) (take 12 ?m)" for x
    by (simp add: and_bytes_def take_map take_zip)
  moreover have "CIDRMask n 128 = ?m" using assms(1) by (simp add: CIDRMask_def)
  moreover have "length (and_bytes x ?m) = 16" if "length x = 16" for x using that by (simp add: and_bytes_def)
  ultimately show ?thesis using assms(2) by (simp add: enumerate_hosts_def ip_mask_def To4_def Let_def)
qed

section \<open>Properties\<close>

text \<open>
  C13. The enumeration returns and is exact. For every IPv4 network of at least one prefix bit the
  loop ends, also at the top of the address space where the counter wraps, and yields the
  addresses strictly between the network address and the broadcast address, ascending, each
  printed in the form that parses back to it.
\<close>

theorem enumerate_exact:
  assumes "1 \<le> n" and "n \<le> 32" and "k < 2 ^ 32"
  shows "enumerate_hosts (v4_net k n) =
      Some (map (\<lambda>i. v4_string (v4_of i)) [Suc (net_first k n)..<net_last k n]) \<and>
    (\<forall>i < 2 ^ 32. ParseIP (v4_string (v4_of i)) = v4InV6Prefix @ v4_of i \<and>
       (ip_contains (v4_net k n) (v4_of i) \<longleftrightarrow> net_first k n \<le> i \<and> i \<le> net_last k n))"
  using enumerate_v4 [OF assms] contains_v4 [OF assms(2,3)] net_range [OF assms(2)]
  by (simp add: ParseIP_v4_string)

lemma enumerate_exact_witness:
  "enumerate_hosts (v4_net (2 ^ 32 - 3) 30) = Some [v4_string (v4_of (2 ^ 32 - 3)), v4_string (v4_of (2 ^ 32 - 2))]"
proof -
  have "enumerate_hosts (v4_net (2 ^ 32 - 3) 30) =
      Some (map (\<lambda>i. v4_string (v4_of i)) [Suc (net_first (2 ^ 32 - 3) 30)..<net_last (2 ^ 32 - 3) 30])"
    by (rule conjunct1 [OF enumerate_exact]) simp_all
  moreover have "[Suc (net_first (2 ^ 32 - 3) 30)..<net_last (2 ^ 32 - 3) 30] = [2 ^ 32 - 3, 2 ^ 32 - 2]"
    by (simp add: net_first_def net_last_def host_bits_def upt_conv_Cons)
  ultimately show ?thesis by simp
qed

lemma mapped_target:
  assumes "ParseCIDR s = Some (ip, net)" and "To4 ip \<noteq> []" and "length (n_Mask net) \<noteq> 4"
  shows "\<exists>k n. k < 2 ^ 32 \<and> n \<le> 128 \<and>
    net = \<lparr>n_IP = ip_mask (v4InV6Prefix @ v4_of k) (CIDRMask n 128), n_Mask = CIDRMask n 128\<rparr>"
proof -
  obtain i a n where "parse_addr (take i s) = Some a" "parse_nat (drop (Suc i) s) = Some n" and
    a: "n \<le> 8 * length a" "ip = To16 a" "net = \<lparr>n_IP = ip_mask (To16 a) (CIDRMask n (8 * length a)), n_Mask = CIDRMask n (8 * length a)\<rparr>"
    using assms(1) by (auto simp: ParseCIDR_def Let_def split: option.splits if_splits)
  have "length a = 4 \<Longrightarrow> length (n_Mask net) = 4" using a(1,3) by (simp add: CIDRMask_def)
  then have l: "length a = 16" "take 12 a = v4InV6Prefix"
    using assms(2,3) a(2) by (auto simp: To16_def To4_def split: if_splits)
  then have "length (drop 12 a) = 4" by simp
  then obtain k where "k < 2 ^ 32" "drop 12 a = v4_of k" using v4_of_ex by blast
  with l have "k < 2 ^ 32" "a = v4InV6Prefix @ v4_of k" using append_take_drop_id [of 12 a] by simp_all
  then show ?thesis using a l by (intro exI [of _ k] exI [of _ n]) (simp add: To16_def)
qed

lemma accepted_size:
  assumes "Validate target local = None" and "ParseCIDR target = Some (ip, net)" and "SubnetSize (net_string net) = Some (2 ^ (32 - n))"
  shows "22 \<le> n"
proof -
  have "(2 :: nat) ^ (32 - n) \<le> 2 ^ 10"
    using assms by (auto simp: Validate_def MaxHosts_def Let_def split: if_splits option.splits)
  then have "32 - n \<le> 10" by (simp only: power_increasing_iff)
  then show ?thesis by simp
qed

text \<open>What \<^verbatim>\<open>Validate\<close> lets through: a dotted network, a mapped one, or one without any host to nudge.\<close>

lemma validated_target:
  assumes "Validate target local = None" and "ParseCIDR target = Some (ip, net)"
  obtains k n where "k < 2 ^ 32" "22 \<le> n" "n \<le> 32" "net = v4_net (net_first k n) n"
  | k n where "k < 2 ^ 32" "22 \<le> n" "n \<le> 32" "net = mapped_net (net_first k n) n"
  | "enumerate_hosts net = Some []"
proof (cases "length (n_Mask net) = 4")
  case True
  obtain k n where kn: "k < 2 ^ 32" "n \<le> 32" "net = v4_net (net_first k n) n"
    using ParseCIDR_dotted [OF assms(2) True] by blast
  moreover have "22 \<le> n"
    using accepted_size [OF assms] SubnetSize_v4 [OF kn(2) net_first_less [OF kn(1)]] kn(3) by blast
  ultimately show thesis using that(1) by blast
next
  case False
  have "To4 ip \<noteq> []" using assms by (auto simp: Validate_def split: if_splits)
  from mapped_target [OF assms(2) this False] obtain k p where kp: "k < 2 ^ 32" "p \<le> 128"
    "net = \<lparr>n_IP = ip_mask (v4InV6Prefix @ v4_of k) (CIDRMask p 128), n_Mask = CIDRMask p 128\<rparr>" by blast
  show thesis
  proof (cases "p < 96")
    case True
    with kp(3) enumerate_short [of p "v4_of k"] that(3) show thesis by simp
  next
    case False
    define n where "n = p - 96"
    with False kp(2) have n: "n \<le> 32" "p = 96 + n" by simp_all
    have net: "net = mapped_net (net_first k n) n"
      using kp(3) mask_mapped [OF n(1) kp(1)] CIDRMask_mapped [OF n(1)] n(2) by (simp add: mapped_net_def)
    have "net_string net = net_string (v4_net (net_first k n) n)" unfolding net net_string_def network_mapped [OF n(1)] ..
    then have "22 \<le> n" using accepted_size [OF assms] SubnetSize_v4 [OF n(1) net_first_less [OF kp(1)]] by simp
    with n(1) kp(1) net that(2) show thesis by blast
  qed
qed

lemma hosts_of_range:
  assumes "22 \<le> n" "n \<le> 32" and "k < 2 ^ 32" and "b \<le> Suc (net_last k n)"
  shows "let hs = map (\<lambda>i. v4_string (v4_of i)) [Suc (net_first k n)..<b] in
    length hs \<le> b - Suc (net_first k n) \<and> net_last k n - net_first k n \<le> 1023 \<and> distinct hs \<and>
    (\<forall>h \<in> set hs. ip_contains (v4_net (net_first k n) n) (To4 (ParseIP h)))"
proof -
  have n: "1 \<le> n" "host_bits n \<le> 10" using assms(1) by (simp_all add: host_bits_def)
  have "(2 :: nat) ^ host_bits n \<le> 1024" using power_increasing [OF n(2), of "2 :: nat"] by simp
  then have size: "net_last k n - net_first k n \<le> 1023" by (simp add: net_last_def)
  have last: "net_last k n < 2 ^ 32" by (rule net_last_less [OF n(1) assms(2,3)])
  have inj: "inj_on (\<lambda>i. v4_string (v4_of i)) {..<2 ^ 32}"
  proof (rule inj_onI)
    fix x y :: nat
    assume lt: "x \<in> {..<2 ^ 32}" "y \<in> {..<2 ^ 32}" and "v4_string (v4_of x) = v4_string (v4_of y)"
    then have "parse_v4 (v4_string (v4_of x)) = parse_v4 (v4_string (v4_of y))" by (simp only:)
    then have "v4_of x = v4_of y" by (simp only: parse_v4_string length_v4_of option.inject)
    from lt have "x < 2 ^ 32" "y < 2 ^ 32" by (simp_all only: lessThan_iff)
    from iffD1 [OF v4_of_inj [OF this]] \<open>v4_of x = v4_of y\<close> show "x = y" .
  qed
  have f: "net_first k n < 2 ^ 32" "net_first (net_first k n) n = net_first k n" "net_last (net_first k n) n = net_last k n"
    using net_first_less [OF assms(3)] by (simp_all add: net_first_def net_last_def)
  have "ip_contains (v4_net (net_first k n) n) (To4 (ParseIP (v4_string (v4_of i))))" if "i \<in> {Suc (net_first k n)..<b}" for i
  proof -
    have i: "net_first k n \<le> i" "i \<le> net_last k n" "i < 2 ^ 32" using that assms(4) last by auto
    then show ?thesis
      using contains_v4 [OF assms(2) f(1) i(3)] net_range [OF assms(2), of i "net_first k n"] f by (simp add: ParseIP_v4_string)
  qed
  moreover have "distinct (map (\<lambda>i. v4_string (v4_of i)) [Suc (net_first k n)..<b])"
    using last assms(4) by (auto simp: distinct_map intro: inj_on_subset [OF inj])
  ultimately show ?thesis using size by (simp add: Let_def)
qed

text \<open>
  C34. A validated sweep is small and stays in its target. Whatever target \<^verbatim>\<open>Validate\<close> accepts, the
  sweep returns: it nudges at most 1023 different hosts, at most 1022 when the target is written in
  dotted form, each inside the target, and every neighbour it reports lies inside the target. (The
  one host more is the broadcast address of a target written as an IPv4-mapped IPv6 network.)
\<close>

theorem validated_sweep_bounded:
  assumes "Validate target local = None" and "ParseCIDR target = Some (ip, net)"
  shows "\<exists>hosts. enumerate_hosts net = Some hosts \<and> length hosts \<le> 1023 \<and> (length (n_Mask net) = 4 \<longrightarrow> length hosts \<le> 1022) \<and>
    distinct hosts \<and> (\<forall>h \<in> set hosts. ip_contains net (To4 (ParseIP h))) \<and>
    (case Sweep target cancelled cache of None \<Rightarrow> False
     | Some (Swept es) \<Rightarrow> \<forall>e \<in> set es. ip_contains net (ParseIP (e_IP e)) | Some _ \<Rightarrow> True)"
proof -
  have swept: "case Sweep target cancelled cache of None \<Rightarrow> False
     | Some (Swept es) \<Rightarrow> \<forall>e \<in> set es. ip_contains net (ParseIP (e_IP e)) | Some _ \<Rightarrow> True" if "enumerate_hosts net = Some hosts" for hosts
    using that assms(2) by (auto simp: Sweep_def split: option.splits)
  from assms show ?thesis
  proof (cases rule: validated_target)
    case (1 k n)
    have "net_first k n \<le> net_last k n" unfolding net_last_def by (rule le_add1)
    note h = hosts_of_range [OF 1(2,3,1), of "net_last k n", unfolded Let_def]
    have e: "enumerate_hosts net = Some (map (\<lambda>i. v4_string (v4_of i)) [Suc (net_first k n)..<net_last k n])"
      using enumerate_first [OF _ 1(3,1)] 1(2,4) by simp
    show ?thesis
      by (rule exI, intro conjI, rule e) (use h 1(4) \<open>net_first k n \<le> net_last k n\<close> swept [OF e] in auto)
  next
    case (2 k n)
    have l: "length (n_Mask net) \<noteq> 4" using 2(3,4) by (simp add: mapped_net_def CIDRMask_v4)
    note h = hosts_of_range [OF 2(2,3,1) order_refl, unfolded Let_def]
    have e: "enumerate_hosts net = Some (map (\<lambda>i. v4_string (v4_of i)) [Suc (net_first k n)..<Suc (net_last k n)])"
      using enumerate_mapped [OF _ 2(3,1)] 2(2,4) by simp
    show ?thesis
      by (rule exI, intro conjI, rule e) (use h 2(4) l swept [OF e] contains_mapped [OF 2(3)] in \<open>auto simp del: upt_Suc\<close>)
  next
    case 3
    with swept [OF 3] show ?thesis by auto
  qed
qed

lemma mapped_text: "parse_addr ''::ffff:192.168.48.0'' = Some (v4InV6Prefix @ [192, 168, 48, 0])"
proof -
  have hv: "hex_val (CHR ''f'') = Some 15" "hex_val (CHR '':'') = None" "hex_val (CHR ''1'') = Some 1" "hex_val (CHR ''9'') = Some 9"
    "hex_val (CHR ''2'') = Some 2" "hex_val (CHR ''.'') = None" by code_simp+
  have h: "hex_run 0 0 ''ffff:192.168.48.0'' = Some (65535, 4, '':192.168.48.0'')"
    "hex_run 0 0 ''192.168.48.0'' = Some (402, 3, ''.168.48.0'')" by (simp_all add: hv)
  have q: "parse_v4 ''192.168.48.0'' = Some [192, 168, 48, 0]" by code_simp
  have i: "index_where (\<lambda>c. c = CHR ''.'' \<or> c = CHR '':'') ''::ffff:192.168.48.0'' = Some 0" by simp
  have 1: "v6_loop (Suc n) (Some 0) [255, 255] ''192.168.48.0'' = Some (Some 0, [255, 255, 192, 168, 48, 0], [])" for n
    unfolding v6_loop.simps h q by simp
  have 2: "v6_loop (Suc n) (Some 0) [] ''ffff:192.168.48.0'' = v6_loop n (Some 0) [255, 255] ''192.168.48.0''" for n
    unfolding v6_loop.simps h by simp
  have "(8 :: nat) = Suc (Suc 6)" by simp
  then have v: "v6_loop 8 (Some 0) [] ''ffff:192.168.48.0'' = Some (Some 0, [255, 255, 192, 168, 48, 0], [])"
    by (simp only: 1 2)
  have "parse_v6 ''::ffff:192.168.48.0'' = Some (v4InV6Prefix @ [192, 168, 48, 0])"
    using v by (simp add: parse_v6_def v4InV6Prefix_def eval_nat_numeral)
  with i show ?thesis by (simp add: parse_addr_def)
qed
lemma mapped_demo:
  "ParseCIDR ''::ffff:192.168.48.0/120'' = Some (v4InV6Prefix @ [192, 168, 48, 0],
     \<lparr>n_IP = v4InV6Prefix @ [192, 168, 48, 0], n_Mask = replicate 15 0xFF @ [0]\<rparr>)" (is "_ = Some (?ip, ?net)")
  "Validate ''::ffff:192.168.48.0/120'' None = None"
proof -
  have i: "index_where (\<lambda>c. c = CHR ''/'') ''::ffff:192.168.48.0/120'' = Some 19"
    "take 19 ''::ffff:192.168.48.0/120'' = ''::ffff:192.168.48.0''" "drop (Suc 19) ''::ffff:192.168.48.0/120'' = ''120''" by simp_all
  have c: "parse_nat ''120'' = Some 120" "CIDRMask 120 128 = replicate 15 0xFF @ [0]"
    "ip_mask ?ip (replicate 15 0xFF @ [0]) = ?ip" "length ?ip = 16" "To4 ?ip = [192, 168, 48, 0]" by code_simp+
  show p: "ParseCIDR ''::ffff:192.168.48.0/120'' = Some (?ip, ?net)"
    unfolding ParseCIDR_def i option.case mapped_text c(1) prod.case c(4) using c by (simp add: To16_def)
  have s: "SubnetSize (net_string ?net) = Some 256" by code_simp
  show "Validate ''::ffff:192.168.48.0/120'' None = None"
    unfolding Validate_def p option.case prod.case c(5) s by (simp add: MaxHosts_def)
qed

lemma validated_sweep_bounded_witness:
  "(\<exists>hosts. enumerate_hosts \<lparr>n_IP = [192, 168, 50, 0], n_Mask = [255, 255, 255, 0]\<rparr> = Some hosts \<and> length hosts \<le> 1022) \<and>
   (\<exists>hosts. enumerate_hosts \<lparr>n_IP = v4InV6Prefix @ [192, 168, 48, 0], n_Mask = replicate 15 0xFF @ [0]\<rparr> = Some hosts \<and>
      length hosts \<le> 1023 \<and> distinct hosts)"
proof
  have v: "Validate ''192.168.50.7/24'' None = None" by code_simp
  have p: "ParseCIDR ''192.168.50.7/24'' = Some (v4InV6Prefix @ [192, 168, 50, 7],
      \<lparr>n_IP = [192, 168, 50, 0], n_Mask = [255, 255, 255, 0]\<rparr>)" by code_simp
  show "\<exists>hosts. enumerate_hosts \<lparr>n_IP = [192, 168, 50, 0], n_Mask = [255, 255, 255, 0]\<rparr> = Some hosts \<and> length hosts \<le> 1022"
    using validated_sweep_bounded [OF v p, of False None] by auto
  show "\<exists>hosts. enumerate_hosts \<lparr>n_IP = v4InV6Prefix @ [192, 168, 48, 0], n_Mask = replicate 15 0xFF @ [0]\<rparr> = Some hosts \<and>
      length hosts \<le> 1023 \<and> distinct hosts"
    using validated_sweep_bounded [OF mapped_demo(2,1), of False None] by blast
qed

section \<open>Targets at the edge\<close>

text \<open>
  Only the network address of the target is tested against the local subnet, so a larger network
  that starts there is accepted; and a target written as an IPv4-mapped IPv6 network has a
  16-byte mask, whose first four bytes \<^verbatim>\<open>Broadcast\<close> reads, so its broadcast address is swept.
\<close>

lemma wider_target_accepted:
  "Validate ''192.168.48.0/22'' (Some \<lparr>n_IP = [192, 168, 48, 0], n_Mask = CIDRMask 24 32\<rparr>) = None"
  by code_simp

lemma mapped_target_sweeps_broadcast:
  "enumerate_hosts \<lparr>n_IP = v4InV6Prefix @ [192, 168, 1, 4], n_Mask = replicate 15 0xFF @ [0xFC]\<rparr> =
    Some [''192.168.1.5'', ''192.168.1.6'', ''192.168.1.7'']"
  by code_simp

end
