(* ===== verification/Hub.thy ===== *)
theory Hub
  imports Prelude "HOL-Library.Sublist"
begin

text \<open>
  The SSE fan-out and the activity gate, \<^verbatim>\<open>internal/server/sse.go\<close> and \<^verbatim>\<open>frames.go\<close>, with the
  publishing half of \<^verbatim>\<open>Server.render\<close>. A channel is a buffer of at most 16 frames and a closed
  flag; sending on a closed channel and closing one twice panic (\<open>None\<close>). Every connection is a
  run of \<^verbatim>\<open>handleEvents\<close>, and the handlers, the render loop and the broadcasts of scans and wakes
  interleave: a step is one critical section of the hub, one channel operation, one write to a
  response or one access to the published frame set.
\<close>

section \<open>Frames\<close>

type_synonym frame = string

record frameSet =
  f_hello :: "frame option"
  f_stats :: "frame option"
  f_devices :: "frame option"
  f_cache :: "frame option"
  f_services :: "frame option"

text \<open>\<open>None\<close> is the nil slice: no frame set published, or a payload that does not marshal.\<close>

definition greeting :: "frameSet option \<Rightarrow> frame option list option" where
  "greeting f = map_option (\<lambda>f. [f_hello f, f_stats f, f_devices f, f_cache f, f_services f]) f"

definition newline :: char where
  "newline = CHR 0x0A"

definition sseFrame :: "string \<Rightarrow> string option \<Rightarrow> frame option" where
  "sseFrame event payload = map_option
     (\<lambda>p. ''event: '' @ event @ [newline] @ ''data: '' @ p @ [newline, newline]) payload"

definition changed :: "frame option \<Rightarrow> frame option \<Rightarrow> bool" where
  "changed prev nxt \<longleftrightarrow> nxt \<noteq> None \<and> (case prev of None \<Rightarrow> [] | Some b \<Rightarrow> b) \<noteq> (case nxt of None \<Rightarrow> [] | Some b \<Rightarrow> b)"

definition ping :: frame where
  "ping = '': ping'' @ [newline, newline]"

section \<open>The hub\<close>

record chan =
  ch_buf :: "frame list"
  ch_closed :: bool

record hub =
  h_grace :: int
  h_clients :: "nat set"
  h_chans :: "nat \<Rightarrow> chan option"
  h_lastPulse :: int

definition newHub :: "int \<Rightarrow> hub" where
  "newHub grace = \<lparr>h_grace = grace, h_clients = {}, h_chans = Map.empty, h_lastPulse = 0\<rparr>"

definition hub_Clients :: "hub \<Rightarrow> nat" where
  "hub_Clients h = card (h_clients h)"

definition hub_Pulse :: "int \<Rightarrow> hub \<Rightarrow> hub" where
  "hub_Pulse now h = h\<lparr>h_lastPulse := now\<rparr>"

definition hub_Active :: "int \<Rightarrow> hub \<Rightarrow> bool" where
  "hub_Active now h \<longleftrightarrow> h_lastPulse h \<noteq> 0 \<and> now - h_lastPulse h < h_grace h"

definition ch_cap :: nat where
  "ch_cap = 16"

text \<open>The \<^verbatim>\<open>select\<close> with a default: a full buffer drops the frame.\<close>

definition try_send :: "frame \<Rightarrow> chan \<Rightarrow> chan option" where
  "try_send m ch =
     (if ch_closed ch then None
      else if length (ch_buf ch) < ch_cap then Some (ch\<lparr>ch_buf := ch_buf ch @ [m]\<rparr>)
      else Some ch)"

fun send_all :: "frame \<Rightarrow> nat list \<Rightarrow> (nat \<Rightarrow> chan option) \<Rightarrow> (nat \<Rightarrow> chan option) option" where
  "send_all m [] chans = Some chans"
| "send_all m (c # cs) chans =
     (case chans c of
        None \<Rightarrow> None
      | Some ch \<Rightarrow> (case try_send m ch of None \<Rightarrow> None | Some ch' \<Rightarrow> send_all m cs (chans(c \<mapsto> ch'))))"

definition hub_send :: "nat list \<Rightarrow> frame option \<Rightarrow> hub \<Rightarrow> hub option" where
  "hub_send ks msg h = (case msg of None \<Rightarrow> Some h
     | Some m \<Rightarrow> map_option (\<lambda>chans. h\<lparr>h_chans := chans\<rparr>) (send_all m ks (h_chans h)))"

text \<open>\<^verbatim>\<open>make(chan []byte, 16)\<close> gives a channel that no one else holds: \<open>c\<close> is a fresh name.\<close>

definition hub_add :: "nat \<Rightarrow> hub \<Rightarrow> hub" where
  "hub_add c h = h\<lparr>h_clients := insert c (h_clients h), h_chans := (h_chans h)(c \<mapsto> \<lparr>ch_buf = [], ch_closed = False\<rparr>)\<rparr>"

text \<open>The two halves of \<^verbatim>\<open>Hub.remove\<close>: the deletion under the lock, then the close.\<close>

definition hub_delete :: "nat \<Rightarrow> hub \<Rightarrow> hub" where
  "hub_delete c h = h\<lparr>h_clients := h_clients h - {c}\<rparr>"

definition close_chan :: "nat \<Rightarrow> hub \<Rightarrow> hub option" where
  "close_chan c h = (case h_chans h c of None \<Rightarrow> None
     | Some ch \<Rightarrow> if ch_closed ch then None else Some (h\<lparr>h_chans := (h_chans h)(c \<mapsto> ch\<lparr>ch_closed := True\<rparr>)\<rparr>))"

section \<open>Connections and the render loop\<close>

datatype sse_write = W_greet frame | W_msg frame | W_ping

text \<open>Where a run of \<^verbatim>\<open>handleEvents\<close> is: the last three are the deferred \<^verbatim>\<open>remove\<close>.\<close>

datatype conn_phase = Attached | Greeting "frame list" | Relaying | Exiting | Removed | Gone

text \<open>
  \<open>k_written\<close> is what the response has been given; \<open>k_sent\<close> and \<open>k_dropped\<close> are ghosts: the
  frames the hub sent while the connection was a client, and how many its full buffer dropped.
\<close>

record conn =
  k_phase :: conn_phase
  k_written :: "sse_write list"
  k_sent :: "frame list"
  k_dropped :: nat

datatype render_phase = R_idle | R_swapped "frameSet option" frameSet | R_sending "frame list"

record sse_sys =
  g_hub :: hub
  g_frames :: "frameSet option"
  g_render :: render_phase
  g_conns :: "nat \<Rightarrow> conn option"

record payloads =
  p_hello :: "string option"
  p_stats :: "string option"
  p_devices :: "string option"
  p_cache :: "string option"
  p_services :: "string option"

definition build_frames :: "payloads \<Rightarrow> frameSet" where
  "build_frames p = \<lparr>f_hello = sseFrame ''hello'' (p_hello p), f_stats = sseFrame ''stats'' (p_stats p),
     f_devices = sseFrame ''devices'' (p_devices p), f_cache = sseFrame ''cache'' (p_cache p),
     f_services = sseFrame ''services'' (p_services p)\<rparr>"

definition no_frames :: frameSet where
  "no_frames = \<lparr>f_hello = None, f_stats = None, f_devices = None, f_cache = None, f_services = None\<rparr>"

text \<open>The frames a render sends when somebody is attached; a nil frame is skipped by \<^verbatim>\<open>send\<close>.\<close>

definition send_if :: "bool \<Rightarrow> frame option \<Rightarrow> frame list" where
  "send_if b m = (if b then (case m of None \<Rightarrow> [] | Some x \<Rightarrow> [x]) else [])"

definition render_sends :: "frameSet option \<Rightarrow> frameSet \<Rightarrow> frame list" where
  "render_sends prev0 fs =
     (let prev = (case prev0 of None \<Rightarrow> no_frames | Some p \<Rightarrow> p)
      in send_if True (f_stats fs) @ send_if (changed (f_devices prev) (f_devices fs)) (f_devices fs) @
         send_if (changed (f_cache prev) (f_cache fs)) (f_cache fs) @
         send_if (changed (f_services prev) (f_services fs)) (f_services fs))"

text \<open>The greeting a connection writes; before the first render it is a fresh hello.\<close>

definition greet_frames :: "string option \<Rightarrow> frameSet option \<Rightarrow> frame list" where
  "greet_frames hello fs = List.map_filter id
     (case greeting fs of None \<Rightarrow> [sseFrame ''hello'' hello] | Some g \<Rightarrow> g)"

datatype sse_act =
    Attach nat
  | Greet nat "string option" int
  | Write nat bool
  | Relay nat bool
  | Heartbeat nat bool
  | Disconnect nat
  | Detach nat
  | Close nat
  | Publish payloads
  | Check
  | Send "nat list"
  | Event string "string option" "nat list"
  | Pulse int

definition phase_of :: "nat \<Rightarrow> sse_sys \<Rightarrow> conn_phase option" where
  "phase_of c y = map_option k_phase (g_conns y c)"

fun sse_enabled :: "sse_act \<Rightarrow> sse_sys \<Rightarrow> bool" where
  "sse_enabled (Attach c) y \<longleftrightarrow> h_chans (g_hub y) c = None \<and> g_conns y c = None"
| "sse_enabled (Greet c hello now) y \<longleftrightarrow> phase_of c y = Some Attached"
| "sse_enabled (Write c ok) y \<longleftrightarrow> (case phase_of c y of Some (Greeting bs) \<Rightarrow> bs = [] \<longrightarrow> ok | _ \<Rightarrow> False)"
| "sse_enabled (Relay c ok) y \<longleftrightarrow> phase_of c y = Some Relaying \<and>
     (case h_chans (g_hub y) c of None \<Rightarrow> False | Some ch \<Rightarrow> ch_buf ch \<noteq> [])"
| "sse_enabled (Heartbeat c ok) y \<longleftrightarrow> phase_of c y = Some Relaying"
| "sse_enabled (Disconnect c) y \<longleftrightarrow> phase_of c y = Some Relaying"
| "sse_enabled (Detach c) y \<longleftrightarrow> phase_of c y = Some Exiting"
| "sse_enabled (Close c) y \<longleftrightarrow> phase_of c y = Some Removed"
| "sse_enabled (Publish p) y \<longleftrightarrow> g_render y = R_idle"
| "sse_enabled Check y \<longleftrightarrow> (case g_render y of R_swapped prev fs \<Rightarrow> True | _ \<Rightarrow> False)"
| "sse_enabled (Send ks) y \<longleftrightarrow> (case g_render y of R_sending ms \<Rightarrow> True | _ \<Rightarrow> False) \<and> enumerates ks (h_clients (g_hub y))"
| "sse_enabled (Event ev p ks) y \<longleftrightarrow> ev \<in> {''wake'', ''scan''} \<and> enumerates ks (h_clients (g_hub y))"
| "sse_enabled (Pulse now) y \<longleftrightarrow> True"

definition set_conn :: "nat \<Rightarrow> (conn \<Rightarrow> conn) \<Rightarrow> sse_sys \<Rightarrow> sse_sys" where
  "set_conn c f y = y\<lparr>g_conns := (g_conns y)(c := map_option f (g_conns y c))\<rparr>"

definition note_sent :: "frame \<Rightarrow> hub \<Rightarrow> (nat \<Rightarrow> conn option) \<Rightarrow> nat \<Rightarrow> conn option" where
  "note_sent m h conns c =
     (if c \<in> h_clients h
      then map_option (\<lambda>k. k\<lparr>k_sent := k_sent k @ [m],
             k_dropped := k_dropped k + (case h_chans h c of None \<Rightarrow> 0
               | Some ch \<Rightarrow> if length (ch_buf ch) < ch_cap then 0 else 1)\<rparr>) (conns c)
      else conns c)"

definition do_send :: "nat list \<Rightarrow> frame option \<Rightarrow> sse_sys \<Rightarrow> sse_sys option" where
  "do_send ks msg y = map_option (\<lambda>h. y\<lparr>g_hub := h,
      g_conns := (case msg of None \<Rightarrow> g_conns y | Some m \<Rightarrow> note_sent m (g_hub y) (g_conns y))\<rparr>)
     (hub_send ks msg (g_hub y))"

fun sse_perform :: "sse_act \<Rightarrow> sse_sys \<Rightarrow> sse_sys option" where
  "sse_perform (Attach c) y = Some (y\<lparr>g_hub := hub_add c (g_hub y),
     g_conns := (g_conns y)(c \<mapsto> \<lparr>k_phase = Attached, k_written = [], k_sent = [], k_dropped = 0\<rparr>)\<rparr>)"
| "sse_perform (Greet c hello now) y = Some (set_conn c (k_phase_update (\<lambda>_. Greeting (greet_frames hello (g_frames y))))
     (y\<lparr>g_hub := hub_Pulse now (g_hub y)\<rparr>))"
| "sse_perform (Write c ok) y = Some (set_conn c (\<lambda>k. case k_phase k of
       Greeting (b # bs) \<Rightarrow> if ok then k\<lparr>k_phase := Greeting bs, k_written := k_written k @ [W_greet b]\<rparr> else k\<lparr>k_phase := Exiting\<rparr>
     | _ \<Rightarrow> k\<lparr>k_phase := Relaying\<rparr>) y)"
| "sse_perform (Relay c ok) y = (case h_chans (g_hub y) c of None \<Rightarrow> None
     | Some ch \<Rightarrow> Some (set_conn c (\<lambda>k. if ok then k\<lparr>k_written := k_written k @ [W_msg (hd (ch_buf ch))]\<rparr> else k\<lparr>k_phase := Exiting\<rparr>)
         (y\<lparr>g_hub := (g_hub y)\<lparr>h_chans := (h_chans (g_hub y))(c \<mapsto> ch\<lparr>ch_buf := tl (ch_buf ch)\<rparr>)\<rparr>\<rparr>)))"
| "sse_perform (Heartbeat c ok) y = Some (set_conn c
     (\<lambda>k. if ok then k\<lparr>k_written := k_written k @ [W_ping]\<rparr> else k\<lparr>k_phase := Exiting\<rparr>) y)"
| "sse_perform (Disconnect c) y = Some (set_conn c (k_phase_update (\<lambda>_. Exiting)) y)"
| "sse_perform (Detach c) y = Some (set_conn c (k_phase_update (\<lambda>_. Removed)) (y\<lparr>g_hub := hub_delete c (g_hub y)\<rparr>))"
| "sse_perform (Close c) y = map_option (\<lambda>h. set_conn c (k_phase_update (\<lambda>_. Gone)) (y\<lparr>g_hub := h\<rparr>)) (close_chan c (g_hub y))"
| "sse_perform (Publish p) y = Some (y\<lparr>g_frames := Some (build_frames p), g_render := R_swapped (g_frames y) (build_frames p)\<rparr>)"
| "sse_perform Check y = Some (case g_render y of
       R_swapped prev fs \<Rightarrow> y\<lparr>g_render := (if hub_Clients (g_hub y) = 0 then R_idle else R_sending (render_sends prev fs))\<rparr>
     | _ \<Rightarrow> y)"
| "sse_perform (Send ks) y = (case g_render y of
       R_sending (m # ms) \<Rightarrow> map_option (g_render_update (\<lambda>_. R_sending ms)) (do_send ks (Some m) y)
     | _ \<Rightarrow> Some (y\<lparr>g_render := R_idle\<rparr>))"
| "sse_perform (Event ev p ks) y = do_send ks (sseFrame ev p) y"
| "sse_perform (Pulse now) y = Some (y\<lparr>g_hub := hub_Pulse now (g_hub y)\<rparr>)"

inductive sse_step :: "sse_sys \<Rightarrow> sse_sys \<Rightarrow> bool" where
  "sse_enabled a y \<Longrightarrow> sse_perform a y = Some y' \<Longrightarrow> sse_step y y'"

inductive_cases sse_stepE: "sse_step y y'"

definition sse_init :: "sse_sys \<Rightarrow> bool" where
  "sse_init y \<longleftrightarrow> (\<exists>grace. g_hub y = newHub grace) \<and> g_frames y = None \<and> g_render y = R_idle \<and> g_conns y = Map.empty"

text \<open>Sequential runs, for concrete instances.\<close>

fun run_sse :: "sse_act list \<Rightarrow> sse_sys \<Rightarrow> sse_sys option" where
  "run_sse [] y = Some y"
| "run_sse (a # as) y = (if sse_enabled a y then Option.bind (sse_perform a y) (run_sse as) else None)"

lemma run_sse_reachable:
  "reachable sse_init sse_step y \<Longrightarrow> run_sse as y = Some y' \<Longrightarrow> reachable sse_init sse_step y'"
proof (induction as arbitrary: y)
  case (Cons a as)
  then obtain z where "sse_enabled a y" "sse_perform a y = Some z" "run_sse as z = Some y'"
    by (auto split: if_splits bind_splits)
  with Cons show ?case by (blast intro: reach_step sse_step.intros)
qed simp

end
