(* ===== verification/HubInv.thy ===== *)
theory HubInv
  imports Hub
begin

text \<open>
  The invariant of the SSE machine: the kinds of frames, what a render sends, the link between a
  connection and its channel, the delivery of what the hub sent, and the view a connection
  will show once its buffer and the frames of a render under way are written.
\<close>

section \<open>Kinds of frames\<close>

definition kind_of :: "frame \<Rightarrow> string" where
  "kind_of b = takeWhile (\<lambda>ch. ch \<noteq> newline) (drop 7 b)"

lemma kind_of_sseFrame: "sseFrame ev p = Some b \<Longrightarrow> newline \<notin> set ev \<Longrightarrow> kind_of b = ev"
  by (cases p) (auto simp: sseFrame_def kind_of_def, subst takeWhile_append2, auto)

lemma kind_of_ping: "kind_of ping = []"
  by (simp add: kind_of_def ping_def newline_def)

fun last_of :: "string \<Rightarrow> frame list \<Rightarrow> frame option" where
  "last_of K [] = None"
| "last_of K (b # bs) = (case last_of K bs of Some x \<Rightarrow> Some x | None \<Rightarrow> if kind_of b = K then Some b else None)"

lemma last_of_append: "last_of K (xs @ ys) = (case last_of K ys of Some x \<Rightarrow> Some x | None \<Rightarrow> last_of K xs)"
  by (induction xs) (auto split: option.splits)

lemma last_of_skip: "kind_of b \<noteq> K \<Longrightarrow> last_of K (xs @ b # ys) = last_of K (xs @ ys)"
  by (auto simp: last_of_append split: option.splits)

text \<open>The views a dashboard renders, each from the frames of one event.\<close>

datatype view = Stats | Devices | Cache | Services

fun event :: "view \<Rightarrow> string" where
  "event Stats = ''stats''"
| "event Devices = ''devices''"
| "event Cache = ''cache''"
| "event Services = ''services''"

fun field :: "view \<Rightarrow> frameSet \<Rightarrow> frame option" where
  "field Stats f = f_stats f"
| "field Devices f = f_devices f"
| "field Cache f = f_cache f"
| "field Services f = f_services f"

lemma event_inj [simp]: "event K = event L \<longleftrightarrow> K = L"
  by (cases K; cases L) simp_all

lemma event_other: "event K \<noteq> ''hello''" "event K \<noteq> ''wake''" "event K \<noteq> ''scan''" "event K \<noteq> []"
  by (cases K; simp)+

lemma event_line: "newline \<notin> set (event K)" "newline \<notin> set ''hello''" "newline \<notin> set ''wake''" "newline \<notin> set ''scan''"
  by (cases K; simp add: newline_def) (simp_all add: newline_def)

declare event.simps [simp del]

definition published :: "view \<Rightarrow> sse_sys \<Rightarrow> frame option" where
  "published K y = Option.bind (g_frames y) (field K)"

definition typed :: "frameSet \<Rightarrow> bool" where
  "typed f \<longleftrightarrow> (\<forall>x. f_hello f = Some x \<longrightarrow> kind_of x = ''hello'') \<and>
     (\<forall>K x. field K f = Some x \<longrightarrow> kind_of x = event K)"

lemma field_build_frames: "\<exists>p. field K (build_frames q) = sseFrame (event K) p"
  by (cases K) (auto simp: build_frames_def event.simps)

lemma typed_build_frames: "typed (build_frames p)"
  unfolding typed_def
proof (intro conjI allI impI)
  show "kind_of x = ''hello''" if "f_hello (build_frames p) = Some x" for x
    using that kind_of_sseFrame [OF _ event_line(2)] by (simp add: build_frames_def)
  show "kind_of x = event K" if a: "field K (build_frames p) = Some x" for K x
  proof -
    obtain q where "sseFrame (event K) q = Some x" using field_build_frames [of K p] a by metis
    then show ?thesis by (rule kind_of_sseFrame) (rule event_line)
  qed
qed

lemma last_of_send_if:
  "typed f \<Longrightarrow> last_of (event K) (send_if b (field L f)) = (if b \<and> L = K then field K f else None)"
  by (auto simp: typed_def send_if_def split: option.splits)

lemma last_of_hello: "typed f \<Longrightarrow> last_of (event K) (send_if b (f_hello f)) = None"
  by (auto simp: typed_def send_if_def event_other dest: sym split: option.splits)

lemma greeting_split: "List.map_filter id [f_hello f, f_stats f, f_devices f, f_cache f, f_services f] =
  send_if True (f_hello f) @ send_if True (field Stats f) @ send_if True (field Devices f) @
  send_if True (field Cache f) @ send_if True (field Services f)"
  by (simp add: map_filter_simps send_if_def split: option.splits)

lemma last_of_greeting:
  "typed f \<Longrightarrow> last_of (event K) (greet_frames hello (Some f)) = field K f"
  unfolding greet_frames_def greeting_def option.map option.case greeting_split
  by (cases K) (simp_all add: last_of_append last_of_send_if last_of_hello split: option.splits del: field.simps)

lemma field_prev: "field K (case prev of None \<Rightarrow> no_frames | Some p \<Rightarrow> p) = Option.bind prev (field K)"
  by (cases K; cases prev) (simp_all add: no_frames_def)

lemma field_fun: "field Stats = f_stats" "field Devices = f_devices" "field Cache = f_cache" "field Services = f_services"
  by (simp_all add: fun_eq_iff)

lemma render_sends_fields: "render_sends prev f = concat (map (\<lambda>K.
    send_if (K = Stats \<or> changed (Option.bind prev (field K)) (field K f)) (field K f))
  [Stats, Devices, Cache, Services])"
  using field_prev [of Devices prev] field_prev [of Cache prev] field_prev [of Services prev]
  by (simp add: render_sends_def Let_def field_fun)

lemma last_of_render_sends:
  "typed f \<Longrightarrow> last_of (event K) (render_sends prev f) =
    (if K = Stats \<or> changed (Option.bind prev (field K)) (field K f) then field K f else None)"
  unfolding render_sends_fields
  by (cases K) (simp_all add: last_of_append last_of_send_if split: option.splits del: field.simps)

section \<open>The invariant\<close>

definition pending :: "sse_sys \<Rightarrow> frame list" where
  "pending y = (case g_render y of R_idle \<Rightarrow> [] | R_swapped prev fs \<Rightarrow> render_sends prev fs | R_sending ms \<Rightarrow> ms)"

definition frame_of :: "sse_write \<Rightarrow> frame" where
  "frame_of w = (case w of W_greet b \<Rightarrow> b | W_msg b \<Rightarrow> b | W_ping \<Rightarrow> ping)"

definition relayed :: "sse_write list \<Rightarrow> frame list" where
  "relayed ws = List.map_filter (\<lambda>w. case w of W_msg b \<Rightarrow> Some b | _ \<Rightarrow> None) ws"

definition stream :: "conn \<Rightarrow> frame list" where
  "stream k = map frame_of (k_written k) @ (case k_phase k of Greeting bs \<Rightarrow> bs | _ \<Rightarrow> [])"

definition client_phase :: "conn_phase \<Rightarrow> bool" where
  "client_phase ph \<longleftrightarrow> ph \<noteq> Removed \<and> ph \<noteq> Gone"

definition active_phase :: "conn_phase \<Rightarrow> bool" where
  "active_phase ph \<longleftrightarrow> client_phase ph \<and> ph \<noteq> Exiting"

text \<open>
  One connection with its channel: the link to the hub, the delivery of what was sent, and
  the view it will have once the buffer and the pending frames of a render are written.
\<close>

definition conn_link :: "bool \<Rightarrow> conn \<Rightarrow> chan \<Rightarrow> bool" where
  "conn_link client k ch \<longleftrightarrow> length (ch_buf ch) \<le> ch_cap \<and> (ch_closed ch \<longleftrightarrow> k_phase k = Gone) \<and>
     (client \<longleftrightarrow> client_phase (k_phase k)) \<and> (k_phase k = Attached \<longrightarrow> k_written k = [])"

definition conn_order :: "conn \<Rightarrow> chan \<Rightarrow> bool" where
  "conn_order k ch \<longleftrightarrow> subseq (relayed (k_written k) @ ch_buf ch) (k_sent k) \<and>
     (active_phase (k_phase k) \<longrightarrow>
        length (k_sent k) = length (relayed (k_written k) @ ch_buf ch) + k_dropped k)"

definition conn_view :: "frame list \<Rightarrow> (view \<Rightarrow> frame option) \<Rightarrow> conn \<Rightarrow> chan \<Rightarrow> bool" where
  "conn_view pend pub k ch \<longleftrightarrow> (active_phase (k_phase k) \<longrightarrow> k_dropped k = 0 \<longrightarrow>
     (\<forall>K x. pub K = Some x \<longrightarrow>
        last_of (event K) (stream k @ ch_buf ch @ pend) = Some x \<or>
        k_phase k = Attached \<and> last_of (event K) (stream k @ ch_buf ch @ pend) = None))"

definition conn_ok :: "bool \<Rightarrow> frame list \<Rightarrow> (view \<Rightarrow> frame option) \<Rightarrow> conn option \<Rightarrow> chan option \<Rightarrow> bool" where
  "conn_ok client pend pub ko cho \<longleftrightarrow> (case ko of
       None \<Rightarrow> cho = None \<and> \<not> client
     | Some k \<Rightarrow> (case cho of None \<Rightarrow> False
         | Some ch \<Rightarrow> conn_link client k ch \<and> conn_order k ch \<and> conn_view pend pub k ch))"

definition frames_ok :: "sse_sys \<Rightarrow> bool" where
  "frames_ok y \<longleftrightarrow> (\<forall>f. g_frames y = Some f \<longrightarrow> typed f) \<and>
     (\<forall>prev fs. g_render y = R_swapped prev fs \<longrightarrow> g_frames y = Some fs) \<and>
     (\<forall>K x. published K y = Some x \<longrightarrow> last_of (event K) (pending y) \<in> {None, Some x})"

definition conns_ok :: "sse_sys \<Rightarrow> bool" where
  "conns_ok y \<longleftrightarrow> (\<forall>c. conn_ok (c \<in> h_clients (g_hub y)) (pending y) (\<lambda>K. published K y)
     (g_conns y c) (h_chans (g_hub y) c))"

definition sse_inv :: "sse_sys \<Rightarrow> bool" where
  "sse_inv y \<longleftrightarrow> finite (h_clients (g_hub y)) \<and> frames_ok y \<and> conns_ok y"

lemma conns_okD:
  assumes "conns_ok y" and "g_conns y c = Some k"
  obtains ch where "h_chans (g_hub y) c = Some ch" "conn_link (c \<in> h_clients (g_hub y)) k ch"
    "conn_order k ch" "conn_view (pending y) (\<lambda>K. published K y) k ch"
proof -
  have "conn_ok (c \<in> h_clients (g_hub y)) (pending y) (\<lambda>K. published K y) (Some k) (h_chans (g_hub y) c)"
    using assms by (metis conns_ok_def)
  then show thesis using that by (auto simp: conn_ok_def split: option.splits)
qed

lemma clients_open:
  assumes "conns_ok y" and "c \<in> h_clients (g_hub y)"
  obtains k ch where "g_conns y c = Some k" "h_chans (g_hub y) c = Some ch" "\<not> ch_closed ch"
proof -
  have "conn_ok (c \<in> h_clients (g_hub y)) (pending y) (\<lambda>K. published K y) (g_conns y c) (h_chans (g_hub y) c)"
    using assms(1) by (simp add: conns_ok_def)
  then show thesis using that assms(2) by (auto simp: conn_ok_def conn_link_def client_phase_def split: option.splits)
qed

text \<open>A step on one connection leaves the others as they are.\<close>

lemma conns_ok_local:
  assumes "conns_ok y" and "pending y' = pending y" and "g_frames y' = g_frames y"
    and "\<And>d. d \<noteq> c \<Longrightarrow> g_conns y' d = g_conns y d \<and> h_chans (g_hub y') d = h_chans (g_hub y) d \<and>
      (d \<in> h_clients (g_hub y') \<longleftrightarrow> d \<in> h_clients (g_hub y))"
    and "conn_ok (c \<in> h_clients (g_hub y')) (pending y) (\<lambda>K. published K y) (g_conns y' c) (h_chans (g_hub y') c)"
  shows "conns_ok y'"
proof -
  have "published K y' = published K y" for K using assms(3) by (simp add: published_def)
  then have pub: "(\<lambda>K. published K y') = (\<lambda>K. published K y)" by simp
  have "conn_ok (d \<in> h_clients (g_hub y')) (pending y') (\<lambda>K. published K y') (g_conns y' d) (h_chans (g_hub y') d)" for d
    using assms(1) [unfolded conns_ok_def, rule_format, of d] assms(4) [of d] assms(5)
    unfolding pub assms(2) by (cases "d = c") simp_all
  then show ?thesis by (simp add: conns_ok_def)
qed

end
