(* ===== verification/HubSpecs.thy ===== *)
theory HubSpecs
  imports HubInv
begin

text \<open>
  What the SSE stream promises: no interleaving of connections, renders and broadcasts sends on
  a closed channel or closes one twice, a client receives the hub's frames in order and
  without repetition, and a client that was never too slow shows the published frame set.
\<close>

section \<open>A broadcast\<close>

definition deliver :: "frame \<Rightarrow> chan \<Rightarrow> chan" where
  "deliver m ch = (if length (ch_buf ch) < ch_cap then ch\<lparr>ch_buf := ch_buf ch @ [m]\<rparr> else ch)"

lemma send_all_open:
  assumes "distinct ks" and "\<And>c. c \<in> set ks \<Longrightarrow> \<exists>ch. chans c = Some ch \<and> \<not> ch_closed ch"
  shows "send_all m ks chans = Some (\<lambda>c. if c \<in> set ks then map_option (deliver m) (chans c) else chans c)"
  using assms
proof (induction ks arbitrary: chans)
  case Nil
  then show ?case by simp
next
  case (Cons c ks)
  then obtain ch where ch: "chans c = Some ch" "\<not> ch_closed ch" by auto
  have "send_all m ks (chans(c \<mapsto> deliver m ch)) =
      Some (\<lambda>d. if d \<in> set ks then map_option (deliver m) ((chans(c \<mapsto> deliver m ch)) d) else (chans(c \<mapsto> deliver m ch)) d)"
    using Cons.prems by (intro Cons.IH) (auto split: if_splits)
  moreover have "(\<lambda>d. if d \<in> set ks then map_option (deliver m) ((chans(c \<mapsto> deliver m ch)) d) else (chans(c \<mapsto> deliver m ch)) d) =
      (\<lambda>d. if d \<in> set (c # ks) then map_option (deliver m) (chans d) else chans d)"
    using Cons.prems(1) ch by (auto simp: fun_eq_iff)
  ultimately show ?case using ch by (simp add: try_send_def deliver_def split: if_splits)
qed

lemma hub_send_client:
  assumes "sse_inv y" and "enumerates ks (h_clients (g_hub y))"
  shows "hub_send ks (Some m) (g_hub y) = Some ((g_hub y)\<lparr>h_chans := (\<lambda>c. if c \<in> h_clients (g_hub y)
    then map_option (deliver m) (h_chans (g_hub y) c) else h_chans (g_hub y) c)\<rparr>)"
proof -
  have d: "distinct ks" "set ks = h_clients (g_hub y)" using assms(2) by (simp_all add: enumerates_def)
  have o: "\<exists>ch. h_chans (g_hub y) c = Some ch \<and> \<not> ch_closed ch" if "c \<in> set ks" for c
    using assms(1) that d(2) unfolding sse_inv_def by (metis clients_open)
  from send_all_open [of ks "h_chans (g_hub y)" m, OF d(1) o] show ?thesis
    by (simp only: hub_send_def d(2) option.map option.case)
qed

text \<open>Delivery of one frame to one connection: \<open>pend\<close> is what remains of the render.\<close>

lemma subseq_snoc: "subseq xs ys \<Longrightarrow> subseq (xs @ [m]) (ys @ [m])"
  by (rule list_emb_append_mono) auto

lemma conn_deliver:
  assumes ok: "conn_link True k ch" "conn_order k ch" "conn_view pend pub k ch"
    and pend: "pend = m # pend' \<or> (pend' = pend \<and> (\<forall>K. kind_of m \<noteq> event K))"
    and k': "k' = k\<lparr>k_sent := k_sent k @ [m], k_dropped := k_dropped k + (if length (ch_buf ch) < ch_cap then 0 else 1)\<rparr>"
  shows "conn_link True k' (deliver m ch) \<and> conn_order k' (deliver m ch) \<and> conn_view pend' pub k' (deliver m ch)"
proof (intro conjI)
  show "conn_link True k' (deliver m ch)"
    using ok(1) by (auto simp: k' conn_link_def deliver_def)
  show "conn_order k' (deliver m ch)"
  proof (cases "length (ch_buf ch) < ch_cap")
    case True
    then show ?thesis using ok(2) subseq_snoc [of "relayed (k_written k) @ ch_buf ch" "k_sent k" m]
      by (auto simp: k' conn_order_def deliver_def)
  next
    case False
    then show ?thesis using ok(2) by (auto simp: k' conn_order_def deliver_def intro: list_emb_append2)
  qed
  show "conn_view pend' pub k' (deliver m ch)"
  proof (cases "length (ch_buf ch) < ch_cap")
    case True
    have "last_of (event K) (stream k' @ ch_buf (deliver m ch) @ pend') = last_of (event K) (stream k @ ch_buf ch @ pend)" for K
      using pend last_of_skip [of m "event K" "stream k @ ch_buf ch" pend'] True
      by (auto simp: k' deliver_def stream_def)
    with True ok(3) show ?thesis by (simp add: conn_view_def) (simp add: k')
  next
    case False
    then show ?thesis by (simp add: k' conn_view_def)
  qed
qed

section \<open>Every step keeps the invariant\<close>

lemma sse_inv_local:
  assumes "sse_inv y" and same: "g_frames y' = g_frames y" "g_render y' = g_render y"
    and "h_clients (g_hub y') \<subseteq> insert c (h_clients (g_hub y))"
    and "\<And>d. d \<noteq> c \<Longrightarrow> g_conns y' d = g_conns y d \<and> h_chans (g_hub y') d = h_chans (g_hub y) d \<and>
      (d \<in> h_clients (g_hub y') \<longleftrightarrow> d \<in> h_clients (g_hub y))"
    and "conn_ok (c \<in> h_clients (g_hub y')) (pending y) (\<lambda>K. published K y) (g_conns y' c) (h_chans (g_hub y') c)"
  shows "sse_inv y'"
proof -
  have pend: "pending y' = pending y" "published K y' = published K y" for K
    using same by (simp_all add: pending_def published_def)
  have "frames_ok y'" using assms(1) same pend by (simp add: sse_inv_def frames_ok_def)
  moreover have "conns_ok y'"
    using assms(1,5,6) same(1) pend(1) unfolding sse_inv_def by (blast intro: conns_ok_local [of y y' c])
  moreover have "finite (h_clients (g_hub y'))"
    using assms(1,4) by (auto simp: sse_inv_def intro: finite_subset)
  ultimately show ?thesis by (simp add: sse_inv_def)
qed

lemma phase_ofD:
  assumes "sse_inv y" and "phase_of c y = Some ph"
  obtains k ch where "g_conns y c = Some k" "k_phase k = ph" "h_chans (g_hub y) c = Some ch"
    "conn_link (c \<in> h_clients (g_hub y)) k ch" "conn_order k ch" "conn_view (pending y) (\<lambda>K. published K y) k ch"
proof -
  from assms(2) obtain k where k: "g_conns y c = Some k" "k_phase k = ph" by (auto simp: phase_of_def)
  moreover obtain ch where "h_chans (g_hub y) c = Some ch" "conn_link (c \<in> h_clients (g_hub y)) k ch"
    "conn_order k ch" "conn_view (pending y) (\<lambda>K. published K y) k ch"
    using assms(1) k(1) unfolding sse_inv_def by (blast elim: conns_okD)
  ultimately show thesis by (rule that)
qed

lemmas conn_defs = conn_ok_def conn_link_def conn_order_def conn_view_def client_phase_def active_phase_def

lemma step_Attach:
  assumes "sse_inv y" and "sse_enabled (Attach c) y" and "sse_perform (Attach c) y = Some y'"
  shows "sse_inv y'"
proof (rule sse_inv_local [OF assms(1), of _ c])
  have "last_of (event K) (pending y) \<in> {None, Some x}" if "published K y = Some x" for K x
    using assms(1) that by (simp add: sse_inv_def frames_ok_def)
  then show "conn_ok (c \<in> h_clients (g_hub y')) (pending y) (\<lambda>K. published K y) (g_conns y' c) (h_chans (g_hub y') c)"
    using assms(3) by (fastforce simp: hub_add_def conn_defs stream_def relayed_def map_filter_simps)
qed (use assms(3) in \<open>auto simp: hub_add_def\<close>)

lemma step_Greet:
  assumes "sse_inv y" and "sse_enabled (Greet c hello now) y" and "sse_perform (Greet c hello now) y = Some y'"
  shows "sse_inv y'"
proof -
  from assms(2) have "phase_of c y = Some Attached" by simp
  from phase_ofD [OF assms(1) this] obtain k ch where k: "g_conns y c = Some k" "k_phase k = Attached"
    "h_chans (g_hub y) c = Some ch" "conn_link (c \<in> h_clients (g_hub y)) k ch" "conn_order k ch"
    "conn_view (pending y) (\<lambda>K. published K y) k ch" .
  have w: "k_written k = []" "stream k = []" using k(2,4) by (simp_all add: conn_link_def stream_def)
  have g: "last_of (event K) (greet_frames hello (g_frames y)) = Some x" if "published K y = Some x" for K x
    using assms(1) that last_of_greeting
    by (cases "g_frames y") (auto simp: published_def sse_inv_def frames_ok_def)
  let ?k = "k\<lparr>k_phase := Greeting (greet_frames hello (g_frames y))\<rparr>"
  have "conn_view (pending y) (\<lambda>K. published K y) ?k ch"
    using k(2,6) g unfolding conn_view_def w(2)
    by (fastforce simp: active_phase_def client_phase_def stream_def w(1) last_of_append [of _ "greet_frames hello (g_frames y)"]
        split: option.splits)
  then have "conn_ok (c \<in> h_clients (g_hub y)) (pending y) (\<lambda>K. published K y) (Some ?k) (Some ch)"
    using k(2,4,5) by (simp add: conn_ok_def conn_link_def conn_order_def client_phase_def active_phase_def)
  then show ?thesis
    using assms(3) k(1,3) by (intro sse_inv_local [OF assms(1), of _ c]) (auto simp: set_conn_def hub_Pulse_def)
qed

text \<open>A step on one connection that is past the greeting's load, and its new record and channel.\<close>

lemma step_conn:
  assumes "sse_inv y" and "phase_of c y = Some ph"
    and "g_frames y' = g_frames y" and "g_render y' = g_render y"
    and "h_clients (g_hub y') = (if client_phase ph' then h_clients (g_hub y) else h_clients (g_hub y) - {c})"
    and "\<And>d. d \<noteq> c \<Longrightarrow> g_conns y' d = g_conns y d \<and> h_chans (g_hub y') d = h_chans (g_hub y) d"
    and "\<And>k ch. g_conns y c = Some k \<Longrightarrow> k_phase k = ph \<Longrightarrow> h_chans (g_hub y) c = Some ch \<Longrightarrow>
      conn_link (c \<in> h_clients (g_hub y)) k ch \<Longrightarrow> conn_order k ch \<Longrightarrow> conn_view (pending y) (\<lambda>K. published K y) k ch \<Longrightarrow>
      conn_ok (c \<in> h_clients (g_hub y')) (pending y) (\<lambda>K. published K y) (g_conns y' c) (h_chans (g_hub y') c)"
  shows "sse_inv y'"
proof (rule sse_inv_local [OF assms(1,3,4), of c])
  show "conn_ok (c \<in> h_clients (g_hub y')) (pending y) (\<lambda>K. published K y) (g_conns y' c) (h_chans (g_hub y') c)"
    by (rule phase_ofD [OF assms(1,2)]) (rule assms(7))
qed (use assms(5,6) in \<open>auto split: if_splits\<close>)

lemma relayed_append: "relayed (xs @ ys) = relayed xs @ relayed ys"
  by (induction xs) (auto simp: relayed_def map_filter_simps split: option.splits)

lemma relayed_simps [simp]: "relayed [W_greet b] = []" "relayed [W_msg b] = [b]" "relayed [W_ping] = []"
  by (simp_all add: relayed_def map_filter_simps)

lemma step_Write:
  assumes "sse_inv y" and "sse_enabled (Write c ok) y" and "sse_perform (Write c ok) y = Some y'"
  shows "sse_inv y'"
proof -
  from assms(2) obtain bs where ph: "phase_of c y = Some (Greeting bs)"
    by (auto split: option.splits conn_phase.splits)
  show ?thesis
  proof (rule step_conn [OF assms(1) ph, where ph' = Relaying])
    fix k ch
    assume k: "g_conns y c = Some k" "k_phase k = Greeting bs" "h_chans (g_hub y) c = Some ch"
      "conn_link (c \<in> h_clients (g_hub y)) k ch" "conn_order k ch" "conn_view (pending y) (\<lambda>K. published K y) k ch"
    show "conn_ok (c \<in> h_clients (g_hub y')) (pending y) (\<lambda>K. published K y) (g_conns y' c) (h_chans (g_hub y') c)"
      using assms(3) k
      by (cases bs) (auto simp: set_conn_def conn_defs stream_def relayed_append frame_of_def split: if_splits)
  qed (use assms(3) in \<open>auto simp: set_conn_def client_phase_def\<close>)
qed

lemma step_Heartbeat:
  assumes "sse_inv y" and "sse_enabled (Heartbeat c ok) y" and "sse_perform (Heartbeat c ok) y = Some y'"
  shows "sse_inv y'"
proof -
  from assms(2) have ph: "phase_of c y = Some Relaying" by simp
  have skip: "last_of (event K) (xs @ ping # ys) = last_of (event K) (xs @ ys)" for K xs ys
    by (rule last_of_skip) (simp add: kind_of_ping event_other [symmetric])
  show ?thesis
  proof (rule step_conn [OF assms(1) ph, where ph' = Relaying])
    fix k ch
    assume k: "g_conns y c = Some k" "k_phase k = Relaying" "h_chans (g_hub y) c = Some ch"
      "conn_link (c \<in> h_clients (g_hub y)) k ch" "conn_order k ch" "conn_view (pending y) (\<lambda>K. published K y) k ch"
    show "conn_ok (c \<in> h_clients (g_hub y')) (pending y) (\<lambda>K. published K y) (g_conns y' c) (h_chans (g_hub y') c)"
      using assms(3) k
      by (auto simp: set_conn_def conn_defs stream_def relayed_append frame_of_def skip split: if_splits)
  qed (use assms(3) in \<open>auto simp: set_conn_def client_phase_def\<close>)
qed

lemma step_Disconnect:
  assumes "sse_inv y" and "sse_enabled (Disconnect c) y" and "sse_perform (Disconnect c) y = Some y'"
  shows "sse_inv y'"
proof -
  from assms(2) have ph: "phase_of c y = Some Relaying" by simp
  show ?thesis
    by (rule step_conn [OF assms(1) ph, where ph' = Exiting])
      (use assms(3) in \<open>auto simp: set_conn_def conn_defs\<close>)
qed

lemma step_Detach:
  assumes "sse_inv y" and "sse_enabled (Detach c) y" and "sse_perform (Detach c) y = Some y'"
  shows "sse_inv y'"
proof -
  from assms(2) have ph: "phase_of c y = Some Exiting" by simp
  show ?thesis
    by (rule step_conn [OF assms(1) ph, where ph' = Removed])
      (use assms(3) in \<open>auto simp: set_conn_def hub_delete_def conn_defs\<close>)
qed

lemma step_Close:
  assumes "sse_inv y" and "sse_enabled (Close c) y" and "sse_perform (Close c) y = Some y'"
  shows "sse_inv y'"
proof -
  from assms(2) have ph: "phase_of c y = Some Removed" by simp
  have "c \<notin> h_clients (g_hub y)"
    by (rule phase_ofD [OF assms(1) ph]) (auto simp: conn_link_def client_phase_def)
  then show ?thesis
    by (intro step_conn [OF assms(1) ph, where ph' = Gone])
      (use assms(3) in \<open>auto simp: set_conn_def close_chan_def conn_defs split: option.splits if_splits\<close>)
qed

lemma step_Relay:
  assumes "sse_inv y" and "sse_enabled (Relay c ok) y" and "sse_perform (Relay c ok) y = Some y'"
  shows "sse_inv y'"
proof -
  from assms(2) have ph: "phase_of c y = Some Relaying"
    and ne: "\<And>ch. h_chans (g_hub y) c = Some ch \<Longrightarrow> ch_buf ch \<noteq> []" by auto
  show ?thesis
  proof (rule step_conn [OF assms(1) ph, where ph' = Relaying])
    fix k ch
    assume k: "g_conns y c = Some k" "k_phase k = Relaying" "h_chans (g_hub y) c = Some ch"
      "conn_link (c \<in> h_clients (g_hub y)) k ch" "conn_order k ch" "conn_view (pending y) (\<lambda>K. published K y) k ch"
    obtain m ms where b: "ch_buf ch = m # ms" using ne [OF k(3)] by (cases "ch_buf ch") auto
    have "subseq (relayed (k_written k) @ ms) (relayed (k_written k) @ m # ms)"
      by (intro list_emb_append_mono) auto
    with k(5) have "subseq (relayed (k_written k) @ ms) (k_sent k)"
      unfolding conn_order_def b using subseq_order.trans by blast
    then show "conn_ok (c \<in> h_clients (g_hub y')) (pending y) (\<lambda>K. published K y) (g_conns y' c) (h_chans (g_hub y') c)"
      using assms(3) k b
      by (auto simp: set_conn_def conn_defs stream_def relayed_append frame_of_def split: if_splits)
  qed (use assms(3) in \<open>auto simp: set_conn_def client_phase_def split: option.splits\<close>)
qed

text \<open>Steps of the render loop and broadcasts touch every connection.\<close>

lemma conn_ok_idle: "conn_ok False pend pub ko cho \<Longrightarrow> conn_ok False pend' pub' ko cho"
  by (auto simp: conn_defs split: option.splits)

lemma unchanged_field:
  assumes "typed f" and "field K f = Some x" and "\<not> changed prev (Some x)"
  shows "prev = Some x"
proof -
  have "kind_of x = event K" using assms(1,2) by (simp add: typed_def)
  then have "x \<noteq> []" using event_other(4) [of K] by (auto simp: kind_of_def)
  then show ?thesis using assms(3) by (auto simp: changed_def split: option.splits)
qed

lemma step_Publish:
  assumes "sse_inv y" and "sse_enabled (Publish p) y" and "sse_perform (Publish p) y = Some y'"
  shows "sse_inv y'"
proof -
  let ?fs = "build_frames p" and ?pub = "\<lambda>K. published K y"
  note ty = typed_build_frames [of p]
  have y': "y' = y\<lparr>g_frames := Some ?fs, g_render := R_swapped (g_frames y) ?fs\<rparr>" using assms(3) by simp
  have pub': "published K y' = field K ?fs" for K by (simp add: y' published_def)
  have pend: "pending y = []" using assms(2) by (simp add: pending_def)
  have pend': "pending y' = render_sends (g_frames y) ?fs" by (simp add: y' pending_def)
  have last: "last_of (event K) (pending y') =
      (if K = Stats \<or> changed (?pub K) (field K ?fs) then field K ?fs else None)" for K
    by (simp only: pend' last_of_render_sends [OF ty] published_def)
  have "frames_ok y'" using ty by (auto simp: frames_ok_def pub' last) (simp_all add: y')
  moreover have "conns_ok y'" unfolding conns_ok_def
  proof
    fix c
    have ok: "conn_ok (c \<in> h_clients (g_hub y)) [] ?pub (g_conns y c) (h_chans (g_hub y) c)"
      using assms(1) pend by (simp add: sse_inv_def conns_ok_def)
    have "conn_view (pending y') (\<lambda>K. published K y') k ch" if v: "conn_view [] ?pub k ch" for k ch
      unfolding conn_view_def
    proof (intro impI allI)
      fix K x
      assume a: "active_phase (k_phase k)" "k_dropped k = 0" and x: "published K y' = Some x"
      show "last_of (event K) (stream k @ ch_buf ch @ pending y') = Some x \<or>
          k_phase k = Attached \<and> last_of (event K) (stream k @ ch_buf ch @ pending y') = None"
      proof (cases "K = Stats \<or> changed (?pub K) (field K ?fs)")
        case True
        then show ?thesis using x by (simp add: last_of_append [of _ "stream k @ ch_buf ch"] last pub' flip: append_assoc)
      next
        case False
        then have "?pub K = Some x" using unchanged_field [OF ty] x by (simp add: pub')
        with v a have "last_of (event K) (stream k @ ch_buf ch) = Some x \<or>
            k_phase k = Attached \<and> last_of (event K) (stream k @ ch_buf ch) = None"
          by (simp add: conn_view_def)
        with False show ?thesis by (simp add: last_of_append [of _ "stream k @ ch_buf ch"] last flip: append_assoc)
      qed
    qed
    with ok show "conn_ok (c \<in> h_clients (g_hub y')) (pending y') (\<lambda>K. published K y') (g_conns y' c) (h_chans (g_hub y') c)"
      by (auto simp: conn_ok_def y' split: option.splits)
  qed
  ultimately show ?thesis using assms(1) by (simp add: sse_inv_def y')
qed

lemma step_Check:
  assumes "sse_inv y" and "sse_enabled Check y" and "sse_perform Check y = Some y'"
  shows "sse_inv y'"
proof -
  from assms(2) obtain prev fs where r: "g_render y = R_swapped prev fs"
    by (auto split: render_phase.splits)
  have same: "g_frames y' = g_frames y" "g_hub y' = g_hub y" "g_conns y' = g_conns y" "published K y' = published K y" for K
    using assms(3) r by (auto simp: published_def)
  show ?thesis
  proof (cases "hub_Clients (g_hub y) = 0")
    case True
    then have "h_clients (g_hub y) = {}" using assms(1) by (simp add: hub_Clients_def sse_inv_def)
    moreover have "pending y' = []" using True assms(3) r by (auto simp: pending_def)
    ultimately show ?thesis using assms(1) True assms(3) r
      by (auto simp: sse_inv_def conns_ok_def frames_ok_def same
          intro: conn_ok_idle [of "pending y" "\<lambda>K. published K y"])
  next
    case False
    then have "pending y' = pending y" using assms(3) r by (auto simp: pending_def)
    then show ?thesis using assms(1,3) r False by (auto simp: sse_inv_def conns_ok_def frames_ok_def same)
  qed
qed

lemma step_Pulse:
  assumes "sse_inv y" and "sse_perform (Pulse now) y = Some y'"
  shows "sse_inv y'"
proof -
  have "pending y' = pending y" "published K y' = published K y" "g_conns y' = g_conns y" "g_frames y' = g_frames y"
    "g_render y' = g_render y" "h_clients (g_hub y') = h_clients (g_hub y)" "h_chans (g_hub y') = h_chans (g_hub y)" for K
    using assms(2) by (auto simp: pending_def published_def hub_Pulse_def)
  then show ?thesis using assms(1) by (simp add: sse_inv_def conns_ok_def frames_ok_def)
qed

lemma conn_ok_send:
  assumes "sse_inv y" and pend: "pending y = m # pend' \<or> (pend' = pending y \<and> (\<forall>K. kind_of m \<noteq> event K))"
  shows "conn_ok (c \<in> h_clients (g_hub y)) pend' (\<lambda>K. published K y) (note_sent m (g_hub y) (g_conns y) c)
    (if c \<in> h_clients (g_hub y) then map_option (deliver m) (h_chans (g_hub y) c) else h_chans (g_hub y) c)"
proof (cases "c \<in> h_clients (g_hub y)")
  case True
  have ok: "conn_ok True (pending y) (\<lambda>K. published K y) (g_conns y c) (h_chans (g_hub y) c)"
    using assms(1) True by (auto simp: sse_inv_def conns_ok_def dest: spec [of _ c])
  then obtain k ch where k: "g_conns y c = Some k" "h_chans (g_hub y) c = Some ch" "conn_link True k ch"
      "conn_order k ch" "conn_view (pending y) (\<lambda>K. published K y) k ch"
    by (auto simp: conn_ok_def split: option.splits)
  from conn_deliver [OF k(3-5) pend refl] True k(1,2) show ?thesis
    by (simp add: note_sent_def conn_ok_def)
next
  case False
  then have "conn_ok False (pending y) (\<lambda>K. published K y) (g_conns y c) (h_chans (g_hub y) c)"
    using assms(1) by (auto simp: sse_inv_def conns_ok_def dest: spec [of _ c])
  then show ?thesis using False by (simp add: note_sent_def conn_ok_idle)
qed

lemma do_send_client:
  assumes "sse_inv y" and "enumerates ks (h_clients (g_hub y))"
  shows "do_send ks (Some m) y = Some (y\<lparr>g_hub := (g_hub y)\<lparr>h_chans := (\<lambda>c. if c \<in> h_clients (g_hub y)
    then map_option (deliver m) (h_chans (g_hub y) c) else h_chans (g_hub y) c)\<rparr>,
    g_conns := note_sent m (g_hub y) (g_conns y)\<rparr>)"
  by (simp add: do_send_def hub_send_client [OF assms])

lemma step_Send:
  assumes "sse_inv y" and "sse_enabled (Send ks) y" and "sse_perform (Send ks) y = Some y'"
  shows "sse_inv y'"
proof -
  from assms(2) obtain ms where r: "g_render y = R_sending ms" and ks: "enumerates ks (h_clients (g_hub y))"
    by (auto split: render_phase.splits)
  show ?thesis
  proof (cases ms)
    case Nil
    then have y': "y' = y\<lparr>g_render := R_idle\<rparr>" using assms(3) r by simp
    have "pending y' = []" "pending y = []" "published K y' = published K y" for K
      using Nil r by (simp_all add: y' pending_def published_def)
    then show ?thesis using assms(1) by (auto simp: y' sse_inv_def conns_ok_def frames_ok_def)
  next
    case (Cons m pend)
    have p: "pending y = m # pend" using r Cons by (simp add: pending_def)
    from assms(3) r Cons have y': "y' = y\<lparr>g_hub := (g_hub y)\<lparr>h_chans := (\<lambda>c. if c \<in> h_clients (g_hub y)
        then map_option (deliver m) (h_chans (g_hub y) c) else h_chans (g_hub y) c)\<rparr>,
        g_conns := note_sent m (g_hub y) (g_conns y), g_render := R_sending pend\<rparr>"
      by (simp add: do_send_client [OF assms(1) ks])
    have same: "pending y' = pend" "published K y' = published K y" for K by (simp_all add: y' pending_def published_def)
    have "last_of (event K) pend \<in> {None, Some x}" if "published K y = Some x" for K x
      using assms(1) that p by (fastforce simp: sse_inv_def frames_ok_def split: option.splits if_splits)
    then have "frames_ok y'" using assms(1) by (auto simp: frames_ok_def same sse_inv_def) (simp_all add: y')
    moreover have "conns_ok y'" using conn_ok_send [OF assms(1), of m pend] p
      unfolding conns_ok_def same by (simp add: y')
    ultimately show ?thesis using assms(1) by (simp add: sse_inv_def y')
  qed
qed

lemma step_Event:
  assumes "sse_inv y" and "sse_enabled (Event ev p ks) y" and "sse_perform (Event ev p ks) y = Some y'"
  shows "sse_inv y'"
proof (cases "sseFrame ev p")
  case None
  then show ?thesis using assms(1,3) by (simp add: do_send_def hub_send_def)
next
  case (Some m)
  from assms(2) have ev: "ev \<in> {''wake'', ''scan''}" and ks: "enumerates ks (h_clients (g_hub y))" by auto
  from ev have "newline \<notin> set ev" using event_line(3,4) by auto
  with Some have "kind_of m = ev" by (rule kind_of_sseFrame)
  with ev have m: "\<forall>K. kind_of m \<noteq> event K" using event_other(2,3) by fastforce
  from assms(3) Some have y': "y' = y\<lparr>g_hub := (g_hub y)\<lparr>h_chans := (\<lambda>c. if c \<in> h_clients (g_hub y)
      then map_option (deliver m) (h_chans (g_hub y) c) else h_chans (g_hub y) c)\<rparr>,
      g_conns := note_sent m (g_hub y) (g_conns y)\<rparr>"
    by (simp add: do_send_client [OF assms(1) ks])
  have same: "pending y' = pending y" "published K y' = published K y" for K by (simp_all add: y' pending_def published_def)
  have "conns_ok y'" using conn_ok_send [OF assms(1), of m "pending y"] m
    unfolding conns_ok_def same by (simp add: y')
  moreover have "frames_ok y'" using assms(1) by (simp add: sse_inv_def frames_ok_def same) (simp add: y')
  ultimately show ?thesis using assms(1) by (simp add: sse_inv_def y')
qed

lemmas sse_steps = step_Attach step_Greet step_Write step_Relay step_Heartbeat step_Disconnect step_Detach
  step_Close step_Publish step_Check step_Send step_Event step_Pulse

lemma sse_inv_init: "sse_init y \<Longrightarrow> sse_inv y"
  by (auto simp: sse_init_def sse_inv_def frames_ok_def conns_ok_def conn_ok_def published_def pending_def newHub_def)

lemma sse_inv_step: "sse_inv y \<Longrightarrow> sse_step y y' \<Longrightarrow> sse_inv y'"
proof (elim sse_stepE)
  fix a
  assume "sse_inv y" "sse_enabled a y" "sse_perform a y = Some y'"
  then show "sse_inv y'" by (cases a) (blast intro: sse_steps)+
qed

interpretation sse: state_machine sse_init sse_step sse_inv
  by unfold_locales (rule sse_inv_init sse_inv_step, assumption+)+

section \<open>What the stream promises\<close>

text \<open>
  C22. The hub never panics. In every reachable state, whichever step comes next, no frame is sent
  on a closed channel and no channel is closed twice; every buffer holds at most 16 frames,
  and exactly the connections that have not left are clients.
\<close>

theorem sse_never_panics:
  assumes "reachable sse_init sse_step y"
  shows "(sse_enabled a y \<longrightarrow> sse_perform a y \<noteq> None) \<and>
    (\<forall>c ch. h_chans (g_hub y) c = Some ch \<longrightarrow> length (ch_buf ch) \<le> 16) \<and>
    h_clients (g_hub y) = {c. \<exists>k. g_conns y c = Some k \<and> k_phase k \<noteq> Removed \<and> k_phase k \<noteq> Gone}"
proof (intro conjI)
  have inv: "sse_inv y" using assms by (rule sse.reachable_inv)
  have ok: "conn_ok (c \<in> h_clients (g_hub y)) (pending y) (\<lambda>K. published K y) (g_conns y c) (h_chans (g_hub y) c)" for c
    using inv by (simp add: sse_inv_def conns_ok_def)
  show "\<forall>c ch. h_chans (g_hub y) c = Some ch \<longrightarrow> length (ch_buf ch) \<le> 16"
  proof (intro allI impI)
    fix c ch
    assume "h_chans (g_hub y) c = Some ch"
    then show "length (ch_buf ch) \<le> 16"
      using ok [of c] by (simp add: conn_ok_def conn_link_def ch_cap_def split: option.splits)
  qed
  show "h_clients (g_hub y) = {c. \<exists>k. g_conns y c = Some k \<and> k_phase k \<noteq> Removed \<and> k_phase k \<noteq> Gone}"
    using ok by (fastforce simp: conn_ok_def conn_link_def client_phase_def split: option.splits)
  show "sse_enabled a y \<longrightarrow> sse_perform a y \<noteq> None"
  proof
    assume en: "sse_enabled a y"
    show "sse_perform a y \<noteq> None"
    proof (cases a)
      case (Close c)
      with en have "phase_of c y = Some Removed" by simp
      from phase_ofD [OF inv this] obtain k ch where "k_phase k = Removed" "h_chans (g_hub y) c = Some ch"
        "conn_link (c \<in> h_clients (g_hub y)) k ch" .
      then show ?thesis by (simp add: Close close_chan_def conn_link_def)
    next
      case (Event ev p ks)
      with en have "enumerates ks (h_clients (g_hub y))" by simp
      then show ?thesis using do_send_client [OF inv]
        by (cases "sseFrame ev p") (simp_all add: Event do_send_def [of _ None] hub_send_def)
    next
      case (Send ks)
      with en have "enumerates ks (h_clients (g_hub y))" by simp
      then show ?thesis using do_send_client [OF inv]
        by (auto simp: Send split: render_phase.splits list.splits)
    qed (use en in \<open>auto split: option.splits\<close>)
  qed
qed

text \<open>
  C19. Frames arrive in order, once. In every reachable state the frames the hub has relayed to a
  client are a subsequence of those sent since it attached; when none was dropped for a full
  buffer, what was relayed and what is still buffered are all of them.
\<close>

theorem sse_delivery_in_order:
  assumes "reachable sse_init sse_step y" and "g_conns y c = Some k" and "h_chans (g_hub y) c = Some ch"
  shows "subseq (relayed (k_written k) @ ch_buf ch) (k_sent k) \<and>
    (k_phase k = Relaying \<and> k_dropped k = 0 \<longrightarrow> relayed (k_written k) @ ch_buf ch = k_sent k)"
proof -
  have "sse_inv y" using assms(1) by (rule sse.reachable_inv)
  with assms(2,3) have "conn_order k ch" unfolding sse_inv_def by (metis conns_okD option.inject)
  then show ?thesis
    by (auto simp: conn_order_def active_phase_def client_phase_def intro: subseq_same_length)
qed

text \<open>
  C4. A dashboard that keeps up is current. Between two renders, a client that is relaying, has
  drained its buffer and had no frame dropped has, for each of the four live views, last been
  written exactly the frame that is published.
\<close>

theorem dashboard_is_current:
  assumes "reachable sse_init sse_step y" and "g_render y = R_idle"
    and "g_conns y c = Some k" and "k_phase k = Relaying" and "k_dropped k = 0"
    and "h_chans (g_hub y) c = Some ch" and "ch_buf ch = []"
    and "published K y = Some x"
  shows "last_of (event K) (map frame_of (k_written k)) = Some x"
proof -
  have "sse_inv y" using assms(1) by (rule sse.reachable_inv)
  with assms(3,6) have "conn_view (pending y) (\<lambda>K. published K y) k ch"
    unfolding sse_inv_def by (metis conns_okD option.inject)
  then show ?thesis using assms(2,4,5,7,8)
    by (auto simp: conn_view_def pending_def stream_def active_phase_def client_phase_def)
qed

section \<open>A concrete run\<close>

text \<open>
  A client attaches before the first render, is greeted with a fresh hello, and relays the
  frames of that render; a second client attaches while it is under way.
\<close>

definition demo_hub :: sse_sys where
  "demo_hub = \<lparr>g_hub = newHub 30, g_frames = None, g_render = R_idle, g_conns = Map.empty\<rparr>"

definition demo_payloads :: payloads where
  "demo_payloads = \<lparr>p_hello = Some ''h'', p_stats = Some ''s'', p_devices = Some ''d'', p_cache = Some ''c'', p_services = None\<rparr>"

definition demo_run :: "sse_act list" where
  "demo_run = [Attach 0, Greet 0 (Some ''h'') 5, Write 0 True, Write 0 True, Publish demo_payloads, Check, Attach 1,
     Send [0, 1], Relay 0 True, Send [1, 0], Send [0, 1], Send [0, 1], Relay 0 True, Heartbeat 0 True, Relay 0 True]"

definition demo_end :: sse_sys where
  "demo_end = the (run_sse demo_run demo_hub)"

lemma demo_end_reachable: "reachable sse_init sse_step demo_end"
proof -
  have "reachable sse_init sse_step demo_hub" by (rule reach_init) (auto simp: sse_init_def demo_hub_def)
  moreover have "run_sse demo_run demo_hub = Some demo_end"
  proof -
    have "run_sse demo_run demo_hub \<noteq> None" by code_simp
    then show ?thesis by (simp add: demo_end_def)
  qed
  ultimately show ?thesis by (rule run_sse_reachable)
qed

lemma demo_end_conn:
  obtains k ch where "g_conns demo_end 0 = Some k" "h_chans (g_hub demo_end) 0 = Some ch"
    "k_phase k = Relaying" "k_dropped k = 0" "ch_buf ch = []" "length (relayed (k_written k)) = 3"
proof -
  have "case (g_conns demo_end 0, h_chans (g_hub demo_end) 0) of
      (Some k, Some ch) \<Rightarrow> k_phase k = Relaying \<and> k_dropped k = 0 \<and> ch_buf ch = [] \<and> length (relayed (k_written k)) = 3
    | _ \<Rightarrow> False" by code_simp
  then show thesis using that by (auto split: option.splits)
qed

lemma sse_never_panics_witness: "sse_enabled (Heartbeat 0 True) demo_end \<and> sse_perform (Heartbeat 0 True) demo_end \<noteq> None"
proof -
  have "sse_enabled (Heartbeat 0 True) demo_end" by code_simp
  then show ?thesis using sse_never_panics [OF demo_end_reachable, of "Heartbeat 0 True"] by simp
qed

lemma sse_delivery_in_order_witness:
  "\<exists>k. g_conns demo_end 0 = Some k \<and> relayed (k_written k) = k_sent k \<and> length (k_sent k) = 3"
proof -
  obtain k ch where k: "g_conns demo_end 0 = Some k" "h_chans (g_hub demo_end) 0 = Some ch"
    "k_phase k = Relaying" "k_dropped k = 0" "ch_buf ch = []" "length (relayed (k_written k)) = 3"
    by (rule demo_end_conn)
  from sse_delivery_in_order [OF demo_end_reachable k(1,2)] k show ?thesis by auto
qed

lemma dashboard_is_current_witness:
  "\<exists>k. g_conns demo_end 0 = Some k \<and>
    last_of (event Devices) (map frame_of (k_written k)) = sseFrame ''devices'' (Some ''d'')"
proof -
  obtain k ch where k: "g_conns demo_end 0 = Some k" "h_chans (g_hub demo_end) 0 = Some ch"
    "k_phase k = Relaying" "k_dropped k = 0" "ch_buf ch = []" by (rule demo_end_conn)
  obtain x where x: "sseFrame ''devices'' (Some ''d'') = Some x" by (simp add: sseFrame_def)
  have "g_render demo_end = R_idle" "published Devices demo_end = sseFrame ''devices'' (Some ''d'')" by code_simp+
  from dashboard_is_current [OF demo_end_reachable this(1) k(1,3,4,2,5) this(2) [unfolded x]] k(1) x
  show ?thesis by simp
qed

section \<open>A slow client\<close>

text \<open>
  The hypothesis that nothing was dropped is needed: a frame dropped for a full buffer is not
  sent again while the data does not change, so a client that was once too slow can show an old
  view for as long as it stays. Here 17 progress events fill the buffer, the changed device
  frame is dropped, and the client drains to a view that is not the published one.
\<close>

definition slow_run :: "sse_act list" where
  "slow_run = [Publish demo_payloads, Check, Attach 0, Greet 0 None 5] @ replicate 5 (Write 0 True) @
     replicate 16 (Event ''scan'' (Some ''p'') [0]) @
     [Publish (demo_payloads\<lparr>p_devices := Some ''new''\<rparr>), Check, Send [0], Send [0], Send [0]] @ replicate 16 (Relay 0 True) @
     [Publish (demo_payloads\<lparr>p_devices := Some ''new''\<rparr>), Check, Send [0], Send [0], Relay 0 True]"

lemma slow_client_stays_stale:
  "case run_sse slow_run demo_hub of None \<Rightarrow> False
   | Some y \<Rightarrow> g_render y = R_idle \<and> published Devices y = sseFrame ''devices'' (Some ''new'') \<and>
      (case (g_conns y 0, h_chans (g_hub y) 0) of
         (Some k, Some ch) \<Rightarrow> k_phase k = Relaying \<and> ch_buf ch = [] \<and>
           last_of (event Devices) (map frame_of (k_written k)) = sseFrame ''devices'' (Some ''d'')
       | _ \<Rightarrow> False)"
  by code_simp

end
