(* ===== verification/Probe.thy ===== *)
theory Probe
  imports JournalProps
begin

text \<open>
  Active probing: the TCP and ICMP probes of \<^verbatim>\<open>internal/probe\<close>, the mapping of their outcomes in
  \<^verbatim>\<open>internal/server/liveness.go\<close>, and the gated probe loop of \<^verbatim>\<open>server.go\<close>. The network is an
  environment: which sockets open, which writes succeed, and the datagrams that arrive before
  the deadline; \<^verbatim>\<open>icmp.ParseMessage\<close> is a library function and an argument.
\<close>

section \<open>Probes\<close>

text \<open>A peer that is neither a UDP nor an IP address is \<open>None\<close>; the number is the elapsed time in ms.\<close>

type_synonym arrival = "ip option \<times> byte list \<times> int"

record net_env =
  n_dial :: "string \<Rightarrow> int \<Rightarrow> int option"
  n_udp4 :: bool
  n_raw :: bool
  n_write :: "ip \<Rightarrow> bool"
  n_arrivals :: "ip \<Rightarrow> arrival list"

definition probe_TCP :: "net_env \<Rightarrow> string \<Rightarrow> int \<Rightarrow> bool \<times> int" where
  "probe_TCP env ip port = (case n_dial env ip port of None \<Rightarrow> (False, 0) | Some rtt \<Rightarrow> (True, rtt))"

definition sameHost :: "ip option \<Rightarrow> ip \<Rightarrow> bool" where
  "sameHost peer ip = (case peer of None \<Rightarrow> False | Some a \<Rightarrow> ip_equal a ip)"

text \<open>
  The read loop: the end of the list is the deadline. \<open>parse\<close> gives \<open>None\<close> for a message that
  does not parse and otherwise whether it is an echo reply.
\<close>

fun icmp_loop :: "(byte list \<Rightarrow> bool option) \<Rightarrow> ip \<Rightarrow> arrival list \<Rightarrow> bool \<times> int" where
  "icmp_loop parse dst [] = (False, 0)"
| "icmp_loop parse dst ((peer, b, rtt) # rs) =
     (if \<not> sameHost peer dst then icmp_loop parse dst rs
      else (case parse b of
              None \<Rightarrow> (False, 0)
            | Some True \<Rightarrow> (True, rtt)
            | Some False \<Rightarrow> icmp_loop parse dst rs))"

definition probe_ICMP :: "(byte list \<Rightarrow> bool option) \<Rightarrow> net_env \<Rightarrow> string \<Rightarrow> bool \<times> int" where
  "probe_ICMP parse env ip =
     (let dst = ParseIP ip in
      if dst = [] \<or> To4 dst = [] then (False, 0)
      else if \<not> n_udp4 env \<and> \<not> n_raw env then (False, 0)
      else if \<not> n_write env dst then (False, 0)
      else icmp_loop parse dst (n_arrivals env dst))"

definition server_probeICMP :: "(byte list \<Rightarrow> bool option) \<Rightarrow> net_env \<Rightarrow> string \<Rightarrow> icmp_result" where
  "server_probeICMP parse env ip =
     (let (up, rtt) = probe_ICMP parse env ip in
      if up then \<lparr>ic_St = ''up'', ic_RTT = rtt\<rparr> else \<lparr>ic_St = ''down'', ic_RTT = 0\<rparr>)"

definition server_probeOne :: "net_env \<Rightarrow> string \<Rightarrow> int \<Rightarrow> probe_view" where
  "server_probeOne env ip port =
     (let (opened, rtt) = probe_TCP env ip port in
      if opened then \<lparr>pv_Port = port, pv_St = ''up'', pv_RTT = rtt, pv_Note = []\<rparr>
      else \<lparr>pv_Port = port, pv_St = ''down'', pv_RTT = 0, pv_Note = ''closed''\<rparr>)"

section \<open>One cycle\<close>

text \<open>
  The results of \<^verbatim>\<open>probeTracked\<close>, one goroutine per device of the snapshot: each writes its own
  key, so the map does not depend on how they finish (MACs of a snapshot are distinct).
\<close>

definition probe_part :: "(byte list \<Rightarrow> bool option) \<Rightarrow> net_env \<Rightarrow> device \<Rightarrow> live_part" where
  "probe_part parse env d = \<lparr>lp_icmp = Some (server_probeICMP parse env (d_IP d)),
     lp_probes = map (server_probeOne env (d_IP d)) (d_Probes d)\<rparr>"

definition probe_results :: "(byte list \<Rightarrow> bool option) \<Rightarrow> net_env \<Rightarrow> devState list \<Rightarrow> string \<Rightarrow> live_part option" where
  "probe_results parse env snap =
     map_of (rev (map (\<lambda>ds. (d_MAC (ds_dev ds), probe_part parse env (ds_dev ds)))
       (filter (\<lambda>ds. d_IP (ds_dev ds) \<noteq> []) snap)))"

section \<open>The gated loop\<close>

text \<open>
  \<^verbatim>\<open>probeLoop\<close> beside everything else that touches the model. A tick with the gate open takes the
  snapshot (\<open>T_open\<close>); the results are folded in later (\<open>T_apply\<close>), after any number of other
  steps; a tick with the gate closed clears once. The flag \<^verbatim>\<open>probed\<close> is the loop's local.
\<close>

record gate_sys =
  t_mem :: state
  t_probed :: bool
  t_cycle :: "(string \<Rightarrow> live_part option) option"

datatype gate_act =
    T_open "byte list \<Rightarrow> bool option" net_env
  | T_apply "string list" int
  | T_closed
  | M_load "device list"
  | M_neigh "string list" "string \<Rightarrow> entry option" int
  | M_touch string string string int
  | M_forget string
  | M_prune "string list" int
  | M_observed "observed list"
  | M_drain "string list" "string list" "string list"
  | M_restore batch

fun gate_enabled :: "gate_act \<Rightarrow> gate_sys \<Rightarrow> bool" where
  "gate_enabled (T_open parse env) y \<longleftrightarrow> t_cycle y = None"
| "gate_enabled (T_apply ks now) y \<longleftrightarrow>
     (case t_cycle y of None \<Rightarrow> False | Some r \<Rightarrow> enumerates ks (dom r))"
| "gate_enabled T_closed y \<longleftrightarrow> t_cycle y = None"
| "gate_enabled (M_load devs) y \<longleftrightarrow> wf_devices devs"
| "gate_enabled (M_neigh ks byMAC now) y \<longleftrightarrow> enumerates ks (dom (s_devs (t_mem y)))"
| "gate_enabled (M_touch mac ip name now) y \<longleftrightarrow> True"
| "gate_enabled (M_forget mac) y \<longleftrightarrow> True"
| "gate_enabled (M_prune ks before) y \<longleftrightarrow> enumerates ks (dom (s_obs (t_mem y)))"
| "gate_enabled (M_observed xs) y \<longleftrightarrow> True"
| "gate_enabled (M_drain kd ko km) y \<longleftrightarrow> enumerates kd (dom (s_devs (t_mem y))) \<and>
     enumerates ko (s_obsDirty (t_mem y)) \<and> enumerates km (dom (s_ipMoves (t_mem y)))"
| "gate_enabled (M_restore b) y \<longleftrightarrow> True"

fun gate_perform :: "gate_act \<Rightarrow> gate_sys \<Rightarrow> gate_sys" where
  "gate_perform (T_open parse env) y =
     y\<lparr>t_probed := True, t_cycle := Some (probe_results parse env (snapshot (t_mem y)))\<rparr>"
| "gate_perform (T_apply ks now) y =
     (case t_cycle y of None \<Rightarrow> y | Some r \<Rightarrow> y\<lparr>t_mem := applyProbes ks r now (t_mem y), t_cycle := None\<rparr>)"
| "gate_perform T_closed y =
     (if t_probed y then y\<lparr>t_mem := clearLive (t_mem y), t_probed := False\<rparr> else y)"
| "gate_perform (M_load devs) y = y\<lparr>t_mem := load_merge devs (t_mem y)\<rparr>"
| "gate_perform (M_neigh ks byMAC now) y = y\<lparr>t_mem := applyNeigh ks byMAC now (t_mem y)\<rparr>"
| "gate_perform (M_touch mac ip name now) y = y\<lparr>t_mem := touchObserved mac ip name now (t_mem y)\<rparr>"
| "gate_perform (M_forget mac) y = y\<lparr>t_mem := forgetObserved mac (t_mem y)\<rparr>"
| "gate_perform (M_prune ks before) y = y\<lparr>t_mem := pruneObserved ks before (t_mem y)\<rparr>"
| "gate_perform (M_observed xs) y = y\<lparr>t_mem := fold load_obs_step xs (t_mem y)\<rparr>"
| "gate_perform (M_drain kd ko km) y = y\<lparr>t_mem := snd (drain kd ko km (t_mem y))\<rparr>"
| "gate_perform (M_restore b) y = y\<lparr>t_mem := restore b (t_mem y)\<rparr>"

inductive gate_step :: "gate_sys \<Rightarrow> gate_sys \<Rightarrow> bool" where
  "gate_enabled a y \<Longrightarrow> gate_step y (gate_perform a y)"

inductive_cases gate_stepE: "gate_step y y'"

definition gate_init :: "gate_sys \<Rightarrow> bool" where
  "gate_init y \<longleftrightarrow> t_mem y = newState \<and> \<not> t_probed y \<and> t_cycle y = None"

text \<open>Nothing in the model claims a device is up or was up in the last cycle.\<close>

definition quiet :: "state \<Rightarrow> bool" where
  "quiet s \<longleftrightarrow> (\<forall>mac ds. s_devs s mac = Some ds \<longrightarrow> ds_live ds = no_live \<and> ds_status ds = [])"

definition gate_inv :: "gate_sys \<Rightarrow> bool" where
  "gate_inv y \<longleftrightarrow> \<not> t_probed y \<longrightarrow> t_cycle y = None \<and> quiet (t_mem y)"

lemma quiet_same: "quiet s \<Longrightarrow> s_devs t = s_devs s \<Longrightarrow> quiet t"
  by (simp add: quiet_def)

lemma quiet_in_place:
  assumes "quiet s" and "\<And>mac. s_devs t mac = map_option (g mac) (s_devs s mac)"
    and "\<And>mac ds. ds_live (g mac ds) = ds_live ds \<and> ds_status (g mac ds) = ds_status ds"
  shows "quiet t"
  using assms by (auto simp: quiet_def)

end
