(* ===== verification/Devices.thy ===== *)
theory Devices
  imports Probe Oui
begin

text \<open>
  The views of \<^verbatim>\<open>internal/server/devices.go\<close> and the name cache of \<^verbatim>\<open>names.go\<close>: the neighbour
  snapshot indexed by MAC, the tracked-device rows, the remembered and present untracked hosts.
  The clock is an argument (seconds for the model, nanoseconds for the name cache).
\<close>

section \<open>The neighbour snapshot\<close>

definition stateRank :: "string \<Rightarrow> int" where
  "stateRank st = (if st = ''up'' then 3 else if st = ''stale'' then 2 else if st = ''down'' then 1 else 0)"

definition better :: "entry \<Rightarrow> entry \<Rightarrow> bool" where
  "better a b \<longleftrightarrow> stateRank (e_State a) > stateRank (e_State b)"

definition index_step :: "entry \<Rightarrow> (string \<Rightarrow> entry option) \<Rightarrow> (string \<Rightarrow> entry option)" where
  "index_step e byMAC = (case byMAC (e_MAC e) of
       None \<Rightarrow> byMAC(e_MAC e \<mapsto> e)
     | Some prev \<Rightarrow> if better e prev then byMAC(e_MAC e \<mapsto> e) else byMAC)"

text \<open>\<open>None\<close> is a failed read: an empty index and a nil list.\<close>

definition neighSnapshot :: "entry list option \<Rightarrow> (string \<Rightarrow> entry option) \<times> entry list" where
  "neighSnapshot r = (case r of None \<Rightarrow> (Map.empty, []) | Some es \<Rightarrow> (fold index_step es Map.empty, es))"

section \<open>Tracked devices\<close>

record device_view =
  dv_MAC :: string
  dv_IP :: string
  dv_Name :: string
  dv_Vendor :: string
  dv_Seen :: string
  dv_Arp :: string
  dv_Icmp :: "icmp_result option"
  dv_Probes :: "probe_view list"
  dv_SeenL2 :: bool
  dv_UnseenSec :: int
  dv_IcmpSeen :: bool

fun any_up :: "probe_view list \<Rightarrow> bool" where
  "any_up [] = False"
| "any_up (p # ps) = (if pv_St p = ''up'' then True else any_up ps)"

definition liveUp :: "icmp_result option \<Rightarrow> probe_view list \<Rightarrow> bool" where
  "liveUp icmp probes =
     (if (case icmp of None \<Rightarrow> False | Some r \<Rightarrow> ic_St r = ''up'') then True else any_up probes)"

definition deviceUp :: "device_view \<Rightarrow> bool" where
  "deviceUp v = liveUp (dv_Icmp v) (dv_Probes v)"

definition seenState :: "devState \<Rightarrow> device_view \<Rightarrow> int \<Rightarrow> string \<times> bool \<times> int" where
  "seenState ds v now =
     (if deviceUp v then (''now'', False, 0)
      else if ds_lastSeenUp ds > 0 then
        (FmtSeen (now - ds_lastSeenUp ds), False, now - ds_lastSeenUp ds)
      else let unseen = now - d_CreatedAt (ds_dev ds) in
        if d_Probes (ds_dev ds) = [] \<and> \<not> ds_icmpSeen ds then
          if ds_arpSeen ds \<ge> 0 then (FmtSeen (ds_arpSeen ds), True, unseen)
          else if ds_lastSeen ds > 0 then (FmtSeen (now - ds_lastSeen ds), True, unseen)
          else (em_dash, False, unseen)
        else (em_dash, False, unseen))"

text \<open>The row before its SEEN columns are computed, then the row.\<close>

definition device_base :: "vendor_table \<Rightarrow> devState \<Rightarrow> device_view" where
  "device_base table ds =
     (let d = ds_dev ds;
          v0 = \<lparr>dv_MAC = d_MAC d, dv_IP = d_IP d, dv_Name = d_Name d, dv_Vendor = d_Vendor d,
                dv_Seen = [], dv_Arp = ds_arp ds, dv_Icmp = None, dv_Probes = [], dv_SeenL2 = False,
                dv_UnseenSec = 0, dv_IcmpSeen = ds_icmpSeen ds\<rparr>;
          v1 = (if dv_Vendor v0 = [] then v0\<lparr>dv_Vendor := oui_lookup table (d_MAC d)\<rparr> else v0);
          v2 = v1\<lparr>dv_Icmp := lp_icmp (ds_live ds), dv_Probes := lp_probes (ds_live ds)\<rparr>
      in if dv_Probes v2 = []
         then v2\<lparr>dv_Probes := map (\<lambda>p. \<lparr>pv_Port = p, pv_St = ''down'', pv_RTT = 0, pv_Note = []\<rparr>) (d_Probes d)\<rparr>
         else v2)"

definition build_device :: "vendor_table \<Rightarrow> int \<Rightarrow> devState \<Rightarrow> device_view" where
  "build_device table now ds =
     (let v = device_base table ds; (seen, l2, unseen) = seenState ds v now
      in v\<lparr>dv_Seen := seen, dv_SeenL2 := l2, dv_UnseenSec := unseen\<rparr>)"

definition buildDevices :: "vendor_table \<Rightarrow> int \<Rightarrow> state \<Rightarrow> device_view list" where
  "buildDevices table now s = map (build_device table now) (snapshot s)"

section \<open>The name cache\<close>

type_synonym name_cache = "string \<Rightarrow> (string \<times> int) option"

definition nameTTL :: int where
  "nameTTL = 10 * 60 * 1000000000"

definition cachedName :: "int \<Rightarrow> name_cache \<Rightarrow> string \<Rightarrow> string" where
  "cachedName now cache ip = (case cache ip of None \<Rightarrow> []
     | Some (name, t) \<Rightarrow> if now - t < nameTTL then name else [])"

definition setName :: "int \<Rightarrow> string \<Rightarrow> string \<Rightarrow> name_cache \<Rightarrow> name_cache" where
  "setName now ip name cache = cache(ip \<mapsto> (name, now))"

definition needsName :: "int \<Rightarrow> name_cache \<Rightarrow> string \<Rightarrow> bool" where
  "needsName now cache ip = (case cache ip of None \<Rightarrow> True | Some (name, t) \<Rightarrow> now - t \<ge> nameTTL)"

text \<open>
  The addresses \<^verbatim>\<open>resolveNames\<close> queries. The loop starts a goroutine for each address the cache has no
  fresh name for; whether the answer to an earlier query for the same address is in the cache by
  then is up to the schedule: \<open>early i\<close> says so when \<open>i\<close> addresses are left.
\<close>

fun queries :: "(nat \<Rightarrow> bool) \<Rightarrow> int \<Rightarrow> name_cache \<Rightarrow> string list \<Rightarrow> string list \<Rightarrow> string list" where
  "queries early now cache [] queried = queried"
| "queries early now cache (ip # ips) queried =
     (if ip = [] \<or> \<not> needsName now cache ip \<or> ip \<in> set queried \<and> early (length ips)
      then queries early now cache ips queried
      else queries early now cache ips (queried @ [ip]))"

text \<open>
  The cache once every query has been answered, and the addresses queried. A goroutine sets the
  entry of its own address only; one call has one clock reading and one answer for an address.
\<close>

definition resolveNames :: "(nat \<Rightarrow> bool) \<Rightarrow> (string \<Rightarrow> string) \<Rightarrow> int \<Rightarrow> string list \<Rightarrow> name_cache \<Rightarrow> name_cache \<times> string list" where
  "resolveNames early lookup now ips cache =
     (let asked = queries early now cache ips []
      in (fold (\<lambda>ip. setName now ip (lookup ip)) asked cache, asked))"

section \<open>The neighbour view\<close>

record cache_view =
  cv_IP :: string
  cv_MAC :: string
  cv_Name :: string
  cv_Vendor :: string
  cv_State :: string
  cv_Seen :: string

definition onLAN :: "ipnet option \<Rightarrow> string \<Rightarrow> bool" where
  "onLAN lan s =
     (let ip = ParseIP s in
      if ip = [] \<or> IsMulticast ip \<or> IsUnspecified ip \<or> IsLinkLocalUnicast ip then False
      else (case lan of Some n \<Rightarrow> ip_contains n ip | None \<Rightarrow> True))"

record view_env =
  ve_lan :: "ipnet option"
  ve_vendors :: vendor_table
  ve_names :: "string \<Rightarrow> string"

text \<open>
  The first loop, over the live entries: \<open>present\<close> is the set of MACs already shown. It also
  remembers each shown host (\<^verbatim>\<open>touchObserved\<close>).
\<close>

fun cache_present :: "view_env \<Rightarrow> string set \<Rightarrow> int \<Rightarrow> entry list \<Rightarrow> cache_view list \<times> string set \<times> state \<Rightarrow>
    cache_view list \<times> string set \<times> state" where
  "cache_present env trk now [] st = st"
| "cache_present env trk now (e # es) (out, present, s) =
     (if e_MAC e \<in> trk \<or> e_MAC e \<in> present \<or> \<not> onLAN (ve_lan env) (e_IP e)
      then cache_present env trk now es (out, present, s)
      else let name = ve_names env (e_IP e) in
        cache_present env trk now es
          (out @ [\<lparr>cv_IP = e_IP e, cv_MAC = e_MAC e, cv_Name = name, cv_Vendor = oui_lookup (ve_vendors env) (e_MAC e),
                   cv_State = e_State e, cv_Seen = FmtSeen (e_SeenSec e)\<rparr>],
           insert (e_MAC e) present, touchObserved (e_MAC e) (e_IP e) name now s))"

definition observed_view :: "view_env \<Rightarrow> int \<Rightarrow> observed \<Rightarrow> cache_view" where
  "observed_view env now x = \<lparr>cv_IP = ob_IP x, cv_MAC = ob_MAC x,
     cv_Name = (if ob_Name x = [] then ve_names env (ob_IP x) else ob_Name x),
     cv_Vendor = oui_lookup (ve_vendors env) (ob_MAC x), cv_State = ''down'',
     cv_Seen = FmtSeen (now - ob_LastSeen x)\<rparr>"

text \<open>The whole view, with the state after it; \<open>ks\<close> is the iteration order of the observed map.\<close>

definition buildCache :: "view_env \<Rightarrow> string list \<Rightarrow> int \<Rightarrow> entry list \<Rightarrow> state \<Rightarrow> cache_view list \<times> state" where
  "buildCache env ks now entries s =
     (let trk = tracked s;
          (out, present, s1) = cache_present env trk now entries ([], {}, s);
          gone = filter (\<lambda>x. \<not> (ob_MAC x \<in> trk \<or> ob_MAC x \<in> present)) (observedSince ks (now - observedTTL) s1)
      in (out @ map (observed_view env now) gone, s1))"

end
