(* ===== verification/DevicesSpecs.thy ===== *)
theory DevicesSpecs
  imports Devices
begin

text \<open>
  What liveness promises: an echo reply counts only from the probed host, the view's notion of
  "up" is that of the transition log, and no device is shown up once the activity gate has
  closed.
\<close>

section \<open>Probes\<close>

lemma icmp_loop_up: "icmp_loop parse dst rs = (True, rtt) \<longleftrightarrow>
  (\<exists>pre peer b post. rs = pre @ (peer, b, rtt) # post \<and> sameHost peer dst \<and> parse b = Some True \<and>
     (\<forall>(p, c, t) \<in> set pre. sameHost p dst \<longrightarrow> parse c = Some False))"
proof (induction rs)
  case (Cons r rs)
  obtain peer b t where r: "r = (peer, b, t)" by (cases r)
  have "icmp_loop parse dst ((peer, b, t) # rs) = (True, rtt) \<longleftrightarrow>
    (\<exists>pre p2 b2 post. (peer, b, t) # rs = pre @ (p2, b2, rtt) # post \<and> sameHost p2 dst \<and> parse b2 = Some True \<and>
     (\<forall>(p, c, t) \<in> set pre. sameHost p dst \<longrightarrow> parse c = Some False))" (is "?l = ?r")
  proof
    assume ?l
    then consider "\<not> sameHost peer dst \<or> parse b = Some False" "icmp_loop parse dst rs = (True, rtt)"
      | "sameHost peer dst" "parse b = Some True" "t = rtt"
      by (auto split: if_splits option.splits bool.splits)
    then show ?r
    proof cases
      case 1
      then have "\<exists>pre peer b post. rs = pre @ (peer, b, rtt) # post \<and> sameHost peer dst \<and> parse b = Some True \<and>
          (\<forall>(p, c, t) \<in> set pre. sameHost p dst \<longrightarrow> parse c = Some False)"
        using Cons.IH by simp
      then obtain pre p2 b2 post where "rs = pre @ (p2, b2, rtt) # post" "sameHost p2 dst" "parse b2 = Some True"
        "\<forall>(p, c, t) \<in> set pre. sameHost p dst \<longrightarrow> parse c = Some False" by blast
      then show ?r using 1(1) by (intro exI [of _ "(peer, b, t) # pre"] exI [of _ p2] exI [of _ b2] exI [of _ post]) auto
    next
      case 3: 2
      then show ?r by (intro exI [of _ "[]"]) auto
    qed
  next
    assume ?r
    then obtain pre p2 b2 post where s: "(peer, b, t) # rs = pre @ (p2, b2, rtt) # post" "sameHost p2 dst"
      "parse b2 = Some True" "\<forall>(p, c, t) \<in> set pre. sameHost p dst \<longrightarrow> parse c = Some False" by blast
    show ?l
    proof (cases pre)
      case Nil
      with s show ?thesis by auto
    next
      case q0: (Cons q pre')
      with s have q: "q = (peer, b, t)" "rs = pre' @ (p2, b2, rtt) # post"
        "sameHost peer dst \<longrightarrow> parse b = Some False" "\<forall>(p, c, t) \<in> set pre'. sameHost p dst \<longrightarrow> parse c = Some False"
        by auto
      then have "\<exists>pre peer b post. rs = pre @ (peer, b, rtt) # post \<and> sameHost peer dst \<and> parse b = Some True \<and>
          (\<forall>(p, c, t) \<in> set pre. sameHost p dst \<longrightarrow> parse c = Some False)" using s(2,3) by blast
      with Cons.IH q(3) show ?thesis by auto
    qed
  qed
  then show ?case by (simp only: r)
qed simp

text \<open>
  An ICMP probe is up exactly when the probed host answered. It reports up, with the elapsed
  time of that datagram, if and only if the address is IPv4, a socket opens, the request is
  written, and before the deadline an echo reply arrives from that very host, every earlier
  datagram from it being a well-formed message of another type; datagrams of other hosts never
  count and never end the wait.
\<close>

theorem icmp_up_iff_host_answered:
  "server_probeICMP parse env ip = \<lparr>ic_St = ''up'', ic_RTT = rtt\<rparr> \<longleftrightarrow>
     To4 (ParseIP ip) \<noteq> [] \<and> (n_udp4 env \<or> n_raw env) \<and> n_write env (ParseIP ip) \<and>
     (\<exists>pre peer b post. n_arrivals env (ParseIP ip) = pre @ (Some peer, b, rtt) # post \<and>
        ip_equal peer (ParseIP ip) \<and> parse b = Some True \<and>
        (\<forall>(p, c, t) \<in> set pre. sameHost p (ParseIP ip) \<longrightarrow> parse c = Some False))"
proof -
  have 1: "server_probeICMP parse env ip = \<lparr>ic_St = ''up'', ic_RTT = rtt\<rparr> \<longleftrightarrow> probe_ICMP parse env ip = (True, rtt)"
    by (auto simp: server_probeICMP_def split: prod.splits)
  have 2: "ParseIP ip = [] \<Longrightarrow> To4 (ParseIP ip) = []" by (simp add: To4_def)
  have 3: "sameHost peer dst \<longleftrightarrow> (\<exists>a. peer = Some a \<and> ip_equal a dst)" for peer dst
    by (auto simp: sameHost_def split: option.splits)
  show ?thesis
    unfolding 1 using 2 by (auto simp: probe_ICMP_def Let_def icmp_loop_up) (auto simp: 3)
qed

lemma icmp_up_iff_host_answered_witness:
  "server_probeICMP (\<lambda>b. if b = [] then None else Some (b = [0])) \<lparr>n_dial = \<lambda>_ _. None, n_udp4 = False, n_raw = True,
     n_write = \<lambda>_. True, n_arrivals = \<lambda>_. [(Some [10, 0, 0, 9], [], 1), (Some [10, 0, 0, 2], [0], 3)]\<rparr> ''10.0.0.2'' =
   \<lparr>ic_St = ''up'', ic_RTT = 3\<rparr>"
proof -
  have a: "ParseIP ''10.0.0.2'' = v4InV6Prefix @ [10, 0, 0, 2]" by code_simp
  have b: "To4 (v4InV6Prefix @ [10, 0, 0, 2]) = [10, 0, 0, 2]" "ip_equal [10, 0, 0, 2] (v4InV6Prefix @ [10, 0, 0, 2])"
    "\<not> ip_equal [10, 0, 0, 9] (v4InV6Prefix @ [10, 0, 0, 2])" by code_simp+
  have "\<exists>pre peer b post. [(Some [10, 0, 0, 9], [], 1), (Some [10, 0, 0, 2], [0], 3)] = pre @ (Some peer, b, 3 :: int) # post \<and>
      ip_equal peer (v4InV6Prefix @ [10, 0, 0, 2]) \<and> (if b = [] then None else Some (b = [0])) = Some True \<and>
      (\<forall>(p, c, t) \<in> set pre. sameHost p (v4InV6Prefix @ [10, 0, 0, 2]) \<longrightarrow> (if c = [] then None else Some (c = [0])) = Some False)"
    by (rule exI [of _ "[(Some [10, 0, 0, 9], [], 1)]"], rule exI [of _ "[10, 0, 0, 2]"], rule exI [of _ "[0]"], rule exI [of _ "[]"])
      (use b in \<open>auto simp: sameHost_def\<close>)
  then show ?thesis unfolding icmp_up_iff_host_answered a using b(1) by simp
qed

section \<open>Up in the view and in the log\<close>

lemma any_up_ex: "any_up ps \<longleftrightarrow> (\<exists>p \<in> set ps. pv_St p = ''up'')"
  by (induction ps) auto

lemma liveUp_signal_verdict: "liveUp (lp_icmp part) (lp_probes part) = (verdict part = ''up'')"
  by (auto simp: liveUp_def part_signal_def verdict_def any_up_ex split: option.splits)

text \<open>
  The view and the transition log agree on what up means. The predicate the device table and
  the wake dialog use (an ICMP reply or any open watchdog) holds exactly when the state's
  fold of the same results finds a signal, and then the verdict it logs is up.
\<close>

theorem liveUp_is_the_logged_verdict:
  "liveUp (lp_icmp part) (lp_probes part) = (part_signal part \<noteq> []) \<and>
   liveUp (lp_icmp part) (lp_probes part) = (verdict part = ''up'')"
  by (auto simp: liveUp_def part_signal_def verdict_def any_up_ex split: option.splits)

section \<open>The closed gate\<close>

lemma quiet_drain: "quiet s \<Longrightarrow> quiet (snd (drain kd ko km s))"
  by (erule quiet_in_place [where g = "\<lambda>mac ds. if mac \<in> set kd then ds\<lparr>ds_dirty := False\<rparr> else ds"])
    (simp_all add: drain_devs)

lemma quiet_restore: "quiet s \<Longrightarrow> quiet (restore b s)"
  by (erule quiet_in_place [where g = "mark_dirty b"]) (simp_all add: restore_devs mark_dirty_def)

lemma quiet_applyNeigh: "quiet s \<Longrightarrow> distinct ks \<Longrightarrow> quiet (applyNeigh ks byMAC now s)"
  by (erule quiet_in_place [where g = "\<lambda>mac. if mac \<in> set ks then neigh_dev byMAC now mac else id"])
    (auto simp: applyNeigh_devs neigh_dev_def option.map_id split: option.splits)

lemma quiet_load: "quiet s \<Longrightarrow> wf_devices devs \<Longrightarrow> quiet (load_merge devs s)"
  by (auto simp: quiet_def load_merge_devs load_dev_def seed_dev_def keep_dev_def split: option.splits)

lemma quiet_clear: "quiet (clearLive s)"
  by (auto simp: quiet_def clearLive_def)

lemma gate_inv_init: "gate_init y \<Longrightarrow> gate_inv y"
  by (simp add: gate_init_def gate_inv_def quiet_def newState_def)

lemma gate_inv_step:
  assumes "gate_inv y" and "gate_step y y'"
  shows "gate_inv y'"
  using assms(2)
proof (rule gate_stepE)
  fix a
  assume y': "y' = gate_perform a y" and en: "gate_enabled a y"
  show "gate_inv y'"
    using assms(1) en unfolding y'
    by (cases a) (auto simp: gate_inv_def enumerates_def quiet_clear quiet_drain quiet_restore quiet_applyNeigh quiet_load
        intro: quiet_same split: option.splits)
qed

interpretation gate: action_machine gate_init gate_step gate_inv gate_enabled gate_perform
  by unfold_locales (rule gate_inv_init gate_inv_step gate_step.intros, assumption+)+

lemma device_base_fields:
  "dv_MAC (device_base table ds) = d_MAC (ds_dev ds)"
  "dv_Icmp (device_base table ds) = lp_icmp (ds_live ds)"
  "dv_Probes (device_base table ds) = (if lp_probes (ds_live ds) = []
     then map (\<lambda>p. \<lparr>pv_Port = p, pv_St = ''down'', pv_RTT = 0, pv_Note = []\<rparr>) (d_Probes (ds_dev ds)) else lp_probes (ds_live ds))"
  by (simp_all add: device_base_def Let_def)

lemma build_device_fields:
  "dv_MAC (build_device table now ds) = dv_MAC (device_base table ds)"
  "dv_Icmp (build_device table now ds) = dv_Icmp (device_base table ds)"
  "dv_Probes (build_device table now ds) = dv_Probes (device_base table ds)"
  "dv_Seen (build_device table now ds) = fst (seenState ds (device_base table ds) now)"
  "dv_SeenL2 (build_device table now ds) = fst (snd (seenState ds (device_base table ds) now))"
  "dv_UnseenSec (build_device table now ds) = snd (snd (seenState ds (device_base table ds) now))"
  by (simp_all add: build_device_def Let_def split: prod.splits)

lemma device_base_up: "deviceUp (device_base table ds) = liveUp (lp_icmp (ds_live ds)) (lp_probes (ds_live ds))"
  by (auto simp: deviceUp_def device_base_fields liveUp_def any_up_ex)

lemma build_device_up: "deviceUp (build_device table now ds) = liveUp (lp_icmp (ds_live ds)) (lp_probes (ds_live ds))"
  by (simp add: deviceUp_def build_device_fields flip: device_base_up [of table])

lemma gate_inv_quiet:
  assumes "gate_inv y" and "\<not> t_probed y" and "v \<in> set (buildDevices table now (t_mem y))"
  shows "\<not> deviceUp v \<and> dv_Icmp v = None \<and> list_all (\<lambda>p. pv_St p = ''down'') (dv_Probes v)"
proof -
  have q: "quiet (t_mem y)" using assms(1,2) by (simp add: gate_inv_def)
  from assms(3) obtain ds m where v: "v = build_device table now ds" "s_devs (t_mem y) m = Some ds"
    by (auto simp: buildDevices_def snapshot_def set_map_filter_iff)
  with q have "ds_live ds = no_live" by (simp add: quiet_def)
  then show ?thesis
    by (simp add: v(1) build_device_up build_device_fields device_base_fields no_live_def liveUp_def list_all_iff)
qed

fun opens :: "gate_act \<Rightarrow> bool" where
  "opens (T_open parse env) = True"
| "opens a = False"

lemma probed_after: "\<not> opens a \<Longrightarrow> \<not> t_probed y \<Longrightarrow> \<not> t_probed (gate_perform a y)"
  by (cases a) (auto split: option.splits)

lemma not_probed_run:
  "run_actions gate_enabled gate_perform as y = Some y' \<Longrightarrow> \<forall>a \<in> set as. \<not> opens a \<Longrightarrow> \<not> t_probed y \<Longrightarrow> \<not> t_probed y'"
  by (induction as arbitrary: y) (auto split: if_splits dest: probed_after)

text \<open>
  C10. A closed gate shows nobody up. On every run of the probe loop and of everything that runs
  beside it, after a tick that found the gate closed and until a tick finds it open, however the
  gate and the results were before, no cycle is under way and no row of the device table is up: no
  ICMP result, every watchdog down; and no device keeps a verdict from before the gap, so the next
  cycle logs no transition against one.
\<close>

theorem closed_gate_shows_nobody_up:
  assumes "gate_init y0" and "run_actions gate_enabled gate_perform (as @ T_closed # bs) y0 = Some y"
    and "\<forall>a \<in> set bs. \<not> opens a" and "v \<in> set (buildDevices table now (t_mem y))"
  shows "\<not> deviceUp v \<and> dv_Icmp v = None \<and> list_all (\<lambda>p. pv_St p = ''down'') (dv_Probes v) \<and>
    t_cycle y = None \<and> map_option ds_status (s_devs (t_mem y) mac) \<in> {None, Some []}"
proof -
  obtain y1 where y1: "run_actions gate_enabled gate_perform as y0 = Some y1"
    "run_actions gate_enabled gate_perform bs (gate_perform T_closed y1) = Some y"
    using assms(2) by (auto simp: run_actions_append bind_eq_Some_conv split: if_splits)
  have "\<not> t_probed (gate_perform T_closed y1)" by simp
  then have np: "\<not> t_probed y" using not_probed_run [OF y1(2) assms(3)] by blast
  have "gate_inv y" using gate.run_inv [OF gate_inv_init [OF assms(1)] assms(2)] .
  with np have c: "t_cycle y = None" "quiet (t_mem y)" "gate_inv y" by (simp_all add: gate_inv_def)
  then have "map_option ds_status (s_devs (t_mem y) mac) \<in> {None, Some []}"
    by (cases "s_devs (t_mem y) mac") (auto simp: quiet_def)
  with gate_inv_quiet [OF c(3) np assms(4)] c(1) show ?thesis by simp
qed

text \<open>
  A device is loaded, a cycle finds it up and is folded in, and the gate closes: its row was up
  before the closed tick and is not after it.
\<close>

definition demo_mac :: string where
  "demo_mac = ''00:11:22:33:44:55''"

definition answering :: net_env where
  "answering = \<lparr>n_dial = \<lambda>_ _. Some 1, n_udp4 = True, n_raw = False, n_write = \<lambda>_. True,
     n_arrivals = \<lambda>ip. [(Some ip, [], 2)]\<rparr>"

definition demo_cycle :: "gate_act list" where
  "demo_cycle = [M_load [demo_device demo_mac], T_open (\<lambda>_. Some True) answering, T_apply [demo_mac] 100]"

definition closed_run :: "gate_act list \<Rightarrow> gate_sys option" where
  "closed_run bs = run_actions gate_enabled gate_perform (demo_cycle @ bs) \<lparr>t_mem = newState, t_probed = False, t_cycle = None\<rparr>"

definition demo_part :: live_part where
  "demo_part = \<lparr>lp_icmp = Some \<lparr>ic_St = ''up'', ic_RTT = 2\<rparr>, lp_probes = [\<lparr>pv_Port = 22, pv_St = ''up'', pv_RTT = 1, pv_Note = []\<rparr>]\<rparr>"

lemma demo_probed: "probe_results (\<lambda>_. Some True) answering (snapshot (demo_state demo_mac)) = [demo_mac \<mapsto> demo_part]"
proof -
  have "server_probeICMP (\<lambda>_. Some True) answering ''10.0.0.2'' = \<lparr>ic_St = ''up'', ic_RTT = 2\<rparr>"
    "server_probeOne answering ''10.0.0.2'' 22 = \<lparr>pv_Port = 22, pv_St = ''up'', pv_RTT = 1, pv_Note = []\<rparr>" by code_simp+
  then show ?thesis
    by (simp add: probe_results_def snapshot_def demo_simps map_filter_simps probe_part_def demo_part_def)
qed

lemma closed_run_demo: "closed_run bs = run_actions gate_enabled gate_perform bs
    \<lparr>t_mem = applyProbes [demo_mac] [demo_mac \<mapsto> demo_part] 100 (demo_state demo_mac), t_probed = True, t_cycle = None\<rparr>"
proof -
  have "NormMAC demo_mac = demo_mac" by code_simp
  then have "wf_devices [demo_device demo_mac]" by (simp add: wf_devices_def demo_device_def)
  moreover have "load_merge [demo_device demo_mac] newState = demo_state demo_mac" by (simp add: demo_state_def)
  ultimately show ?thesis
    by (simp add: closed_run_def demo_cycle_def demo_probed enumerates_def)
qed

lemma demo_applied:
  obtains ds where "s_devs (applyProbes [demo_mac] [demo_mac \<mapsto> demo_part] 100 (demo_state demo_mac)) = [demo_mac \<mapsto> ds]"
    "s_order (applyProbes [demo_mac] [demo_mac \<mapsto> demo_part] 100 (demo_state demo_mac)) = [demo_mac]" "ds_live ds = demo_part"
proof -
  obtain ds evs where p: "probe_dev demo_mac demo_part 100 (seed_dev (demo_device demo_mac)) = (ds, evs)"
    by (cases "probe_dev demo_mac demo_part 100 (seed_dev (demo_device demo_mac))")
  then have "ds_live ds = demo_part" by (auto simp: probe_dev_def Let_def)
  moreover have "s_devs (demo_state demo_mac) = [demo_mac \<mapsto> seed_dev (demo_device demo_mac)]" "s_order (demo_state demo_mac) = [demo_mac]"
    by (simp_all add: demo_simps)
  ultimately show thesis using p by (intro that [of ds]) (simp_all add: applyProbes_def probe_step_def)
qed

lemma closed_gate_shows_nobody_up_witness:
  "\<exists>y y'. closed_run [] = Some y \<and> (\<exists>v \<in> set (buildDevices Map.empty 200 (t_mem y)). deviceUp v) \<and>
     closed_run [T_closed] = Some y' \<and> length (buildDevices Map.empty 200 (t_mem y')) = 1 \<and>
     (\<forall>v \<in> set (buildDevices Map.empty 200 (t_mem y')). \<not> deviceUp v)"
proof -
  obtain y where y: "closed_run [] = Some y" by (simp add: closed_run_demo)
  obtain y' where y': "closed_run [T_closed] = Some y'" by (simp add: closed_run_demo)
  obtain ds where ds: "s_devs (t_mem y) = [demo_mac \<mapsto> ds]" "s_order (t_mem y) = [demo_mac]" "ds_live ds = demo_part"
    using y by (auto simp: closed_run_demo intro: demo_applied)
  then have "\<exists>v \<in> set (buildDevices Map.empty 200 (t_mem y)). deviceUp v"
    by (simp add: buildDevices_def snapshot_def map_filter_simps build_device_up demo_part_def liveUp_def)
  moreover have "t_mem y' = clearLive (t_mem y)" using y y' by (auto simp: closed_run_demo)
  then have "length (buildDevices Map.empty 200 (t_mem y')) = 1"
    using ds by (simp add: buildDevices_def snapshot_def map_filter_simps clearLive_def)
  moreover have "\<not> deviceUp v" if "v \<in> set (buildDevices Map.empty 200 (t_mem y'))" for v
    using closed_gate_shows_nobody_up [of "\<lparr>t_mem = newState, t_probed = False, t_cycle = None\<rparr>" demo_cycle "[]" y' v Map.empty 200] y' that
    by (simp add: closed_run_def gate_init_def)
  ultimately show ?thesis using y y' by blast
qed

end
