(* ===== verification/ViewSpecs.thy ===== *)
theory ViewSpecs
  imports DevicesSpecs
begin

text \<open>
  The neighbour views: the index of the kernel's entries by MAC keeps the freshest record, and
  the table of untracked hosts shows every host of the LAN that is present or was seen within
  the last week, once, and no tracked one. Also the SEEN column over a run of probe cycles and
  the name cache.
\<close>

section \<open>The index by MAC\<close>

text \<open>
  The index keeps the freshest record. A MAC is in the neighbour index exactly when an entry
  has it, and the record kept is the first one, in kernel order, of the best state among the
  entries with that MAC (up before stale before down before anything else).
\<close>

theorem neighSnapshot_keeps_freshest:
  "case fst (neighSnapshot (Some es)) m of
     None \<Rightarrow> \<forall>e \<in> set es. e_MAC e \<noteq> m
   | Some e \<Rightarrow> \<exists>pre post. es = pre @ e # post \<and> e_MAC e = m \<and>
       (\<forall>d \<in> set pre. e_MAC d = m \<longrightarrow> stateRank (e_State d) < stateRank (e_State e)) \<and>
       (\<forall>d \<in> set post. e_MAC d = m \<longrightarrow> stateRank (e_State d) \<le> stateRank (e_State e))"
proof (induction es rule: rev_induct)
  case Nil
  then show ?case by (simp add: neighSnapshot_def)
next
  case (snoc x es)
  let ?M = "fold index_step es Map.empty"
  have f: "fst (neighSnapshot (Some (es @ [x]))) m = index_step x ?M m" "fst (neighSnapshot (Some es)) m = ?M m"
    by (simp_all add: neighSnapshot_def)
  show ?case
  proof (cases "?M m")
    case None
    with snoc f(2) have "\<forall>e \<in> set es. e_MAC e \<noteq> m" by simp
    moreover from None have "index_step x ?M m = (if e_MAC x = m then Some x else None)"
      by (auto simp: index_step_def split: option.splits)
    ultimately show ?thesis unfolding f(1)
      by (cases "e_MAC x = m") (simp, rule exI [of _ es], simp, simp)
  next
    case (Some p)
    with snoc f(2) obtain pre post where p: "es = pre @ p # post" "e_MAC p = m"
      "\<forall>d \<in> set pre. e_MAC d = m \<longrightarrow> stateRank (e_State d) < stateRank (e_State p)"
      "\<forall>d \<in> set post. e_MAC d = m \<longrightarrow> stateRank (e_State d) \<le> stateRank (e_State p)" by auto
    show ?thesis
    proof (cases "e_MAC x = m \<and> better x p")
      case True
      then have "index_step x ?M m = Some x" using Some by (simp add: index_step_def)
      moreover have "\<forall>d \<in> set es. e_MAC d = m \<longrightarrow> stateRank (e_State d) < stateRank (e_State x)"
        using True p by (fastforce simp: better_def)
      ultimately show ?thesis unfolding f(1) using True by simp (rule exI [of _ es], simp)
    next
      case False
      then have "index_step x ?M m = Some p" using Some by (auto simp: index_step_def split: option.splits)
      moreover have "e_MAC x = m \<longrightarrow> stateRank (e_State x) \<le> stateRank (e_State p)"
        using False by (auto simp: better_def)
      ultimately show ?thesis unfolding f(1) using p
        by simp (rule exI [of _ pre], rule exI [of _ "post @ [x]"], auto)
    qed
  qed
qed

lemma neighSnapshot_keeps_freshest_witness:
  "fst (neighSnapshot (Some [\<lparr>e_IP = ''10.0.0.2'', e_MAC = ''m'', e_State = ''stale'', e_SeenSec = 4\<rparr>])) ''m'' \<noteq> None"
  using neighSnapshot_keeps_freshest [of "[\<lparr>e_IP = ''10.0.0.2'', e_MAC = ''m'', e_State = ''stale'', e_SeenSec = 4\<rparr>]" "''m''"]
  by (auto split: option.splits)

section \<open>The table of untracked hosts\<close>

definition shown :: "view_env \<Rightarrow> string set \<Rightarrow> entry list \<Rightarrow> string set" where
  "shown env trk es = {e_MAC e |e. e \<in> set es \<and> onLAN (ve_lan env) (e_IP e)} - trk"

lemma shown_Cons: "shown env trk (e # es) =
  (if onLAN (ve_lan env) (e_IP e) \<and> e_MAC e \<notin> trk then insert (e_MAC e) (shown env trk es) else shown env trk es)"
  by (auto simp: shown_def)

definition live_row :: "view_env \<Rightarrow> entry list \<Rightarrow> cache_view \<Rightarrow> bool" where
  "live_row env es r \<longleftrightarrow> (\<exists>e \<in> set es. onLAN (ve_lan env) (e_IP e) \<and> cv_MAC r = e_MAC e \<and> cv_IP r = e_IP e \<and> cv_State r = e_State e)"

lemma cache_present_spec:
  assumes "cache_present env trk now es (out, pr, s) = (out', pr', s')"
  shows "pr' = pr \<union> shown env trk es \<and>
    (\<exists>new. out' = out @ new \<and> distinct (map cv_MAC new) \<and> cv_MAC ` set new = shown env trk es - pr \<and>
       (\<forall>r \<in> set new. live_row env es r)) \<and>
    s_devs s' = s_devs s \<and>
    (\<forall>m. m \<notin> shown env trk es - pr \<longrightarrow> s_obs s' m = s_obs s m) \<and>
    (\<forall>m \<in> shown env trk es - pr. \<exists>x. s_obs s' m = Some x \<and> ob_MAC x = m \<and> ob_LastSeen x = now)"
  using assms
proof (induction es arbitrary: out pr s)
  case Nil
  then show ?case by (auto simp: shown_def)
next
  case (Cons e es)
  show ?case
  proof (cases "e_MAC e \<in> trk \<or> e_MAC e \<in> pr \<or> \<not> onLAN (ve_lan env) (e_IP e)")
    case True
    then have "cache_present env trk now es (out, pr, s) = (out', pr', s')" using Cons.prems by simp
    note IH = Cons.IH [OF this]
    have sh: "shown env trk (e # es) - pr = shown env trk es - pr" "pr \<union> shown env trk (e # es) = pr \<union> shown env trk es"
      using True by (auto simp: shown_Cons)
    show ?thesis unfolding sh using IH by (auto simp: live_row_def)
  next
    case False
    define row where "row = \<lparr>cv_IP = e_IP e, cv_MAC = e_MAC e, cv_Name = ve_names env (e_IP e),
      cv_Vendor = oui_lookup (ve_vendors env) (e_MAC e), cv_State = e_State e, cv_Seen = FmtSeen (e_SeenSec e)\<rparr>"
    define s1 where "s1 = touchObserved (e_MAC e) (e_IP e) (ve_names env (e_IP e)) now s"
    have "cache_present env trk now es (out @ [row], insert (e_MAC e) pr, s1) = (out', pr', s')"
      using Cons.prems False by (simp add: Let_def row_def s1_def)
    note IH = Cons.IH [OF this]
    have sh: "shown env trk (e # es) - pr = insert (e_MAC e) (shown env trk es - insert (e_MAC e) pr)"
      "pr \<union> shown env trk (e # es) = insert (e_MAC e) pr \<union> shown env trk es"
      using False by (auto simp: shown_Cons)
    have obs1: "m \<noteq> e_MAC e \<Longrightarrow> s_obs s1 m = s_obs s m" for m
      by (simp add: s1_def touchObserved_def Let_def)
    have obs2: "\<exists>x. s_obs s1 (e_MAC e) = Some x \<and> ob_MAC x = e_MAC e \<and> ob_LastSeen x = now"
      by (simp add: s1_def touchObserved_def Let_def)
    have dv: "s_devs s1 = s_devs s" by (simp add: s1_def)
    from IH obtain new where new: "out' = out @ row # new" "distinct (map cv_MAC new)"
      "cv_MAC ` set new = shown env trk es - insert (e_MAC e) pr" "\<forall>r \<in> set new. live_row env es r" by auto
    have row: "cv_MAC row = e_MAC e" "live_row env (e # es) row" using False by (auto simp: row_def live_row_def)
    have rows: "\<exists>new. out' = out @ new \<and> distinct (map cv_MAC new) \<and>
        cv_MAC ` set new = insert (e_MAC e) (shown env trk es - insert (e_MAC e) pr) \<and> (\<forall>r \<in> set new. live_row env (e # es) r)"
      using new row by (intro exI [of _ "row # new"]) (auto simp: live_row_def)
    have ob: "m \<notin> shown env trk es - insert (e_MAC e) pr \<Longrightarrow> s_obs s' m = s_obs s1 m" for m
      using IH by blast
    have obs: "\<forall>m. m \<notin> insert (e_MAC e) (shown env trk es - insert (e_MAC e) pr) \<longrightarrow> s_obs s' m = s_obs s m"
      using ob obs1 by auto
    have "s_obs s' (e_MAC e) = s_obs s1 (e_MAC e)" using ob [of "e_MAC e"] by simp
    with IH obs2 have tch: "\<forall>m \<in> insert (e_MAC e) (shown env trk es - insert (e_MAC e) pr).
        \<exists>x. s_obs s' m = Some x \<and> ob_MAC x = m \<and> ob_LastSeen x = now" by auto
    have "pr' = insert (e_MAC e) pr \<union> shown env trk es" "s_devs s' = s_devs s" using IH dv by auto
    then show ?thesis unfolding sh by (intro conjI rows obs tch)
  qed
qed

lemma observedSince_rows:
  assumes wf: "wf_state s" and ks: "enumerates ks (dom (s_obs s))"
  shows "distinct (map ob_MAC (observedSince ks t s))"
    and "x \<in> set (observedSince ks t s) \<longleftrightarrow> s_obs s (ob_MAC x) = Some x \<and> t \<le> ob_LastSeen x"
proof -
  have key: "s_obs s k = Some x \<Longrightarrow> ob_MAC x = k" for k x using wf by (simp add: wf_state_def)
  have "distinct (map ob_MAC (List.map_filter (s_obs s) ks))"
  proof -
    have "map ob_MAC (List.map_filter (s_obs s) ks) = filter (\<lambda>k. s_obs s k \<noteq> None) ks"
      using key by (induction ks) (auto simp: map_filter_simps split: option.splits)
    then show ?thesis using ks by (simp add: enumerates_def)
  qed
  then have "distinct (map ob_MAC (filter (\<lambda>x. ob_LastSeen x \<ge> t) (List.map_filter (s_obs s) ks)))"
    by (rule distinct_map_filter)
  moreover have "mset (map ob_MAC (observedSince ks t s)) = mset (map ob_MAC (filter (\<lambda>x. ob_LastSeen x \<ge> t) (List.map_filter (s_obs s) ks)))"
    by (simp add: observedSince_def mset_map [symmetric] del: mset_map) (simp add: mset_map)
  ultimately show "distinct (map ob_MAC (observedSince ks t s))" by (metis mset_eq_imp_distinct_iff)
  show "x \<in> set (observedSince ks t s) \<longleftrightarrow> s_obs s (ob_MAC x) = Some x \<and> t \<le> ob_LastSeen x"
    using ks key by (auto simp: observedSince_def set_map_filter_iff enumerates_def dom_def)
qed

lemma wf_cache_present: "wf_state s \<Longrightarrow> wf_state (snd (snd (cache_present env trk t es (o1, p1, s))))"
  by (induction es arbitrary: o1 p1 s) (auto simp: Let_def wf_touchObserved)

text \<open>The remembered hosts that get a row of their own: \<open>sh\<close> are those the live entries showed.\<close>

lemma gone_macs:
  assumes "wf_state s1" and "enumerates ks (dom (s_obs s1))" and "\<And>m. m \<notin> sh \<Longrightarrow> s_obs s1 m = s_obs s m"
  shows "ob_MAC ` set (filter (\<lambda>x. \<not> (ob_MAC x \<in> trk \<or> ob_MAC x \<in> sh)) (observedSince ks t s1)) =
    {m. \<exists>x. s_obs s m = Some x \<and> t \<le> ob_LastSeen x} - trk - sh"
proof (intro equalityI subsetI)
  note obs = observedSince_rows(2) [OF assms(1,2), where t = t]
  fix m
  assume "m \<in> ob_MAC ` set (filter (\<lambda>x. \<not> (ob_MAC x \<in> trk \<or> ob_MAC x \<in> sh)) (observedSince ks t s1))"
  then obtain x where "s_obs s1 m = Some x" "t \<le> ob_LastSeen x" "m \<notin> trk" "m \<notin> sh" using obs by auto
  then show "m \<in> {m. \<exists>x. s_obs s m = Some x \<and> t \<le> ob_LastSeen x} - trk - sh" using assms(3) by simp
next
  note obs = observedSince_rows(2) [OF assms(1,2), where t = t]
  fix m
  assume m: "m \<in> {m. \<exists>x. s_obs s m = Some x \<and> t \<le> ob_LastSeen x} - trk - sh"
  then obtain x where x: "s_obs s1 m = Some x" "t \<le> ob_LastSeen x" using assms(3) by auto
  moreover have "ob_MAC x = m" using x(1) assms(1) by (simp add: wf_state_def)
  ultimately show "m \<in> ob_MAC ` set (filter (\<lambda>x. \<not> (ob_MAC x \<in> trk \<or> ob_MAC x \<in> sh)) (observedSince ks t s1))"
    using m obs [of x] by force
qed

text \<open>
  C12. The neighbour view is complete and has no duplicates. It shows one row per MAC, and exactly
  the untracked hosts that either have a live entry on the LAN or were seen within the last
  week; every row of a present host is one of its live entries, every other row is down; the
  shown hosts are remembered as seen now, and the tracked devices are not touched.
\<close>

theorem neighbour_view_exact:
  assumes "wf_state s" and "buildCache env ks now entries s = (rows, s')" and "enumerates ks (dom (s_obs s'))"
  shows "distinct (map cv_MAC rows) \<and>
    cv_MAC ` set rows = ({e_MAC e |e. e \<in> set entries \<and> onLAN (ve_lan env) (e_IP e)} \<union>
      {m. \<exists>x. s_obs s m = Some x \<and> now - 604800 \<le> ob_LastSeen x}) - tracked s \<and>
    (\<forall>r \<in> set rows. if cv_MAC r \<in> e_MAC ` {e \<in> set entries. onLAN (ve_lan env) (e_IP e)} then live_row env entries r
       else cv_State r = ''down'') \<and>
    s_devs s' = s_devs s \<and>
    (\<forall>r \<in> set rows. live_row env entries r \<longrightarrow> map_option ob_LastSeen (s_obs s' (cv_MAC r)) = Some now)"
proof -
  let ?trk = "tracked s"
  let ?sh = "shown env ?trk entries"
  obtain out pr s1 where cp: "cache_present env ?trk now entries ([], {}, s) = (out, pr, s1)" by (metis prod_cases3)
  let ?gone = "filter (\<lambda>x. \<not> (ob_MAC x \<in> ?trk \<or> ob_MAC x \<in> pr)) (observedSince ks (now - observedTTL) s1)"
  have rows: "rows = out @ map (observed_view env now) ?gone" and s': "s' = s1"
    using assms(2) by (auto simp: buildCache_def Let_def cp)
  from cache_present_spec [OF cp]
  have pr: "pr = ?sh" and out: "distinct (map cv_MAC out)" "cv_MAC ` set out = ?sh" "\<forall>r \<in> set out. live_row env entries r"
    and dv: "s_devs s1 = s_devs s" and keep: "\<And>m. m \<notin> ?sh \<Longrightarrow> s_obs s1 m = s_obs s m"
    and tch: "\<And>m. m \<in> ?sh \<Longrightarrow> \<exists>x. s_obs s1 m = Some x \<and> ob_MAC x = m \<and> ob_LastSeen x = now" by auto
  have wf: "wf_state s1" using wf_cache_present [OF assms(1), of env ?trk now entries "[]" "{}"] by (simp add: cp)
  note obs = observedSince_rows [OF wf assms(3) [unfolded s'], where t = "now - observedTTL"]
  have cv: "cv_MAC (observed_view env now x) = ob_MAC x" "cv_State (observed_view env now x) = ''down''" for x
    by (simp_all add: observed_view_def)
  have macs: "map cv_MAC rows = map cv_MAC out @ map ob_MAC ?gone" by (simp add: rows cv comp_def)
  have gone: "ob_MAC ` set ?gone = {m. \<exists>x. s_obs s m = Some x \<and> now - 604800 \<le> ob_LastSeen x} - ?trk - ?sh"
    using gone_macs [OF wf assms(3) [unfolded s'] keep, where t = "now - observedTTL"] by (simp add: pr observedTTL_def)
  have d: "distinct (map cv_MAC rows)"
  proof -
    have "cv_MAC ` set out \<inter> ob_MAC ` set ?gone = {}" unfolding out(2) gone by blast
    moreover have "distinct (map ob_MAC ?gone)" by (rule distinct_map_filter [OF obs(1)])
    ultimately show ?thesis unfolding macs using out(1) by (simp only: distinct_append set_map simp_thms)
  qed
  have set: "cv_MAC ` set rows = ({e_MAC e |e. e \<in> set entries \<and> onLAN (ve_lan env) (e_IP e)} \<union>
      {m. \<exists>x. s_obs s m = Some x \<and> now - 604800 \<le> ob_LastSeen x}) - ?trk"
  proof -
    have "cv_MAC ` set rows = cv_MAC ` set out \<union> ob_MAC ` set ?gone" by (metis macs set_append set_map)
    then show ?thesis unfolding out(2) gone by (auto simp: shown_def)
  qed
  have row: "r \<in> set out \<or> (cv_State r = ''down'' \<and> cv_MAC r \<in> ob_MAC ` set ?gone)" if "r \<in> set rows" for r
    using that unfolding rows by (auto simp: cv)
  have src: "e_MAC ` {e \<in> set entries. onLAN (ve_lan env) (e_IP e)} - ?trk = ?sh" by (auto simp: shown_def)
  have kind: "if cv_MAC r \<in> e_MAC ` {e \<in> set entries. onLAN (ve_lan env) (e_IP e)} then live_row env entries r
      else cv_State r = ''down''" if r: "r \<in> set rows" for r
    using row [OF r] out(2,3) gone src by (auto simp: live_row_def)
  have seen: "map_option ob_LastSeen (s_obs s1 (cv_MAC r)) = Some now" if r: "r \<in> set rows" "live_row env entries r" for r
  proof -
    from r(2) have "cv_MAC r \<in> e_MAC ` {e \<in> set entries. onLAN (ve_lan env) (e_IP e)}" by (auto simp: live_row_def)
    moreover have "cv_MAC r \<notin> ?trk" using r(1) set by blast
    ultimately have "cv_MAC r \<in> ?sh" using src by blast
    from tch [OF this] show ?thesis by auto
  qed
  show ?thesis using d set kind seen dv s' by blast
qed

definition demo_view :: view_env where
  "demo_view = \<lparr>ve_lan = None, ve_vendors = Map.empty, ve_names = \<lambda>_. []\<rparr>"

definition demo_seen :: state where
  "demo_seen = touchObserved ''b'' ''10.0.0.3'' [] 100 newState"

lemma neighbour_view_exact_witness:
  "\<exists>rows s'. buildCache demo_view [''a'', ''b''] 200 [\<lparr>e_IP = ''10.0.0.2'', e_MAC = ''a'', e_State = ''up'', e_SeenSec = 3\<rparr>] demo_seen = (rows, s') \<and>
     distinct (map cv_MAC rows) \<and> cv_MAC ` set rows = {''a'', ''b''}"
proof -
  let ?e = "\<lparr>e_IP = ''10.0.0.2'', e_MAC = ''a'', e_State = ''up'', e_SeenSec = 3\<rparr>"
  obtain rows s' where b: "buildCache demo_view [''a'', ''b''] 200 [?e] demo_seen = (rows, s')" by fastforce
  have lan: "onLAN None ''10.0.0.2''" by code_simp
  have trk: "tracked demo_seen = {}" by (simp add: tracked_def demo_seen_def newState_def touchObserved_def Let_def)
  have "s' = touchObserved ''a'' ''10.0.0.2'' [] 200 demo_seen"
    using b lan by (auto simp: buildCache_def Let_def trk demo_view_def)
  then have "dom (s_obs s') = {''a'', ''b''}"
    by (auto simp: demo_seen_def touchObserved_def newState_def Let_def split: if_splits)
  then have ks: "enumerates [''a'', ''b''] (dom (s_obs s'))" by (simp add: enumerates_def)
  have wf: "wf_state demo_seen" unfolding demo_seen_def by (intro wf_touchObserved wf_newState)
  have obs: "{m. \<exists>x. s_obs demo_seen m = Some x \<and> 200 - 604800 \<le> ob_LastSeen x} = {''b''}"
    by (auto simp: demo_seen_def touchObserved_def newState_def Let_def split: if_splits)
  have "{e_MAC e |e. e \<in> set [?e] \<and> onLAN (ve_lan demo_view) (e_IP e)} = {''a''}" using lan by (auto simp: demo_view_def)
  with neighbour_view_exact [OF wf b ks] b show ?thesis unfolding trk obs by auto
qed

section \<open>The SEEN column over time\<close>

definition last_up :: "string \<Rightarrow> cycle list \<Rightarrow> int \<Rightarrow> int" where
  "last_up mac cs u0 = fold (\<lambda>(ks, results, t) u. case results mac of None \<Rightarrow> u
     | Some part \<Rightarrow> if verdict part = ''up'' then t else u) cs u0"

lemma run_cycles_dev:
  assumes "s_devs s mac = Some ds" and "\<forall>(ks, results, now) \<in> set cs. enumerates ks (dom results)"
  shows "\<exists>ds'. s_devs (run_cycles cs s) mac = Some ds' \<and> ds_dev ds' = ds_dev ds \<and>
    ds_lastSeenUp ds' = last_up mac cs (ds_lastSeenUp ds)"
  using assms
proof (induction cs arbitrary: s ds)
  case Nil
  then show ?case by (simp add: run_cycles_def last_up_def)
next
  case (Cons c cs)
  obtain ks results t where c: "c = (ks, results, t)" by (cases c)
  have ks: "distinct ks" "mac \<in> set ks \<longleftrightarrow> results mac \<noteq> None"
    using Cons.prems(2) by (auto simp: c enumerates_def)
  have "run_cycles (c # cs) s = run_cycles cs (applyProbes ks results t s)" by (simp add: run_cycles_def c)
  moreover have "last_up mac (c # cs) u = last_up mac cs (case results mac of None \<Rightarrow> u
      | Some part \<Rightarrow> if verdict part = ''up'' then t else u)" for u by (simp add: last_up_def c)
  moreover obtain d where "s_devs (applyProbes ks results t s) mac = Some d" "ds_dev d = ds_dev ds"
    "ds_lastSeenUp d = (case results mac of None \<Rightarrow> ds_lastSeenUp ds
      | Some part \<Rightarrow> if verdict part = ''up'' then t else ds_lastSeenUp ds)"
    using Cons.prems(1) ks by (auto simp: applyProbes_devs probe_dev_def verdict_def Let_def split: option.splits)
  ultimately show ?case using Cons.IH [of _ d] Cons.prems(2) by auto
qed

text \<open>
  The SEEN column counts from the last time the device was up. After any run of probe cycles
  whose last one probed the device, its row reads "now" and zero seconds when that cycle found
  it up; otherwise the age of the latest cycle that did (or of the loaded scalar), never
  flagged as an ARP sighting; and for a device never up, the time since it was tracked.
\<close>

theorem seen_counts_from_last_up:
  assumes "s_devs s mac = Some ds" and "\<forall>(ks, results, t) \<in> set (cs @ [c]). enumerates ks (dom results)"
    and "fst (snd c) mac = Some part" and "run_cycles (cs @ [c]) s = s'" and "s_devs s' mac = Some ds'"
    and "build_device table now ds' = v" and "last_up mac (cs @ [c]) (ds_lastSeenUp ds) = u"
  shows "if verdict part = ''up'' then dv_Seen v = ''now'' \<and> dv_UnseenSec v = 0 \<and> \<not> dv_SeenL2 v
    else if u > 0 then dv_Seen v = FmtSeen (now - u) \<and> dv_UnseenSec v = now - u \<and> \<not> dv_SeenL2 v
    else dv_UnseenSec v = now - d_CreatedAt (ds_dev ds) \<and>
      (dv_SeenL2 v \<longrightarrow> d_Probes (ds_dev ds) = [] \<and> \<not> ds_icmpSeen ds')"
proof -
  obtain ks results t where c: "c = (ks, results, t)" by (cases c)
  from run_cycles_dev [OF assms(1,2)] assms(4,5,7) have d: "ds_dev ds' = ds_dev ds" "ds_lastSeenUp ds' = u" by auto
  have s': "s' = applyProbes ks results t (run_cycles cs s)" using assms(4) by (auto simp: run_cycles_def c)
  have ks: "distinct ks" "mac \<in> set ks" using assms(2,3) by (auto simp: c enumerates_def)
  from assms(5) have live: "ds_live ds' = part"
    using assms(3) ks unfolding s' by (auto simp: applyProbes_devs c probe_dev_def Let_def split: option.splits)
  have up: "deviceUp (device_base table ds') \<longleftrightarrow> verdict part = ''up''"
    by (simp add: device_base_up live liveUp_signal_verdict)
  note row = build_device_fields [of table now ds', unfolded assms(6)]
  consider "verdict part = ''up''" | "verdict part \<noteq> ''up''" "u > 0" | "verdict part \<noteq> ''up''" "\<not> u > 0" by blast
  then show ?thesis
  proof cases
    case 1
    then show ?thesis by (simp add: row seenState_def up)
  next
    case 2
    then show ?thesis by (simp add: row seenState_def up d(2))
  next
    case 3
    then have "\<not> deviceUp (device_base table ds')" "\<not> ds_lastSeenUp ds' > 0" by (simp_all add: up d(2))
    then have "dv_UnseenSec v = now - d_CreatedAt (ds_dev ds)" "dv_SeenL2 v \<longrightarrow> d_Probes (ds_dev ds) = [] \<and> \<not> ds_icmpSeen ds'"
      unfolding row seenState_def Let_def d(1) by (simp_all only: if_False fst_conv snd_conv) (simp_all split: if_split)
    with 3 show ?thesis by (simp only: if_False simp_thms)
  qed
qed

lemma seen_counts_from_last_up_witness:
  "\<exists>ds'. s_devs (run_cycles (demo_cycles ''m'') (demo_state ''m'')) ''m'' = Some ds' \<and>
     dv_UnseenSec (build_device Map.empty 30 ds') = 20"
proof -
  let ?cs = "[([''m''], [''m'' \<mapsto> demo_up], 10), ([''m''], [''m'' \<mapsto> no_live], 12)]" and ?c = "([''m''], [''m'' \<mapsto> no_live], 14)"
  have cs: "demo_cycles ''m'' = ?cs @ [?c]" by (simp add: demo_cycles_def)
  have d: "s_devs (demo_state ''m'') ''m'' = Some (seed_dev (demo_device ''m''))" by (simp add: demo_simps)
  have en: "\<forall>(ks, results, t) \<in> set (?cs @ [?c]). enumerates ks (dom results)"
    by (simp add: demo_cycles_def enumerates_def)
  obtain ds' where ds': "s_devs (run_cycles (?cs @ [?c]) (demo_state ''m'')) ''m'' = Some ds'"
    using run_cycles_dev [OF d en] by blast
  have "last_up ''m'' (?cs @ [?c]) (ds_lastSeenUp (seed_dev (demo_device ''m''))) = 10" "verdict no_live = ''down''"
    by (simp_all add: last_up_def demo_cycles_def verdict_def part_signal_def demo_simps)
  with seen_counts_from_last_up [OF d en _ refl ds' refl refl, of no_live Map.empty 30] ds' show ?thesis by (simp add: cs)
qed

end
