(* ===== verification/Wake.thy ===== *)
theory Wake
  imports Devices Wol StoreSpecs
begin

text \<open>
  Wake-and-watch, \<^verbatim>\<open>internal/server/wake.go\<close>: the registry of cancel functions, the handlers that
  start and cancel a wake, and the loop that keeps sending the barrage until the host answers.
  The loop reads its surroundings once per turn (the clock, the neighbour cache, the network,
  the activity gate, whether its context is done); they are a function of the turn.
\<close>

section \<open>The loop\<close>

record wake_turn =
  wt_elapsed :: int
  wt_entries :: "entry list option"
  wt_net :: net_env
  wt_active :: bool
  wt_cancelled :: bool
  wt_sockets :: sockets

record wake_event =
  we_MAC :: string
  we_Elapsed :: int
  we_Timeout :: int
  we_Packets :: nat
  we_Arp :: string
  we_Icmp :: "icmp_result option"
  we_Probes :: "probe_view list"
  we_Up :: bool
  we_Done :: bool

definition wakeTimeout :: int where
  "wakeTimeout = 120"

definition wakeResendEv :: int where
  "wakeResendEv = 2"

definition wake_observe :: "(byte list \<Rightarrow> bool option) \<Rightarrow> device \<Rightarrow> wake_turn \<Rightarrow> nat \<Rightarrow> wake_event" where
  "wake_observe parse dev w packets =
     (let byMAC = fst (neighSnapshot (wt_entries w));
          arp = (case byMAC (NormMAC (d_MAC dev)) of None \<Rightarrow> ''down'' | Some e \<Rightarrow> e_State e);
          icmp = (if d_IP dev \<noteq> [] then Some (server_probeICMP parse (wt_net w) (d_IP dev)) else None);
          probes = map (server_probeOne (wt_net w) (d_IP dev)) (d_Probes dev);
          up = liveUp icmp probes
      in \<lparr>we_MAC = d_MAC dev, we_Elapsed = wt_elapsed w, we_Timeout = wakeTimeout, we_Packets = packets,
          we_Arp = arp, we_Icmp = icmp, we_Probes = probes, we_Up = up,
          we_Done = (up \<or> wt_elapsed w \<ge> wakeTimeout)\<rparr>)"

definition wake_send :: "sockets \<Rightarrow> waker \<Rightarrow> byte list \<Rightarrow> device \<Rightarrow> packet list \<times> nat \<Rightarrow> packet list \<times> nat" where
  "wake_send k wk hw dev st = (let (out, n, err) = waker_Send k wk hw (d_IP dev) in (fst st @ out, snd st + n))"

definition resend_due :: "int \<Rightarrow> bool" where
  "resend_due elapsed \<longleftrightarrow> elapsed > 0 \<and> (elapsed + 1) mod wakeResendEv = 0"

text \<open>The state of the loop: the frames broadcast, and the packets sent with their count.\<close>

partial_function (option) wake_loop :: "(byte list \<Rightarrow> bool option) \<Rightarrow> waker \<Rightarrow> byte list \<Rightarrow> device \<Rightarrow> (nat \<Rightarrow> wake_turn) \<Rightarrow>
    nat \<Rightarrow> wake_event list \<Rightarrow> packet list \<times> nat \<Rightarrow> (wake_event list \<times> packet list) option" where
  [code]: "wake_loop parse wk hw dev env i evs st =
     (let ev = wake_observe parse dev (env i) (snd st); evs' = evs @ [ev] in
      if we_Done ev \<or> \<not> wt_active (env i) \<or> wt_cancelled (env i) then Some (evs', fst st)
      else wake_loop parse wk hw dev env (Suc i) evs'
        (if resend_due (wt_elapsed (env i)) then wake_send (wt_sockets (env i)) wk hw dev st else st))"

definition run_wake :: "(byte list \<Rightarrow> bool option) \<Rightarrow> waker \<Rightarrow> byte list \<Rightarrow> device \<Rightarrow> sockets \<Rightarrow> (nat \<Rightarrow> wake_turn) \<Rightarrow>
    (wake_event list \<times> packet list) option" where
  "run_wake parse wk hw dev k env = wake_loop parse wk hw dev env 0 [] (wake_send k wk hw dev ([], 0))"

section \<open>The registry\<close>

text \<open>A run is named by its context: \<open>wr_running\<close> gives the MAC whose entry it deletes at its end.\<close>

record wake_reg =
  wr_wakes :: "string \<Rightarrow> nat option"
  wr_cancelled :: "nat set"
  wr_running :: "nat \<Rightarrow> string option"

definition cancel_entry :: "string \<Rightarrow> wake_reg \<Rightarrow> wake_reg" where
  "cancel_entry mac r = (case wr_wakes r mac of None \<Rightarrow> r
     | Some k \<Rightarrow> r\<lparr>wr_cancelled := insert k (wr_cancelled r)\<rparr>)"

definition start_wake :: "string \<Rightarrow> nat \<Rightarrow> wake_reg \<Rightarrow> wake_reg" where
  "start_wake mac n r = (let r1 = cancel_entry mac r in
     r1\<lparr>wr_wakes := (wr_wakes r1)(mac \<mapsto> n), wr_running := (wr_running r1)(n \<mapsto> mac)\<rparr>)"

text \<open>The deferred deletion at the end of \<^verbatim>\<open>runWake\<close>.\<close>

definition end_wake :: "nat \<Rightarrow> wake_reg \<Rightarrow> wake_reg" where
  "end_wake n r = (case wr_running r n of None \<Rightarrow> r
     | Some mac \<Rightarrow> r\<lparr>wr_wakes := (wr_wakes r)(mac := None), wr_running := (wr_running r)(n := None)\<rparr>)"

datatype wake_response = Wake_error | Wake_unknown | Wake_bad_mac | Wake_accepted device "byte list"

definition handleWake :: "faults \<Rightarrow> string \<Rightarrow> nat \<Rightarrow> db \<Rightarrow> wake_reg \<Rightarrow> wake_response \<times> wake_reg" where
  "handleWake f path n db r =
     (let mac = NormMAC path in
      case store_Get f mac db of
        Inl e \<Rightarrow> (Wake_error, r)
      | Inr None \<Rightarrow> (Wake_unknown, r)
      | Inr (Some dev) \<Rightarrow> (case ParseMAC (d_MAC dev) of
            None \<Rightarrow> (Wake_bad_mac, r)
          | Some hw \<Rightarrow> (Wake_accepted dev hw, start_wake mac n r)))"

definition handleCancelWake :: "string \<Rightarrow> wake_reg \<Rightarrow> wake_reg" where
  "handleCancelWake path r = cancel_entry (NormMAC path) r"

datatype wake_act = Do_wake faults string nat db | Do_cancel string | Do_end nat

fun wake_enabled :: "wake_act \<Rightarrow> wake_reg \<Rightarrow> bool" where
  "wake_enabled (Do_wake f path n db) r \<longleftrightarrow> wr_running r n = None \<and> n \<notin> wr_cancelled r \<and> wf_db db"
| "wake_enabled (Do_cancel path) r \<longleftrightarrow> True"
| "wake_enabled (Do_end n) r \<longleftrightarrow> wr_running r n \<noteq> None"

fun wake_perform :: "wake_act \<Rightarrow> wake_reg \<Rightarrow> wake_reg" where
  "wake_perform (Do_wake f path n db) r = snd (handleWake f path n db r)"
| "wake_perform (Do_cancel path) r = handleCancelWake path r"
| "wake_perform (Do_end n) r = end_wake n r"

inductive wake_step :: "wake_reg \<Rightarrow> wake_reg \<Rightarrow> bool" where
  "wake_enabled a r \<Longrightarrow> wake_step r (wake_perform a r)"

inductive_cases wake_stepE: "wake_step r r'"

definition wake_init :: "wake_reg \<Rightarrow> bool" where
  "wake_init r \<longleftrightarrow> r = \<lparr>wr_wakes = Map.empty, wr_cancelled = {}, wr_running = Map.empty\<rparr>"

text \<open>Every entry belongs to a run that has not ended, under a normalised key.\<close>

definition wake_inv :: "wake_reg \<Rightarrow> bool" where
  "wake_inv r \<longleftrightarrow> (\<forall>mac n. wr_wakes r mac = Some n \<longrightarrow> wr_running r n = Some mac \<and> NormMAC mac = mac)"

lemma cancel_entry_simps [simp]:
  "wr_wakes (cancel_entry mac r) = wr_wakes r" "wr_running (cancel_entry mac r) = wr_running r"
  by (simp_all add: cancel_entry_def split: option.splits)

lemma wake_inv_start:
  "wake_inv r \<Longrightarrow> wr_running r n = None \<Longrightarrow> NormMAC mac = mac \<Longrightarrow> wake_inv (start_wake mac n r)"
  by (fastforce simp: wake_inv_def start_wake_def Let_def)

lemma wake_inv_end: "wake_inv r \<Longrightarrow> wake_inv (end_wake n r)"
  by (auto simp: wake_inv_def end_wake_def split: option.splits)

lemma wake_inv_init: "wake_init r \<Longrightarrow> wake_inv r"
  by (simp add: wake_init_def wake_inv_def)

lemma wake_inv_step:
  assumes "wake_inv r" and "wake_step r r'"
  shows "wake_inv r'"
  using assms(2)
proof (rule wake_stepE)
  fix a
  assume r': "r' = wake_perform a r" and en: "wake_enabled a r"
  show "wake_inv r'"
    using assms(1) en unfolding r'
    by (cases a) (auto simp: handleWake_def Let_def handleCancelWake_def wake_inv_start wake_inv_end
        split: sum.splits option.splits, simp add: wake_inv_def)
qed

interpretation wakes: action_machine wake_init wake_step wake_inv wake_enabled wake_perform
  by unfold_locales (rule wake_inv_init wake_inv_step wake_step.intros, assumption+)+

end
