(* ===== verification/WakeSpecs.thy ===== *)
theory WakeSpecs
  imports Wake
begin

text \<open>
  What a wake promises: the watch ends within two minutes of turns, reports what it observed
  and counts what it sent; and what the registry of cancel functions does when a device is
  woken again while an earlier wake is still ending.
\<close>

section \<open>The watch ends\<close>

lemma wake_observe_simps [simp]:
  "we_Elapsed (wake_observe parse dev w p) = wt_elapsed w" "we_Packets (wake_observe parse dev w p) = p"
  "we_Done (wake_observe parse dev w p) \<longleftrightarrow> we_Up (wake_observe parse dev w p) \<or> wt_elapsed w \<ge> 120"
  by (simp_all add: wake_observe_def Let_def wakeTimeout_def)

lemma wake_send_count:
  "snd st = length (fst st) \<Longrightarrow> snd (wake_send k wk hw dev st) = length (fst (wake_send k wk hw dev st)) \<and>
     length (fst (wake_send k wk hw dev st)) \<le> length (fst st) + 7"
  using waker_Send_count [of k wk hw "d_IP dev"] by (auto simp: wake_send_def Let_def split: prod.splits)

text \<open>A frame is done exactly when it found the host up or the time is over.\<close>

definition done_right :: "wake_event \<Rightarrow> bool" where
  "done_right e \<longleftrightarrow> (we_Done e \<longleftrightarrow> we_Up e \<or> 120 \<le> we_Elapsed e)"

lemma done_right_observe [simp]: "done_right (wake_observe parse dev w p)"
  by (simp add: done_right_def)

text \<open>One turn and the rest: \<open>evs\<close> was broadcast before, \<open>new\<close> from turn \<open>i\<close> on.\<close>

definition turns_ok :: "(nat \<Rightarrow> wake_turn) \<Rightarrow> nat \<Rightarrow> nat \<Rightarrow> wake_event list \<Rightarrow> packet list \<Rightarrow> bool" where
  "turns_ok env i sent new pk \<longleftrightarrow> new \<noteq> [] \<and> length new \<le> 121 - i \<and>
     map we_Elapsed new = map (\<lambda>j. wt_elapsed (env j)) [i..<i + length new] \<and>
     list_all done_right new \<and> list_all (\<lambda>e. \<not> we_Done e) (butlast new) \<and>
     (we_Done (last new) \<or> \<not> wt_active (env (i + length new - 1)) \<or> wt_cancelled (env (i + length new - 1))) \<and>
     we_Packets (last new) = length pk \<and>
     length pk \<le> sent + 7 * length (filter (\<lambda>e. resend_due (we_Elapsed e)) (butlast new))"

lemma wake_loop_turns:
  assumes "\<forall>i. int i \<le> wt_elapsed (env i)" and "i \<le> 120" and "snd st = length (fst st)"
  shows "\<exists>new pk. wake_loop parse wk hw dev env i evs st = Some (evs @ new, pk) \<and> turns_ok env i (snd st) new pk"
  using assms(2,3)
proof (induction "120 - i" arbitrary: i evs st)
  case 0
  then have "120 \<le> wt_elapsed (env i)" using assms(1) [rule_format, of i] by simp
  then have "wake_loop parse wk hw dev env i evs st = Some (evs @ [wake_observe parse dev (env i) (snd st)], fst st)"
    by (subst wake_loop.simps) (simp add: Let_def)
  moreover have "turns_ok env i (snd st) [wake_observe parse dev (env i) (snd st)] (fst st)"
    using 0 \<open>120 \<le> wt_elapsed (env i)\<close> by (simp add: turns_ok_def)
  ultimately show ?case by blast
next
  case (Suc d)
  let ?ev = "wake_observe parse dev (env i) (snd st)"
  let ?st = "if resend_due (wt_elapsed (env i)) then wake_send (wt_sockets (env i)) wk hw dev st else st"
  show ?case
  proof (cases "we_Done ?ev \<or> \<not> wt_active (env i) \<or> wt_cancelled (env i)")
    case True
    then have "wake_loop parse wk hw dev env i evs st = Some (evs @ [?ev], fst st)"
      by (subst wake_loop.simps) (simp add: Let_def del: wake_observe_simps(3))
    moreover have "turns_ok env i (snd st) [?ev] (fst st)" using True Suc.prems Suc.hyps(2)
      by (auto simp: turns_ok_def simp del: wake_observe_simps(3))
    ultimately show ?thesis by blast
  next
    case False
    have st: "snd ?st = length (fst ?st)" "snd ?st \<le> snd st + (if resend_due (wt_elapsed (env i)) then 7 else 0)"
      using wake_send_count [of st "wt_sockets (env i)" wk hw dev] Suc.prems(2) by auto
    have "d = 120 - Suc i" "Suc i \<le> 120" using Suc.hyps(2) by auto
    from Suc.hyps(1) [OF this st(1), of "evs @ [?ev]"] obtain new pk where
      new: "wake_loop parse wk hw dev env (Suc i) (evs @ [?ev]) ?st = Some ((evs @ [?ev]) @ new, pk)"
        "turns_ok env (Suc i) (snd ?st) new pk" by blast
    have "wake_loop parse wk hw dev env i evs st = Some (evs @ (?ev # new), pk)"
      using False new(1) by (subst wake_loop.simps) (simp add: Let_def del: wake_observe_simps(3))
    moreover have "turns_ok env i (snd st) (?ev # new) pk"
    proof -
      have l: "new \<noteq> []" "length new \<le> 120 - i" using new(2) by (auto simp: turns_ok_def)
      have r: "[i..<i + length (?ev # new)] = i # [Suc i..<Suc i + length new]" by (simp add: upt_rec)
      show ?thesis unfolding turns_ok_def r
        using new(2) l st(2) False Suc.prems(1) by (auto simp: turns_ok_def simp del: wake_observe_simps(3) split: if_splits)
    qed
    ultimately show ?thesis by blast
  qed
qed

text \<open>
  C20. A wake ends, and reports truthfully. With a clock that does not run slower than the ticker
  (turn i starts at least i seconds in), the loop returns after at most 121 frames: only the
  last one can be done, and it is unless the gate closed or the wake was cancelled; a frame is
  done exactly when it found the host up or 120 seconds have passed; its packet count is the number of
  packets really emitted; and there is one barrage of at most 7 packets at the start and one
  for each odd second observed.
\<close>

theorem wake_watch_ends:
  assumes "\<forall>i. int i \<le> wt_elapsed (env i)"
  shows "\<exists>evs pk. run_wake parse wk hw dev k env = Some (evs, pk) \<and> evs \<noteq> [] \<and> length evs \<le> 121 \<and>
    map we_Elapsed evs = map (\<lambda>j. wt_elapsed (env j)) [0..<length evs] \<and>
    list_all (\<lambda>e. we_Done e \<longleftrightarrow> we_Up e \<or> 120 \<le> we_Elapsed e) evs \<and> list_all (\<lambda>e. \<not> we_Done e) (butlast evs) \<and>
    (we_Done (last evs) \<or> \<not> wt_active (env (length evs - 1)) \<or> wt_cancelled (env (length evs - 1))) \<and>
    we_Packets (last evs) = length pk \<and>
    length pk \<le> 7 * (1 + length (filter (\<lambda>e. resend_due (we_Elapsed e)) (butlast evs)))"
proof -
  let ?st = "wake_send k wk hw dev ([], 0)"
  have st: "snd ?st = length (fst ?st)" "snd ?st \<le> 7" using wake_send_count [of "([], 0)" k wk hw dev] by auto
  from wake_loop_turns [OF assms _ st(1), of 0 parse wk hw dev "[]"] obtain evs pk where
    "run_wake parse wk hw dev k env = Some (evs, pk)" "turns_ok env 0 (snd ?st) evs pk"
    by (auto simp: run_wake_def)
  then show ?thesis using st(2) by (intro exI [of _ evs] exI [of _ pk]) (auto simp: turns_ok_def done_right_def [abs_def])
qed

definition demo_turn :: "nat \<Rightarrow> wake_turn" where
  "demo_turn i = \<lparr>wt_elapsed = int i, wt_entries = None,
     wt_net = \<lparr>n_dial = \<lambda>_ _. None, n_udp4 = False, n_raw = False, n_write = \<lambda>_. True, n_arrivals = \<lambda>_. []\<rparr>,
     wt_active = True, wt_cancelled = False, wt_sockets = demo_sockets\<rparr>"

lemma wake_watch_ends_witness:
  "\<exists>evs pk. run_wake (\<lambda>_. None) \<lparr>w_Iface = ''eth0'', w_Broadcast = []\<rparr> [1, 2, 3, 4, 5, 6] (demo_device ''m'') demo_sockets demo_turn =
     Some (evs, pk) \<and> we_Packets (last evs) = length pk \<and> length evs \<le> 121"
proof -
  have "\<forall>i. int i \<le> wt_elapsed (demo_turn i)" by (simp add: demo_turn_def)
  from wake_watch_ends [OF this, of "\<lambda>_. None" "\<lparr>w_Iface = ''eth0'', w_Broadcast = []\<rparr>" "[1, 2, 3, 4, 5, 6]" "demo_device ''m''" demo_sockets]
  show ?thesis by blast
qed

section \<open>Waking again\<close>

text \<open>
  C40. A second wake can be orphaned. In every reachable state with a wake of a device under way,
  waking the device again and then letting the first (cancelled) run end leaves the second run
  going without an entry: cancelling it has no effect, and a third wake does not stop it.
\<close>

theorem rewake_becomes_uncancellable:
  assumes "reachable wake_init wake_step r" and "wr_wakes r (NormMAC path) = Some k"
    and "wr_running r n = None" and "n \<notin> wr_cancelled r" and "n \<noteq> k" and "n2 \<noteq> n"
    and "handleWake f path n db r = (Wake_accepted dev hw, r1)"
  shows "let r2 = end_wake k r1; r3 = start_wake (NormMAC path) n2 (handleCancelWake path r2) in
    handleCancelWake path r2 = r2 \<and> wr_running r3 n = Some (NormMAC path) \<and> n \<notin> wr_cancelled r3 \<and>
    wr_running r3 n2 = Some (NormMAC path)"
proof -
  have "wr_running r k = Some (NormMAC path)"
    using wakes.reachable_inv [OF assms(1)] assms(2) by (simp add: wake_inv_def)
  moreover have "r1 = start_wake (NormMAC path) n r"
    using assms(7) by (auto simp: handleWake_def Let_def split: sum.splits option.splits)
  ultimately show ?thesis using assms(2,4-6)
    by (simp add: start_wake_def cancel_entry_def end_wake_def handleCancelWake_def Let_def)
qed

definition demo_mac :: string where
  "demo_mac = ''00:11:22:33:44:55''"

lemma demo_mac_facts: "NormMAC demo_mac = demo_mac" "ParseMAC demo_mac = Some [0x00, 0x11, 0x22, 0x33, 0x44, 0x55]"
  by code_simp+

definition demo_wake_db :: db where
  "demo_wake_db = demo_db\<lparr>t_devices := [demo_row demo_mac]\<rparr>"

lemma wf_demo_wake_db: "wf_db demo_wake_db"
  using wf_demo_db demo_mac_facts(1) by (simp add: wf_db_def wf_rows_def demo_wake_db_def demo_db_def demo_row_def primary_key_def)

lemma demo_handleWake: "\<exists>dev. handleWake (\<lambda>_. False) demo_mac n demo_wake_db r =
  (Wake_accepted dev [0x00, 0x11, 0x22, 0x33, 0x44, 0x55], start_wake demo_mac n r)"
  by (simp add: handleWake_def Let_def store_Get_def demo_wake_db_def demo_db_def demo_row_def table_map_def scanDevice_def demo_mac_facts)

lemma rewake_becomes_uncancellable_witness:
  "let r0 = \<lparr>wr_wakes = Map.empty, wr_cancelled = {}, wr_running = Map.empty\<rparr>;
       r2 = end_wake 0 (start_wake demo_mac 1 (start_wake demo_mac 0 r0)) in
   handleCancelWake demo_mac r2 = r2 \<and> wr_running r2 1 = Some demo_mac \<and> 1 \<notin> wr_cancelled r2"
proof -
  let ?start = "\<lparr>wr_wakes = Map.empty, wr_cancelled = {}, wr_running = Map.empty\<rparr>"
  let ?r = "start_wake demo_mac 0 ?start"
  have "wake_perform (Do_wake (\<lambda>_. False) demo_mac 0 demo_wake_db) ?start = ?r" using demo_handleWake [of 0 ?start] by auto
  moreover have "wake_step ?start (wake_perform (Do_wake (\<lambda>_. False) demo_mac 0 demo_wake_db) ?start)"
    by (rule wake_step.intros) (simp add: wf_demo_wake_db)
  moreover have "reachable wake_init wake_step ?start" by (rule reach_init) (simp add: wake_init_def)
  ultimately have r: "reachable wake_init wake_step ?r" by (metis reach_step)
  obtain dev where h: "handleWake (\<lambda>_. False) demo_mac 1 demo_wake_db ?r =
      (Wake_accepted dev [0x00, 0x11, 0x22, 0x33, 0x44, 0x55], start_wake demo_mac 1 ?r)" using demo_handleWake by blast
  have "wr_wakes ?r (NormMAC demo_mac) = Some 0" "wr_running ?r 1 = None" "1 \<notin> wr_cancelled ?r"
    by (simp_all add: start_wake_def cancel_entry_def demo_mac_facts Let_def)
  from rewake_becomes_uncancellable [OF r this _ _ h, of 2] show ?thesis
    by (simp add: Let_def) (simp add: start_wake_def cancel_entry_def end_wake_def Let_def)
qed

end
