(* ===== verification/Runes.thy ===== *)
theory Runes
  imports Prelude
begin

text \<open>
  Strings as runes: the conversion \<^verbatim>\<open>[]rune(s)\<close> of Go, which decodes UTF-8 and turns every byte
  that starts no well-formed sequence into U+FFFD. A rune is given by its encoding, so the
  conversion back is concatenation.
\<close>

definition byte_in :: "char \<Rightarrow> nat \<Rightarrow> nat \<Rightarrow> bool" where
  "byte_in c lo hi \<longleftrightarrow> lo \<le> of_char c \<and> of_char c \<le> (hi :: nat)"

text \<open>The accepted range of the second byte depends on the first (no overlong forms, no surrogates).\<close>

definition second_range :: "nat \<Rightarrow> nat \<times> nat" where
  "second_range x = (if x = 0xE0 then (0xA0, 0xBF) else if x = 0xED then (0x80, 0x9F)
     else if x = 0xF0 then (0x90, 0xBF) else if x = 0xF4 then (0x80, 0x8F) else (0x80, 0xBF))"

definition lead_width :: "nat \<Rightarrow> nat option" where
  "lead_width x = (if x < 0x80 then Some 1 else if 0xC2 \<le> x \<and> x \<le> 0xDF then Some 2
     else if 0xE0 \<le> x \<and> x \<le> 0xEF then Some 3 else if 0xF0 \<le> x \<and> x \<le> 0xF4 then Some 4 else None)"

definition rune_ok :: "string \<Rightarrow> bool" where
  "rune_ok r \<longleftrightarrow> r \<noteq> [] \<and> lead_width (of_char (hd r)) = Some (length r) \<and>
     (case tl r of [] \<Rightarrow> True
      | b # bs \<Rightarrow> byte_in b (fst (second_range (of_char (hd r)))) (snd (second_range (of_char (hd r)))) \<and>
          list_all (\<lambda>c. byte_in c 0x80 0xBF) bs)"

definition rune_error :: string where
  "rune_error = [CHR 0xEF, CHR 0xBF, CHR 0xBD]"

definition rune_at :: "string \<Rightarrow> string option" where
  "rune_at s = (case lead_width (of_char (hd s)) of None \<Rightarrow> None
     | Some w \<Rightarrow> if length s \<ge> w \<and> rune_ok (take w s) then Some (take w s) else None)"

lemma rune_at_length: "rune_at s = Some r \<Longrightarrow> r \<noteq> [] \<and> r = take (length r) s"
  by (auto simp: rune_at_def rune_ok_def split: option.splits if_splits)

function runes :: "string \<Rightarrow> string list" where
  "runes s = (if s = [] then [] else case rune_at s of
       Some r \<Rightarrow> r # runes (drop (length r) s)
     | None \<Rightarrow> rune_error # runes (tl s))"
  by auto
termination
  by (relation "measure length") (auto dest: rune_at_length)

declare runes.simps [simp del]

lemma runes_Nil [simp]: "runes [] = []"
  by (simp add: runes.simps)

lemma rune_error_ok: "rune_ok rune_error"
  by (simp add: rune_ok_def rune_error_def lead_width_def second_range_def byte_in_def)

lemma runes_ok: "r \<in> set (runes s) \<Longrightarrow> rune_ok r"
proof (induction s rule: runes.induct)
  case (1 s)
  show ?case
  proof (cases "s = []")
    case False
    then show ?thesis using 1 rune_error_ok
      by (subst (asm) runes.simps) (auto simp: rune_at_def split: option.splits if_splits)
  qed (use 1 in simp)
qed

lemma rune_at_ok: "rune_ok r \<Longrightarrow> rune_at (r @ t) = Some r"
  by (cases r) (auto simp: rune_at_def rune_ok_def)

lemma runes_Cons: "rune_ok r \<Longrightarrow> runes (r @ t) = r # runes t"
  using rune_at_ok [of r t] by (subst runes.simps) (auto simp: rune_ok_def)

lemma runes_concat: "list_all rune_ok rs \<Longrightarrow> runes (concat rs @ t) = rs @ runes t"
  by (induction rs) (simp_all add: runes_Cons)

section \<open>clampName\<close>

definition maxNameLen :: nat where
  "maxNameLen = 32"

definition clampName :: "string \<Rightarrow> string" where
  "clampName s = (let r = runes s in if length r > maxNameLen then concat (take maxNameLen r) else s)"

lemma clampName_runes: "runes (clampName s) = take 32 (runes s)"
proof (cases "length (runes s) > 32")
  case True
  have "list_all rune_ok (take 32 (runes s))" using runes_ok by (auto simp: list_all_iff dest: in_set_takeD)
  from runes_concat [OF this, of "[]"] True show ?thesis by (simp add: clampName_def Let_def maxNameLen_def)
qed (simp add: clampName_def Let_def maxNameLen_def)

lemma clampName_idem [simp]: "clampName (clampName s) = clampName s"
  using clampName_runes [of s] by (simp add: clampName_def [of "clampName s"] Let_def maxNameLen_def)

lemma clampName_short: "length (runes s) \<le> 32 \<Longrightarrow> clampName s = s"
  by (simp add: clampName_def Let_def maxNameLen_def)

end
