(* ===== verification/Api.thy ===== *)
theory Api
  imports Devices Naming Scan Runes StoreSpecs
begin

text \<open>
  The JSON API, \<^verbatim>\<open>internal/server/api.go\<close> and \<^verbatim>\<open>scan.go\<close>: the handlers that change the store and
  the in-memory model, name resolution, and the scan with its single-flight flag. A body is the
  decoded value, \<open>None\<close> when \<^verbatim>\<open>json.Decode\<close> fails. Each handler is one run without
  interleaving (the interleavings of its parts are those of the journal machine); \<open>fs i\<close> says
  which statements of its \<open>i\<close>-th store call fail, and the goroutines it starts are returned.
\<close>

section \<open>Server, requests, responses\<close>

record server =
  sv_db :: db
  sv_mem :: state
  sv_kick :: bool
  sv_scanning :: bool

record track_body =
  tb_MAC :: string
  tb_IP :: string
  tb_Name :: string
  tb_Manual :: bool

record patch_body =
  pb_Name :: "string option"
  pb_Link :: "string option"
  pb_Notes :: "string option"
  pb_IP :: "string option"

datatype api_error = Bad_json | Invalid_mac | Invalid_ip | Invalid_port | Store_failed store_error
  | Unknown_device | Scan_invalid scan_error | Scan_running | Handler_panic

datatype response = Done nat | Fail nat api_error

datatype job = Resolve_async string string | Run_scan string

text \<open>The configuration and the resolvers a handler uses.\<close>

record api_env =
  ae_resolver :: string
  ae_gateway :: string
  ae_lan :: "ipnet option"
  ae_vendors :: vendor_table
  ae_rdns :: "string \<Rightarrow> string \<Rightarrow> string list option"
  ae_nbstat :: "string \<Rightarrow> byte list \<Rightarrow> byte list option"

definition lanResolver :: "api_env \<Rightarrow> string" where
  "lanResolver env = (if ae_resolver env \<noteq> [] then ae_resolver env else ae_gateway env)"

definition validIP :: "string \<Rightarrow> bool" where
  "validIP s \<longleftrightarrow> ParseIP s \<noteq> [] \<and> To4 (ParseIP s) \<noteq> []"

text \<open>\<^verbatim>\<open>strconv.Atoi\<close> on a 64-bit int.\<close>

definition Atoi :: "string \<Rightarrow> int option" where
  "Atoi s =
     (let (neg, ds) = (case s of [] \<Rightarrow> (False, []) | c # cs \<Rightarrow>
            if c = CHR ''-'' then (True, cs) else if c = CHR ''+'' then (False, cs) else (False, s))
      in case (if ds = [] then None else dec_digits 0 ds) of
           None \<Rightarrow> None
         | Some n \<Rightarrow> let v = (if neg then - int n else int n) in
             if - (2 ^ 63) \<le> v \<and> v < 2 ^ 63 then Some v else None)"

text \<open>\<^verbatim>\<open>reloadState\<close> and \<^verbatim>\<open>kickRender\<close>, with which every mutation ends.\<close>

definition refresh :: "faults \<Rightarrow> server \<Rightarrow> server" where
  "refresh f sv = sv\<lparr>sv_mem := reloadState f (sv_db sv) (sv_mem sv), sv_kick := True\<rparr>"

section \<open>Device handlers\<close>

definition no_fields :: patch where
  "no_fields = \<lparr>p_IP = None, p_Name = None, p_NameSource = None, p_Vendor = None, p_Link = None, p_Notes = None\<rparr>"

definition blank_device :: device where
  "blank_device = \<lparr>d_MAC = [], d_IP = [], d_Name = [], d_NameSource = [], d_Vendor = [], d_Link = [], d_Notes = [],
     d_CreatedAt = 0, d_UpdatedAt = 0, d_Probes = [], d_IcmpSeen = False, d_LastSeenUp = 0, d_LastSeen = 0\<rparr>"

definition handleTrackDevice :: "(nat \<Rightarrow> faults) \<Rightarrow> int \<Rightarrow> track_body option \<Rightarrow> server \<Rightarrow> response \<times> job list \<times> server" where
  "handleTrackDevice fs t body sv =
     (case body of
        None \<Rightarrow> (Fail 400 Bad_json, [], sv)
      | Some b \<Rightarrow>
          if \<not> macRe (tb_MAC b) then (Fail 400 Invalid_mac, [], sv)
          else if tb_IP b \<noteq> [] \<and> \<not> validIP (tb_IP b) then (Fail 400 Invalid_ip, [], sv)
          else
            let name = clampName (tb_Name b) in
            case store_Add (fs 0) t (blank_device\<lparr>d_MAC := tb_MAC b, d_IP := tb_IP b, d_Name := name\<rparr>) (sv_db sv) of
              (Some e, db1) \<Rightarrow> (Fail 500 (Store_failed e), [], sv\<lparr>sv_db := db1\<rparr>)
            | (None, db1) \<Rightarrow>
                let mac = NormMAC (tb_MAC b);
                    db2 = snd (store_DeleteObserved (fs 1) mac db1);
                    db3 = (if tb_Manual b \<and> name \<noteq> []
                           then snd (store_Patch (fs 2) t mac (no_fields\<lparr>p_NameSource := Some ''manual''\<rparr>) db2) else db2)
                in (Done 201, if tb_IP b \<noteq> [] then [Resolve_async mac (tb_IP b)] else [],
                    refresh (fs 3) (sv\<lparr>sv_db := db3, sv_mem := forgetObserved mac (sv_mem sv)\<rparr>)))"

definition body_patch :: "patch_body \<Rightarrow> patch" where
  "body_patch b = no_fields\<lparr>p_Name := map_option clampName (pb_Name b), p_Link := pb_Link b, p_Notes := pb_Notes b,
     p_IP := pb_IP b, p_NameSource := (if pb_Name b \<noteq> None then Some ''manual'' else None)\<rparr>"

text \<open>The common end of a handler with one store call: its error is a 500.\<close>

definition finish :: "nat \<Rightarrow> faults \<Rightarrow> store_error option \<times> db \<Rightarrow> server \<Rightarrow> response \<times> job list \<times> server" where
  "finish code f r sv = (case r of
       (Some e, db1) \<Rightarrow> (Fail 500 (Store_failed e), [], sv\<lparr>sv_db := db1\<rparr>)
     | (None, db1) \<Rightarrow> (Done code, [], refresh f (sv\<lparr>sv_db := db1\<rparr>)))"

definition handlePatchDevice :: "(nat \<Rightarrow> faults) \<Rightarrow> int \<Rightarrow> string \<Rightarrow> patch_body option \<Rightarrow> server \<Rightarrow> response \<times> job list \<times> server" where
  "handlePatchDevice fs t mac body sv =
     (case body of None \<Rightarrow> (Fail 400 Bad_json, [], sv)
      | Some b \<Rightarrow> finish 200 (fs 1) (store_Patch (fs 0) t mac (body_patch b) (sv_db sv)) sv)"

definition handleUntrackDevice :: "(nat \<Rightarrow> faults) \<Rightarrow> string \<Rightarrow> server \<Rightarrow> response \<times> job list \<times> server" where
  "handleUntrackDevice fs mac sv = finish 204 (fs 1) (store_Delete (fs 0) mac (sv_db sv)) sv"

definition handleAddProbe :: "(nat \<Rightarrow> faults) \<Rightarrow> string \<Rightarrow> int option \<Rightarrow> server \<Rightarrow> response \<times> job list \<times> server" where
  "handleAddProbe fs mac body sv =
     (case body of None \<Rightarrow> (Fail 400 Invalid_port, [], sv)
      | Some port \<Rightarrow> if port < 1 \<or> port > 65535 then (Fail 400 Invalid_port, [], sv)
          else finish 201 (fs 1) (store_AddProbe (fs 0) mac port (sv_db sv)) sv)"

definition handleDeleteProbe :: "(nat \<Rightarrow> faults) \<Rightarrow> string \<Rightarrow> string \<Rightarrow> server \<Rightarrow> response \<times> job list \<times> server" where
  "handleDeleteProbe fs mac port sv =
     (case Atoi port of None \<Rightarrow> (Fail 400 Invalid_port, [], sv)
      | Some p \<Rightarrow> finish 204 (fs 1) (store_DeleteProbe (fs 0) mac p (sv_db sv)) sv)"

section \<open>Name resolution\<close>

text \<open>A failed \<^verbatim>\<open>Get\<close> reads as "no such device": its error is dropped.\<close>

definition resolve_patch :: "device option \<Rightarrow> name_result \<Rightarrow> patch" where
  "resolve_patch dev res =
     (let p = no_fields\<lparr>p_Vendor := (if nr_Vendor res \<noteq> [] then Some (nr_Vendor res) else None)\<rparr>
      in if nr_Name res \<noteq> [] \<and> (case dev of None \<Rightarrow> True | Some d \<Rightarrow> d_NameSource d \<noteq> ''manual'')
         then p\<lparr>p_Name := Some (nr_Name res), p_NameSource := Some (nr_Source res)\<rparr> else p)"

definition applyResolve :: "faults \<Rightarrow> faults \<Rightarrow> int \<Rightarrow> string \<Rightarrow> name_result \<Rightarrow> db \<Rightarrow> db" where
  "applyResolve f g t mac res db =
     (let dev = (case store_Get f mac db of Inl e \<Rightarrow> None | Inr d \<Rightarrow> d)
      in snd (store_Patch g t mac (resolve_patch dev res) db))"

definition resolve_name :: "api_env \<Rightarrow> string \<Rightarrow> string \<Rightarrow> name_result option" where
  "resolve_name env ip mac = naming_Resolve (ae_vendors env) (ae_rdns env (lanResolver env)) (ae_nbstat env) ip mac"

definition handleResolve :: "(nat \<Rightarrow> faults) \<Rightarrow> int \<Rightarrow> api_env \<Rightarrow> string \<Rightarrow> server \<Rightarrow> response \<times> job list \<times> server" where
  "handleResolve fs t env path sv =
     (let mac = NormMAC path in
      case store_Get (fs 0) mac (sv_db sv) of
        Inl e \<Rightarrow> (Fail 500 (Store_failed e), [], sv)
      | Inr None \<Rightarrow> (Fail 404 Unknown_device, [], sv)
      | Inr (Some dev) \<Rightarrow> (case resolve_name env (d_IP dev) (d_MAC dev) of
            None \<Rightarrow> (Fail 500 Handler_panic, [], sv)
          | Some res \<Rightarrow> (Done 200, [], refresh (fs 3)
              (sv\<lparr>sv_db := applyResolve (fs 1) (fs 2) t mac res (sv_db sv)\<rparr>))))"

definition resolveAsync :: "(nat \<Rightarrow> faults) \<Rightarrow> int \<Rightarrow> api_env \<Rightarrow> string \<Rightarrow> string \<Rightarrow> server \<Rightarrow> server option" where
  "resolveAsync fs t env mac ip sv = (case resolve_name env ip mac of None \<Rightarrow> None
     | Some res \<Rightarrow> Some (refresh (fs 2) (sv\<lparr>sv_db := applyResolve (fs 0) (fs 1) t mac res (sv_db sv)\<rparr>)))"

section \<open>Scans\<close>

definition handleScan :: "api_env \<Rightarrow> string option \<Rightarrow> server \<Rightarrow> response \<times> job list \<times> server" where
  "handleScan env body sv =
     (case body of None \<Rightarrow> (Fail 400 Bad_json, [], sv)
      | Some cidr \<Rightarrow> (case Validate cidr (ae_lan env) of
            Some e \<Rightarrow> (Fail 400 (Scan_invalid e), [], sv)
          | None \<Rightarrow> if sv_scanning sv then (Fail 409 Scan_running, [], sv)
              else (Done 202, [Run_scan cidr], sv\<lparr>sv_scanning := True\<rparr>)))"

datatype scan_outcome = Scan_failed | Scan_done "cache_view list"

text \<open>
  \<^verbatim>\<open>runScan\<close>: the sweep, the names of the untracked hosts it found, the results. \<open>None\<close>: the sweep
  does not return. The flag is cleared by the deferred function on every return.
\<close>

definition scan_row :: "vendor_table \<Rightarrow> (string \<Rightarrow> string) \<Rightarrow> entry \<Rightarrow> cache_view" where
  "scan_row vendors names e = \<lparr>cv_IP = e_IP e, cv_MAC = e_MAC e, cv_Name = names (e_IP e),
     cv_Vendor = oui_lookup vendors (e_MAC e), cv_State = e_State e, cv_Seen = ''new''\<rparr>"

definition runScan :: "api_env \<Rightarrow> (nat \<Rightarrow> bool) \<Rightarrow> (string \<Rightarrow> string) \<Rightarrow> int \<Rightarrow> string \<Rightarrow> bool \<Rightarrow> entry list option \<Rightarrow>
    name_cache \<times> server \<Rightarrow> (scan_outcome \<times> name_cache \<times> server) option" where
  "runScan env early lookup now cidr cancelled arp = (\<lambda>(cache, sv).
     case Sweep cidr cancelled arp of
       None \<Rightarrow> None
     | Some (Swept entries) \<Rightarrow>
         let found = filter (\<lambda>e. e_MAC e \<notin> tracked (sv_mem sv)) entries;
             cache1 = fst (resolveNames early lookup now (map e_IP found) cache)
         in Some (Scan_done (map (scan_row (ae_vendors env) (cachedName now cache1)) found), cache1,
                  sv\<lparr>sv_scanning := False, sv_kick := True\<rparr>)
     | Some _ \<Rightarrow> Some (Scan_failed, cache, sv\<lparr>sv_scanning := False\<rparr>))"

section \<open>Views on request\<close>

text \<open>The two \<^verbatim>\<open>GET\<close> handlers build the views afresh; the cache view remembers the hosts it shows.\<close>

definition handleListDevices :: "vendor_table \<Rightarrow> int \<Rightarrow> server \<Rightarrow> device_view list" where
  "handleListDevices vendors now sv = buildDevices vendors now (sv_mem sv)"

definition handleCache :: "view_env \<Rightarrow> string list \<Rightarrow> int \<Rightarrow> entry list option \<Rightarrow> server \<Rightarrow> cache_view list \<times> server" where
  "handleCache env ks now entries sv =
     (let (rows, s) = buildCache env ks now (snd (neighSnapshot entries)) (sv_mem sv)
      in (rows, sv\<lparr>sv_mem := s\<rparr>))"

section \<open>The API\<close>

datatype request =
    Req_track "track_body option"
  | Req_patch string "patch_body option"
  | Req_untrack string
  | Req_add_probe string "int option"
  | Req_delete_probe string string
  | Req_resolve string
  | Req_scan "string option"

fun serve :: "api_env \<Rightarrow> (nat \<Rightarrow> faults) \<Rightarrow> int \<Rightarrow> request \<Rightarrow> server \<Rightarrow> response \<times> job list \<times> server" where
  "serve env fs t (Req_track body) sv = handleTrackDevice fs t body sv"
| "serve env fs t (Req_patch mac body) sv = handlePatchDevice fs t mac body sv"
| "serve env fs t (Req_untrack mac) sv = handleUntrackDevice fs mac sv"
| "serve env fs t (Req_add_probe mac body) sv = handleAddProbe fs mac body sv"
| "serve env fs t (Req_delete_probe mac port) sv = handleDeleteProbe fs mac port sv"
| "serve env fs t (Req_resolve mac) sv = handleResolve fs t env mac sv"
| "serve env fs t (Req_scan body) sv = handleScan env body sv"

end
