(* ===== verification/ApiSpecs.thy ===== *)
theory ApiSpecs
  imports Api JournalSpecs
begin

text \<open>
  The contract of the API: an abstract registry of devices and watchdogs that every accepted
  request steps and every refused one leaves alone, what a refusal can change at all, and that
  after an accepted mutation the in-memory model shows what the store holds.
\<close>

section \<open>The abstract registry\<close>

record cfg =
  c_IP :: string
  c_Name :: string
  c_Source :: string
  c_Vendor :: string
  c_Link :: string
  c_Notes :: string

type_synonym registry = "(string \<Rightarrow> cfg option) \<times> (string \<times> int) set"

definition abs_row :: "dev_row \<Rightarrow> cfg" where
  "abs_row r = \<lparr>c_IP = r_ip r, c_Name = r_name r, c_Source = r_name_source r, c_Vendor = r_vendor r,
     c_Link = r_link r, c_Notes = r_notes r\<rparr>"

definition abs_db :: "db \<Rightarrow> registry" where
  "abs_db db = (\<lambda>m. map_option abs_row (dev_at db m), set (t_probes db))"

definition spec_track :: "track_body \<Rightarrow> registry \<Rightarrow> registry" where
  "spec_track b = (\<lambda>(reg, ports).
     let m = NormMAC (tb_MAC b); n = clampName (tb_Name b);
         shown = (if n = [] then tb_IP b else n);
         c = (case reg m of
            None \<Rightarrow> \<lparr>c_IP = tb_IP b, c_Name = shown, c_Source = [], c_Vendor = [], c_Link = [], c_Notes = []\<rparr>
          | Some c \<Rightarrow> c\<lparr>c_IP := tb_IP b, c_Name := (if c_Name c = [] then shown else c_Name c)\<rparr>)
     in (reg(m \<mapsto> (if tb_Manual b \<and> n \<noteq> [] then c\<lparr>c_Source := ''manual''\<rparr> else c)), ports))"

definition spec_patch :: "string \<Rightarrow> patch_body \<Rightarrow> registry \<Rightarrow> registry" where
  "spec_patch path b = (\<lambda>(reg, ports).
     (reg(NormMAC path := map_option (\<lambda>c.
        let c1 = (case pb_Name b of None \<Rightarrow> c | Some n \<Rightarrow> c\<lparr>c_Name := clampName n, c_Source := ''manual''\<rparr>);
            c2 = (case pb_Link b of None \<Rightarrow> c1 | Some l \<Rightarrow> c1\<lparr>c_Link := l\<rparr>);
            c3 = (case pb_Notes b of None \<Rightarrow> c2 | Some n \<Rightarrow> c2\<lparr>c_Notes := n\<rparr>)
        in (case pb_IP b of None \<Rightarrow> c3 | Some ip \<Rightarrow> c3\<lparr>c_IP := ip\<rparr>)) (reg (NormMAC path))), ports))"

definition spec_untrack :: "string \<Rightarrow> registry \<Rightarrow> registry" where
  "spec_untrack path = (\<lambda>(reg, ports). (reg(NormMAC path := None), {(m, p) \<in> ports. m \<noteq> NormMAC path}))"

text \<open>A resolved vendor is taken when there is one; a resolved name unless the user chose one.\<close>

definition spec_resolve :: "api_env \<Rightarrow> string \<Rightarrow> registry \<Rightarrow> registry" where
  "spec_resolve env path = (\<lambda>(reg, ports).
     (reg(NormMAC path := map_option (\<lambda>c.
        case resolve_name env (c_IP c) (NormMAC path) of None \<Rightarrow> c
        | Some res \<Rightarrow>
            let c1 = (if nr_Vendor res = [] then c else c\<lparr>c_Vendor := nr_Vendor res\<rparr>)
            in if nr_Name res = [] \<or> c_Source c = ''manual'' then c1
               else c1\<lparr>c_Name := nr_Name res, c_Source := nr_Source res\<rparr>) (reg (NormMAC path))), ports))"

fun spec :: "api_env \<Rightarrow> request \<Rightarrow> registry \<Rightarrow> registry" where
  "spec env (Req_track (Some b)) g = spec_track b g"
| "spec env (Req_patch path (Some b)) g = spec_patch path b g"
| "spec env (Req_untrack path) g = spec_untrack path g"
| "spec env (Req_add_probe path (Some port)) g = (fst g, insert (NormMAC path, port) (snd g))"
| "spec env (Req_delete_probe path port) g =
     (case Atoi port of None \<Rightarrow> g | Some p \<Rightarrow> (fst g, snd g - {(NormMAC path, p)}))"
| "spec env (Req_resolve path) g = spec_resolve env path g"
| "spec env _ g = g"

section \<open>Each mutation steps the registry\<close>

lemma abs_Patch:
  assumes "store_Patch f t m p db = (None, db')"
  shows "abs_db db' = (\<lambda>k. if k = NormMAC m then map_option (\<lambda>r. abs_row (if empty_patch p then r else patch_row t p r)) (dev_at db k)
      else map_option abs_row (dev_at db k), set (t_probes db))"
  using dev_at_Patch [OF assms] by (auto simp: abs_db_def fun_eq_iff option.map_comp comp_def split: if_splits)

lemma abs_patch_row: "abs_row (if empty_patch p then r else patch_row t p r) = (abs_row r)\<lparr>
    c_IP := set_col (p_IP p) (r_ip r), c_Name := set_col (p_Name p) (r_name r),
    c_Source := set_col (p_NameSource p) (r_name_source r), c_Vendor := set_col (p_Vendor p) (r_vendor r),
    c_Link := set_col (p_Link p) (r_link r), c_Notes := set_col (p_Notes p) (r_notes r)\<rparr>"
  by (auto simp: abs_row_def patch_row_def empty_patch_def set_col_def)

lemma store_Patch_ok: "\<forall>k. \<not> f k \<Longrightarrow> store_Patch f t m p db = (None, snd (store_Patch f t m p db))"
  by (simp add: store_Patch_def)

lemma abs_Patch_ok:
  assumes "\<forall>k. \<not> f k"
  shows "abs_db (snd (store_Patch f t m p db)) = (\<lambda>k. if k = NormMAC m then map_option (\<lambda>r. (abs_row r)\<lparr>
      c_IP := set_col (p_IP p) (r_ip r), c_Name := set_col (p_Name p) (r_name r),
      c_Source := set_col (p_NameSource p) (r_name_source r), c_Vendor := set_col (p_Vendor p) (r_vendor r),
      c_Link := set_col (p_Link p) (r_link r), c_Notes := set_col (p_Notes p) (r_notes r)\<rparr>) (dev_at db k)
    else map_option abs_row (dev_at db k), set (t_probes db))"
  by (simp only: abs_Patch [OF store_Patch_ok [OF assms]] abs_patch_row)

lemma abs_Add:
  assumes "store_Add f t d db = (None, db')"
  shows "abs_db db' = (\<lambda>k. if k = NormMAC (d_MAC d) then Some (case dev_at db k of
        None \<Rightarrow> abs_row (new_row t (d\<lparr>d_Name := (if d_Name d = [] then d_IP d else d_Name d)\<rparr>))
      | Some r \<Rightarrow> (abs_row r)\<lparr>c_IP := d_IP d,
          c_Name := (if r_name r = [] then (if d_Name d = [] then d_IP d else d_Name d) else r_name r)\<rparr>)
    else map_option abs_row (dev_at db k), set (t_probes db))"
  using dev_at_Add [OF assms]
  by (auto simp: abs_db_def fun_eq_iff Let_def abs_row_def new_row_def merge_device_def split: option.splits)

lemma abs_DeleteObserved [simp]: "abs_db (snd (store_DeleteObserved f m db)) = abs_db db"
  by (simp add: abs_db_def store_DeleteObserved_def dev_at_def)

lemma dev_at_DeleteObserved [simp]: "dev_at (snd (store_DeleteObserved f m db)) = dev_at db"
  "t_probes (snd (store_DeleteObserved f m db)) = t_probes db"
  by (simp_all add: fun_eq_iff store_DeleteObserved_def dev_at_def)

lemma refresh_db [simp]: "sv_db (refresh f sv) = sv_db sv" "sv_kick (refresh f sv)" "sv_scanning (refresh f sv) = sv_scanning sv"
  by (simp_all add: refresh_def)

lemma set_col_simps [simp]: "set_col None x = x" "set_col (Some y) x = y"
  by (simp_all add: set_col_def)

lemma track_refines:
  assumes "\<forall>i k. \<not> fs i k" and "handleTrackDevice fs t (Some b) sv = (resp, jobs, sv')"
  shows "abs_db (sv_db sv') = (case resp of Done _ \<Rightarrow> spec_track b (abs_db (sv_db sv)) | Fail _ _ \<Rightarrow> abs_db (sv_db sv))"
proof -
  let ?d = "blank_device\<lparr>d_MAC := tb_MAC b, d_IP := tb_IP b, d_Name := clampName (tb_Name b)\<rparr>"
  let ?p = "no_fields\<lparr>p_NameSource := Some ''manual''\<rparr>"
  obtain r db1 where add: "store_Add (fs 0) t ?d (sv_db sv) = (r, db1)" by (cases "store_Add (fs 0) t ?d (sv_db sv)")
  consider "\<not> macRe (tb_MAC b) \<or> tb_IP b \<noteq> [] \<and> \<not> validIP (tb_IP b)"
    | e where "macRe (tb_MAC b)" "tb_IP b = [] \<or> validIP (tb_IP b)" "r = Some e"
    | "macRe (tb_MAC b)" "tb_IP b = [] \<or> validIP (tb_IP b)" "r = None" by (cases r) auto
  then show ?thesis
  proof cases
    case 1
    then show ?thesis using assms(2) by (auto simp: handleTrackDevice_def split: if_splits)
  next
    case 2
    then have "db1 = sv_db sv" using add by (auto simp: store_Add_def Let_def split: if_splits)
    then show ?thesis using 2 assms(2) add by (auto simp: handleTrackDevice_def Let_def)
  next
    case 3
    let ?db2 = "snd (store_DeleteObserved (fs 1) (NormMAC (tb_MAC b)) db1)"
    let ?m = "tb_Manual b \<and> clampName (tb_Name b) \<noteq> []"
    have "sv_db sv' = (if ?m then snd (store_Patch (fs 2) t (NormMAC (tb_MAC b)) ?p ?db2) else ?db2)" "resp = Done 201"
      using 3 assms(2) add by (auto simp: handleTrackDevice_def Let_def)
    moreover have a: "abs_db db1 = abs_db ?db2" by simp
    moreover note abs_Add [OF add [unfolded 3(3)]]
    moreover have "dev_at db1 k = dev_at ?db2 k" for k by simp
    moreover have "abs_db (snd (store_Patch (fs 2) t (NormMAC (tb_MAC b)) ?p ?db2)) =
        (\<lambda>k. if k = NormMAC (tb_MAC b) then map_option (\<lambda>c. c\<lparr>c_Source := ''manual''\<rparr>) (fst (abs_db db1) k) else fst (abs_db db1) k,
         snd (abs_db db1))"
      using assms(1) by (subst abs_Patch_ok) (auto simp: fun_eq_iff abs_db_def no_fields_def abs_row_def option.map_comp comp_def)
    ultimately show ?thesis
      by (auto simp: spec_track_def Let_def abs_db_def [of "sv_db sv"] fun_eq_iff blank_device_def new_row_def abs_row_def split: option.splits)
  qed
qed

lemma patch_refines:
  assumes "\<forall>i k. \<not> fs i k" and "handlePatchDevice fs t m (Some b) sv = (resp, jobs, sv')"
  shows "abs_db (sv_db sv') = (case resp of Done _ \<Rightarrow> spec_patch m b (abs_db (sv_db sv)) | Fail _ _ \<Rightarrow> abs_db (sv_db sv))"
proof -
  have ok: "store_Patch (fs 0) t m (body_patch b) (sv_db sv) = (None, snd (store_Patch (fs 0) t m (body_patch b) (sv_db sv)))"
    using assms(1) by (intro store_Patch_ok) simp
  have "resp = Done 200" "sv_db sv' = snd (store_Patch (fs 0) t m (body_patch b) (sv_db sv))"
    using assms(2) ok by (auto simp: handlePatchDevice_def finish_def split: prod.splits)
  then show ?thesis using assms(1)
    by (simp add: abs_Patch_ok) (auto simp: spec_patch_def abs_db_def fun_eq_iff body_patch_def no_fields_def Let_def abs_row_def
        set_col_def option.map_comp comp_def intro!: option.map_cong split: option.splits)
qed

lemma untrack_refines:
  assumes "\<forall>i k. \<not> fs i k" and "handleUntrackDevice fs m sv = (resp, jobs, sv')"
  shows "abs_db (sv_db sv') = (case resp of Done _ \<Rightarrow> spec_untrack m (abs_db (sv_db sv)) | Fail _ _ \<Rightarrow> abs_db (sv_db sv))"
proof -
  obtain db' where ok: "store_Delete (fs 0) m (sv_db sv) = (None, db')"
    using assms(1) by (auto simp: store_Delete_def delete_statements_def)
  then have "resp = Done 204" "sv_db sv' = db'"
    using assms(2) by (auto simp: handleUntrackDevice_def finish_def)
  then show ?thesis using dev_at_Delete [OF ok] by (auto simp: spec_untrack_def abs_db_def fun_eq_iff)
qed

lemma probes_refine:
  assumes "\<forall>i k. \<not> fs i k"
  shows "handleAddProbe fs m (Some port) sv = (resp, jobs, sv') \<Longrightarrow> abs_db (sv_db sv') =
      (case resp of Done _ \<Rightarrow> (fst (abs_db (sv_db sv)), insert (NormMAC m, port) (snd (abs_db (sv_db sv)))) | Fail _ _ \<Rightarrow> abs_db (sv_db sv))"
    and "handleDeleteProbe fs m path sv = (resp, jobs, sv') \<Longrightarrow> abs_db (sv_db sv') =
      (case resp of Done _ \<Rightarrow> spec env (Req_delete_probe m path) (abs_db (sv_db sv)) | Fail _ _ \<Rightarrow> abs_db (sv_db sv))"
  using assms
  by (auto simp: handleAddProbe_def handleDeleteProbe_def finish_def store_AddProbe_def store_DeleteProbe_def abs_db_def
      dev_at_def insert_or_ignore_def delete_where_def split: if_splits option.splits)

lemma resolve_name_Some: "\<exists>r. resolve_name env ip mac = Some r"
  unfolding resolve_name_def by (rule naming_Resolve_Some)

lemma resolve_refines:
  assumes "wf_db (sv_db sv)" and "\<forall>i k. \<not> fs i k" and "handleResolve fs t env path sv = (resp, jobs, sv')"
  shows "abs_db (sv_db sv') = (case resp of Done _ \<Rightarrow> spec_resolve env path (abs_db (sv_db sv)) | Fail _ _ \<Rightarrow> abs_db (sv_db sv))"
proof -
  let ?m = "NormMAC path" and ?db = "sv_db sv"
  have get: "store_Get (fs i) ?m ?db = Inr (map_option (row_device ?db) (dev_at ?db ?m))" for i
    using Get_ok [OF assms(1), of "fs i" ?m] assms(2) by simp
  show ?thesis
  proof (cases "dev_at ?db ?m")
    case None
    then show ?thesis using assms(3) get [of 0] by (auto simp: handleResolve_def Let_def)
  next
    case (Some r)
    then have r: "r_mac r = ?m" using wf_dev_at [OF assms(1) Some] by simp
    obtain res where res: "resolve_name env (r_ip r) ?m = Some res"
      using resolve_name_Some by blast
    have dev: "d_IP (row_device ?db r) = r_ip r" "d_MAC (row_device ?db r) = ?m" "d_NameSource (row_device ?db r) = r_name_source r"
      by (simp_all add: row_device_def r)
    have "resp = Done 200" "sv_db sv' = snd (store_Patch (fs 2) t ?m (resolve_patch (Some (row_device ?db r)) res) ?db)"
      using assms(3) get [of 0] get [of 1] Some dev res by (auto simp: handleResolve_def Let_def applyResolve_def)
    then show ?thesis using assms(2) Some res dev(3)
      by (simp add: abs_Patch_ok) (auto simp: spec_resolve_def abs_db_def fun_eq_iff resolve_patch_def no_fields_def Let_def abs_row_def)
  qed
qed

lemma bad_body:
  assumes "req = Req_track None \<or> req = Req_patch m None \<or> req = Req_add_probe m None"
    and "serve env fs t req sv = (resp, jobs, sv')"
  shows "sv' = sv \<and> (\<exists>c e. resp = Fail c e)"
  using assms by (auto simp: handleTrackDevice_def handlePatchDevice_def handleAddProbe_def)

text \<open>
  The API implements the registry. When the database works, every request acts on the stored
  devices and watchdogs exactly as its abstract step says when it is accepted, and not at all
  when it is refused: a track keeps a device's earlier name and config and takes the new
  address, a patch changes what it names, a resolve never replaces a name the user chose.
\<close>

theorem api_refines_registry:
  assumes "wf_db (sv_db sv)" and "\<forall>i k. \<not> fs i k" and "serve env fs t req sv = (resp, jobs, sv')"
  shows "abs_db (sv_db sv') =
    (case resp of Done _ \<Rightarrow> spec env req (abs_db (sv_db sv)) | Fail _ _ \<Rightarrow> abs_db (sv_db sv))"
proof (cases req)
  case (Req_track body)
  then show ?thesis
    using bad_body [OF _ assms(3)] track_refines [OF assms(2), of t _ sv resp jobs sv'] assms(3)
    by (cases body) (auto split: response.splits)
next
  case (Req_patch m body)
  then show ?thesis
    using bad_body [OF _ assms(3)] patch_refines [OF assms(2), of t m _ sv resp jobs sv'] assms(3)
    by (cases body) (auto split: response.splits)
next
  case (Req_untrack m)
  with untrack_refines [OF assms(2), of m sv resp jobs sv'] assms(3) show ?thesis by (simp split: response.splits)
next
  case (Req_add_probe m body)
  then show ?thesis
    using bad_body [OF _ assms(3)] probes_refine(1) [OF assms(2), of m _ sv resp jobs sv'] assms(3)
    by (cases body) (auto split: response.splits)
next
  case (Req_delete_probe m path)
  with probes_refine(2) [OF assms(2), of m path sv resp jobs sv' env] assms(3) show ?thesis by (simp split: response.splits)
next
  case (Req_resolve path)
  with resolve_refines [OF assms(1,2), of t env path resp jobs sv'] assms(3) show ?thesis by (simp split: response.splits)
next
  case (Req_scan body)
  then show ?thesis using assms(3) by (auto simp: handleScan_def split: option.splits if_splits response.splits)
qed

section \<open>Refusals\<close>

definition code_of :: "api_error \<Rightarrow> nat" where
  "code_of e = (case e of Store_failed _ \<Rightarrow> 500 | Handler_panic \<Rightarrow> 500 | Unknown_device \<Rightarrow> 404 | Scan_running \<Rightarrow> 409 | _ \<Rightarrow> 400)"

lemma dev_at_failed:
  "store_Add f t d db = (Some e, db') \<Longrightarrow> db' = db"
  "store_Patch f t m p db = (Some e, db') \<Longrightarrow> db' = db"
  "store_AddProbe f m port db = (Some e, db') \<Longrightarrow> db' = db"
  "store_DeleteProbe f m port db = (Some e, db') \<Longrightarrow> db' = db"
  "store_Delete f m db = (Some e, db') \<Longrightarrow> dev_at db' = dev_at db"
  by (auto simp: store_Add_def store_Patch_def store_AddProbe_def store_DeleteProbe_def store_Delete_def
      delete_statements_def dev_at_def Let_def fun_eq_iff split: if_splits)

lemma finish_Fail:
  assumes "finish code f (r, db1) sv = (Fail c e, jobs, sv')"
  shows "\<exists>x. r = Some x \<and> e = Store_failed x \<and> c = 500 \<and> jobs = [] \<and> sv' = sv\<lparr>sv_db := db1\<rparr>"
  using assms by (auto simp: finish_def split: option.splits)

text \<open>
  C14. A refused request changes nothing. Whatever statements fail, a request answered with an
  error starts no goroutine, leaves the in-memory model, the pending render and the scan flag
  alone, and leaves every device row alone; with a client error (below 500) the whole server is
  unchanged; the status is the one of the error, and no handler panics.
\<close>

theorem refused_requests_change_nothing:
  assumes "serve env fs t req sv = (Fail code e, jobs, sv')"
  shows "jobs = [] \<and> sv' = sv\<lparr>sv_db := sv_db sv'\<rparr> \<and> dev_at (sv_db sv') = dev_at (sv_db sv) \<and>
    (code < 500 \<longrightarrow> sv' = sv) \<and> code = code_of e \<and> e \<noteq> Handler_panic"
proof (cases req)
  case (Req_track body)
  with assms show ?thesis
    by (auto simp: handleTrackDevice_def Let_def code_of_def dest: dev_at_failed split: option.splits prod.splits if_splits)
next
  case (Req_patch m body)
  with assms show ?thesis
    by (cases "store_Patch (fs 0) t m (body_patch (the body)) (sv_db sv)")
      (auto simp: handlePatchDevice_def code_of_def dest!: finish_Fail dest: dev_at_failed split: option.splits)
next
  case (Req_untrack m)
  with assms show ?thesis
    by (cases "store_Delete (fs 0) m (sv_db sv)")
      (auto simp: handleUntrackDevice_def code_of_def dest!: finish_Fail dest: dev_at_failed)
next
  case (Req_add_probe m body)
  with assms show ?thesis
    by (cases "store_AddProbe (fs 0) m (the body) (sv_db sv)")
      (auto simp: handleAddProbe_def code_of_def dest!: finish_Fail dest: dev_at_failed split: option.splits if_splits)
next
  case (Req_delete_probe m path)
  with assms show ?thesis
    by (cases "store_DeleteProbe (fs 0) m (the (Atoi path)) (sv_db sv)")
      (auto simp: handleDeleteProbe_def code_of_def dest!: finish_Fail dest: dev_at_failed split: option.splits)
next
  case (Req_resolve path)
  with assms resolve_name_Some [of env] show ?thesis
    by (auto simp: handleResolve_def code_of_def Let_def split: option.splits sum.splits) (metis option.distinct(1))+
next
  case (Req_scan body)
  with assms show ?thesis by (auto simp: handleScan_def code_of_def split: option.splits if_splits)
qed

section \<open>Accepted mutations show at once\<close>

lemma load_merge_snapshot:
  assumes "wf_devices devs"
  shows "map ds_dev (snapshot (load_merge devs s)) = devs"
proof -
  have d: "s_devs (load_merge devs s) (d_MAC d) = Some (load_dev s d)" if "d \<in> set devs" for d
    using table_map_in [of d_MAC devs d] assms that by (simp add: load_merge_devs [OF assms] wf_devices_def primary_key_def)
  have "map ds_dev (List.map_filter (s_devs (load_merge devs s)) (map d_MAC ds)) = ds" if "set ds \<subseteq> set devs" for ds
    using that d by (induction ds) (auto simp: map_filter_simps)
  from this [of devs] show ?thesis by (simp add: snapshot_def)
qed

lemma reload_shows_store:
  assumes "wf_db db" and "\<forall>k. \<not> f k"
  shows "store_List f db = Inr (map ds_dev (snapshot (reloadState f db s)))"
proof -
  obtain devs where l: "store_List f db = Inr devs" using List_ok [OF assms] by blast
  then have "wf_devices devs" by (rule store_List_wf [OF assms(1)])
  from load_merge_snapshot [OF this] show ?thesis by (simp add: reloadState_def state_Load_def l)
qed

lemma wf_serve:
  assumes "wf_db (sv_db sv)" and "serve env fs t req sv = (resp, jobs, sv')"
  shows "wf_db (sv_db sv')"
proof -
  have fin: "wf_db (sv_db s2)" if "finish c f r s1 = (x, j, s2)" "wf_db (snd r)" for c f r s1 x j s2
    using that by (auto simp: finish_def split: prod.splits option.splits)
  have add: "wf_db db1" if "store_Add f t d (sv_db sv) = (r, db1)" for f t d r db1
    using wf_Add [OF assms(1), of f t d] that by simp
  show ?thesis using assms
  proof (cases req)
    case (Req_track body)
    then show ?thesis using assms add
      by (auto simp: handleTrackDevice_def Let_def intro!: wf_Patch wf_observed split: option.splits prod.splits if_splits)
  qed (auto simp: handlePatchDevice_def handleUntrackDevice_def handleAddProbe_def handleDeleteProbe_def handleResolve_def
      handleScan_def applyResolve_def Let_def intro!: wf_Patch elim!: fin split: option.splits sum.splits if_splits
      intro: wf_Patch wf_Delete wf_probes)
qed

lemma finish_refresh: "finish c f r sv = (Done code, jobs, sv') \<Longrightarrow> \<exists>x. sv' = refresh f x \<and> sv_scanning x = sv_scanning sv"
  by (auto simp: finish_def split: prod.splits option.splits intro: exI [of _ "sv\<lparr>sv_db := snd r\<rparr>"])

lemma served_refresh:
  assumes "serve env fs t req sv = (Done code, jobs, sv')"
  shows "(\<exists>i x. sv' = refresh (fs i) x \<and> sv_scanning x = sv_scanning sv) \<or> (\<exists>b. req = Req_scan b)"
proof (cases req)
  case (Req_track body)
  then show ?thesis using assms
    by (auto simp: handleTrackDevice_def Let_def split: option.splits prod.splits if_splits) fastforce+
next
  case (Req_resolve path)
  then show ?thesis using assms
    by (auto simp: handleResolve_def Let_def split: option.splits sum.splits) fastforce+
next
  case (Req_patch m body)
  then obtain b where "finish 200 (fs 1) (store_Patch (fs 0) t m (body_patch b) (sv_db sv)) sv = (Done code, jobs, sv')"
    using assms by (auto simp: handlePatchDevice_def split: option.splits)
  from finish_refresh [OF this] show ?thesis by blast
next
  case (Req_untrack m)
  then have "finish 204 (fs 1) (store_Delete (fs 0) m (sv_db sv)) sv = (Done code, jobs, sv')"
    using assms by (simp add: handleUntrackDevice_def)
  from finish_refresh [OF this] show ?thesis by blast
next
  case (Req_add_probe m body)
  then obtain port where "finish 201 (fs 1) (store_AddProbe (fs 0) m port (sv_db sv)) sv = (Done code, jobs, sv')"
    using assms by (auto simp: handleAddProbe_def split: option.splits if_splits)
  from finish_refresh [OF this] show ?thesis by blast
next
  case (Req_delete_probe m path)
  then obtain port where "finish 204 (fs 1) (store_DeleteProbe (fs 0) m port (sv_db sv)) sv = (Done code, jobs, sv')"
    using assms by (auto simp: handleDeleteProbe_def split: option.splits)
  from finish_refresh [OF this] show ?thesis by blast
qed simp

text \<open>
  C27. An accepted mutation shows at once. When the database works, after any accepted request
  other than a scan the in-memory model lists exactly the devices the store does, in display
  order and with their watchdogs, and a render is due; a scan instead takes the single-flight
  flag, which no other request does, and starts one sweep.
\<close>

theorem accepted_mutation_shows:
  assumes "wf_db (sv_db sv)" and "\<forall>i k. \<not> fs i k" and "serve env fs t req sv = (Done code, jobs, sv')"
  shows "case req of Req_scan (Some cidr) \<Rightarrow> \<not> sv_scanning sv \<and> jobs = [Run_scan cidr] \<and> sv' = sv\<lparr>sv_scanning := True\<rparr>
    | _ \<Rightarrow> store_List (fs 0) (sv_db sv') = Inr (map ds_dev (snapshot (sv_mem sv'))) \<and> sv_kick sv' \<and>
        sv_scanning sv' = sv_scanning sv"
proof -
  have nf: "\<forall>k. \<not> f k" if "f = fs i" for f i using assms(2) that by simp
  have same: "store_List (fs 0) db = store_List (fs i) db" for i db
  proof -
    have "fs 0 = fs i" using assms(2) by (simp add: fun_eq_iff)
    then show ?thesis by simp
  qed
  have w: "wf_db (sv_db sv')" by (rule wf_serve [OF assms(1,3)])
  have ref: "store_List (fs 0) (sv_db sv') = Inr (map ds_dev (snapshot (sv_mem sv'))) \<and> sv_kick sv' \<and> sv_scanning sv' = sv_scanning x"
    if "sv' = refresh (fs i) x" for i x
  proof -
    have "sv_db sv' = sv_db x" "sv_mem sv' = reloadState (fs i) (sv_db x) (sv_mem x)" using that by (simp_all add: refresh_def)
    with reload_shows_store [OF w, of "fs i" "sv_mem x"] same [of "sv_db sv'" i] assms(2) that show ?thesis by simp
  qed
  from served_refresh [OF assms(3)] show ?thesis
  proof
    assume "\<exists>i x. sv' = refresh (fs i) x \<and> sv_scanning x = sv_scanning sv"
    then obtain i x where "sv' = refresh (fs i) x" "sv_scanning x = sv_scanning sv" by blast
    with ref [OF this(1)] show ?thesis using assms(3) by (cases req) (auto simp: handleScan_def split: option.splits if_splits)
  next
    assume "\<exists>b. req = Req_scan b"
    then show ?thesis using assms(3) by (auto simp: handleScan_def split: option.splits if_splits)
  qed
qed

section \<open>Concrete requests\<close>

definition demo_server :: server where
  "demo_server = \<lparr>sv_db = demo_db, sv_mem = newState, sv_kick = False, sv_scanning = False\<rparr>"

definition demo_env :: api_env where
  "demo_env = \<lparr>ae_resolver = [], ae_gateway = ''10.0.0.1'', ae_lan = None, ae_vendors = Map.empty,
     ae_rdns = \<lambda>_ _. None, ae_nbstat = \<lambda>_ _. None\<rparr>"

abbreviation no_faults :: "nat \<Rightarrow> faults" where
  "no_faults \<equiv> \<lambda>_ _. False"

lemma demo_serve: "\<exists>sv'. serve demo_env no_faults 9 (Req_add_probe ''m'' (Some 80)) demo_server = (Done 201, [], sv')"
  by (simp add: handleAddProbe_def finish_def store_AddProbe_def)

lemma api_refines_registry_witness:
  "\<exists>sv'. serve demo_env no_faults 9 (Req_add_probe ''m'' (Some 80)) demo_server = (Done 201, [], sv') \<and>
     snd (abs_db (sv_db sv')) = {(''m'', 22), (''m'', 80)}"
proof -
  obtain sv' where s: "serve demo_env no_faults 9 (Req_add_probe ''m'' (Some 80)) demo_server = (Done 201, [], sv')"
    using demo_serve by blast
  have "wf_db (sv_db demo_server)" "\<forall>i k. \<not> no_faults i k" by (simp_all add: demo_server_def wf_demo_db)
  from api_refines_registry [OF this s] have "snd (abs_db (sv_db sv')) = {(''m'', 22), (''m'', 80)}"
    by (simp add: abs_db_def demo_server_def) (auto simp: demo_db_def)
  with s show ?thesis by blast
qed

lemma refused_requests_change_nothing_witness:
  "serve demo_env no_faults 9 (Req_add_probe ''m'' (Some 0)) demo_server = (Fail 400 Invalid_port, [], demo_server)"
proof -
  obtain jobs sv' where s: "serve demo_env no_faults 9 (Req_add_probe ''m'' (Some 0)) demo_server = (Fail 400 Invalid_port, jobs, sv')"
    by (simp add: handleAddProbe_def)
  from refused_requests_change_nothing [OF s] s show ?thesis by simp
qed

lemma accepted_mutation_shows_witness:
  "\<exists>sv'. serve demo_env no_faults 9 (Req_add_probe ''m'' (Some 80)) demo_server = (Done 201, [], sv') \<and> sv_kick sv' \<and>
     store_List (\<lambda>_. False) (sv_db sv') = Inr (map ds_dev (snapshot (sv_mem sv')))"
proof -
  obtain sv' where s: "serve demo_env no_faults 9 (Req_add_probe ''m'' (Some 80)) demo_server = (Done 201, [], sv')"
    using demo_serve by blast
  have "wf_db (sv_db demo_server)" "\<forall>i k. \<not> no_faults i k" by (simp_all add: demo_server_def wf_demo_db)
  from accepted_mutation_shows [OF this s] s show ?thesis by auto
qed

section \<open>A read error during a resolve\<close>

text \<open>
  The hypothesis that the database works is needed for the last clause of the contract: when the
  read inside \<^verbatim>\<open>applyResolve\<close> fails, the device counts as unknown and the resolved name replaces
  the one the user chose.
\<close>

lemma resolve_read_error_clobbers_manual:
  assumes "dev_at db (NormMAC m) = Some r" and "r_name_source r = ''manual''" and "nr_Name res \<noteq> []"
    and "f 0" and "\<forall>k. \<not> g k"
  shows "map_option r_name (dev_at (applyResolve f g t m res db) (NormMAC m)) = Some (nr_Name res)"
proof -
  have ok: "store_Patch g t m (resolve_patch None res) db = (None, snd (store_Patch g t m (resolve_patch None res) db))"
    by (rule store_Patch_ok [OF assms(5)])
  have "applyResolve f g t m res db = snd (store_Patch g t m (resolve_patch None res) db)"
    using assms(4) by (simp add: applyResolve_def store_Get_def)
  with dev_at_Patch [OF ok, of "NormMAC m"] assms(1,3) show ?thesis
    by (auto simp: resolve_patch_def no_fields_def empty_patch_def patch_row_def set_col_def)
qed

section \<open>A scan's results\<close>

lemma runScan_untracked:
  assumes "runScan env early lookup now cidr cancelled arp (cache, sv) = Some (Scan_done rows, cache', sv')"
  shows "\<not> sv_scanning sv' \<and> sv_db sv' = sv_db sv \<and> sv_mem sv' = sv_mem sv \<and>
    (\<forall>r \<in> set rows. cv_MAC r \<notin> tracked (sv_mem sv))"
  using assms by (auto simp: runScan_def scan_row_def Let_def split: option.splits sweep_result.splits)

end
