(* ===== verification/Publish.thy ===== *)
theory Publish
  imports JournalSpecs Devices
begin

text \<open>
  From a mutation to the dashboard: the render loop of \<^verbatim>\<open>server.go\<close> beside everything else that
  touches the model. The kick channel has room for one kick, so a kick is a flag; a handler first
  merges its reload into the model and then kicks; a render folds the neighbour cache, builds the
  device rows and swaps the frames, and the other loops and handlers run between these steps.
  The machine contains the journal machine: its other steps are taken by \<open>Pub_other\<close>.
\<close>

section \<open>The machine\<close>

datatype pub_phase = Pub_idle | Pub_started | Pub_folded | Pub_built "device_view list"

text \<open>
  \<open>pu_owed\<close> counts the handlers between their reload and their kick; \<open>pu_silent\<close> is a ghost: the
  backfill, which reloads without a kick, did so after the rows of the latest render were built.
\<close>

record pub_sys =
  pu_sys :: sys
  pu_kick :: bool
  pu_owed :: nat
  pu_silent :: bool
  pu_phase :: pub_phase
  pu_rows :: "device_view list"

datatype pub_act =
    Pub_other act
  | Pub_reload nat
  | Pub_backfill_reload nat
  | Pub_kick
  | Pub_take
  | Pub_tick
  | Pub_neigh "string list" "string \<Rightarrow> entry option" int
  | Pub_build vendor_table int
  | Pub_swap

definition render_only :: "act \<Rightarrow> bool" where
  "render_only a = (case a of Neigh _ _ _ \<Rightarrow> True | MergeDevices _ \<Rightarrow> True | _ \<Rightarrow> False)"

fun pub_enabled :: "pub_act \<Rightarrow> pub_sys \<Rightarrow> bool" where
  "pub_enabled (Pub_other a) p \<longleftrightarrow> \<not> render_only a \<and> enabled a (pu_sys p)"
| "pub_enabled (Pub_reload i) p \<longleftrightarrow> enabled (MergeDevices i) (pu_sys p)"
| "pub_enabled (Pub_backfill_reload i) p \<longleftrightarrow> enabled (MergeDevices i) (pu_sys p)"
| "pub_enabled Pub_kick p \<longleftrightarrow> True"
| "pub_enabled Pub_take p \<longleftrightarrow> pu_phase p = Pub_idle \<and> pu_kick p"
| "pub_enabled Pub_tick p \<longleftrightarrow> pu_phase p = Pub_idle"
| "pub_enabled (Pub_neigh ks byMAC now) p \<longleftrightarrow> pu_phase p = Pub_started \<and> enabled (Neigh ks byMAC now) (pu_sys p)"
| "pub_enabled (Pub_build vendors now) p \<longleftrightarrow> pu_phase p = Pub_folded"
| "pub_enabled Pub_swap p \<longleftrightarrow> (case pu_phase p of Pub_built rows \<Rightarrow> True | _ \<Rightarrow> False)"

definition after_build :: "pub_phase \<Rightarrow> bool" where
  "after_build ph = (case ph of Pub_started \<Rightarrow> False | Pub_folded \<Rightarrow> False | _ \<Rightarrow> True)"

fun pub_perform :: "pub_act \<Rightarrow> pub_sys \<Rightarrow> pub_sys" where
  "pub_perform (Pub_other a) p = p\<lparr>pu_sys := perform a (pu_sys p)\<rparr>"
| "pub_perform (Pub_reload i) p = p\<lparr>pu_sys := perform (MergeDevices i) (pu_sys p), pu_owed := Suc (pu_owed p)\<rparr>"
| "pub_perform (Pub_backfill_reload i) p = p\<lparr>pu_sys := perform (MergeDevices i) (pu_sys p),
     pu_silent := pu_silent p \<or> after_build (pu_phase p)\<rparr>"
| "pub_perform Pub_kick p = p\<lparr>pu_owed := pu_owed p - 1, pu_kick := True\<rparr>"
| "pub_perform Pub_take p = p\<lparr>pu_kick := False, pu_silent := False, pu_phase := Pub_started\<rparr>"
| "pub_perform Pub_tick p = p\<lparr>pu_silent := False, pu_phase := Pub_started\<rparr>"
| "pub_perform (Pub_neigh ks byMAC now) p = p\<lparr>pu_sys := perform (Neigh ks byMAC now) (pu_sys p), pu_phase := Pub_folded\<rparr>"
| "pub_perform (Pub_build vendors now) p = p\<lparr>pu_phase := Pub_built (buildDevices vendors now (y_mem (pu_sys p)))\<rparr>"
| "pub_perform Pub_swap p = (case pu_phase p of
       Pub_built rows \<Rightarrow> p\<lparr>pu_rows := rows, pu_phase := Pub_idle\<rparr> | _ \<Rightarrow> p)"

inductive pub_step :: "pub_sys \<Rightarrow> pub_sys \<Rightarrow> bool" where
  "pub_enabled a p \<Longrightarrow> pub_step p (pub_perform a p)"

inductive_cases pub_stepE: "pub_step p p'"

text \<open>\<^verbatim>\<open>Run\<close> renders once before it starts the loops.\<close>

definition pub_init :: "pub_sys \<Rightarrow> bool" where
  "pub_init p \<longleftrightarrow> boot (pu_sys p) \<and> \<not> pu_kick p \<and> pu_owed p = 0 \<and> \<not> pu_silent p \<and> pu_phase p = Pub_started \<and> pu_rows p = []"

abbreviation run_pub :: "pub_act list \<Rightarrow> pub_sys \<Rightarrow> pub_sys option" where
  "run_pub \<equiv> run_actions pub_enabled pub_perform"

section \<open>What only a render or a reload changes\<close>

definition config :: "state \<Rightarrow> device list" where
  "config s = map ds_dev (snapshot s)"

lemma config_cong:
  assumes "s_order t = s_order s" and "\<And>mac. map_option ds_dev (s_devs t mac) = map_option ds_dev (s_devs s mac)"
  shows "config t = config s"
proof -
  have "map ds_dev (List.map_filter (s_devs x) ms) = List.map_filter (\<lambda>m. map_option ds_dev (s_devs x m)) ms" for x :: state and ms
    by (induction ms) (auto simp: map_filter_simps split: option.splits)
  then show ?thesis unfolding config_def snapshot_def by (simp only: assms)
qed

lemma load_obs_order [simp]: "s_order (fold load_obs_step xs s) = s_order s"
  by (induction xs arbitrary: s) (simp_all add: load_obs_step_def split: option.splits)

lemma prune_order [simp]: "s_order (pruneObserved ks t s) = s_order s"
  unfolding pruneObserved_def
  by (induction ks arbitrary: s) (simp_all add: prune_step_def forgetObserved_def split: option.splits)

lemma probe_dev_config [simp]: "ds_dev (fst (probe_dev mac part now ds)) = ds_dev ds"
  by (simp add: probe_dev_def Let_def)

lemma config_perform:
  assumes "\<not> render_only a" and "enabled a y"
  shows "config (y_mem (perform a y)) = config (y_mem y)"
proof -
  have id: "map_option ds_dev (map_option g x) = map_option ds_dev x" if "\<And>ds. ds_dev (g ds) = ds_dev ds" for g :: "devState \<Rightarrow> devState" and x
    using that by (cases x) auto
  show ?thesis
  proof (cases a)
    case (Probes ks results now)
    with assms(2) have "distinct ks" by (simp add: enumerates_def)
    then show ?thesis unfolding Probes
      by (auto intro!: config_cong id simp: applyProbes_devs split: option.splits)
  next
    case (Commit f t)
    show ?thesis by (rule commit_cases [OF assms(2) [unfolded Commit]]) (simp_all add: Commit)
  next
    case Restore
    show ?thesis
      by (rule restore_cases [OF assms(2) [unfolded Restore]])
        (auto simp: Restore restore_devs mark_dirty_def intro!: config_cong id)
  qed (use assms in \<open>auto simp: render_only_def drain_devs clearLive_def touchObserved_def forgetObserved_def Let_def
      state_LoadObserved_def split: sum.splits intro!: config_cong id simp del: perform.simps(8)\<close>)
qed

section \<open>The invariant\<close>

definition row_key :: "device_view \<Rightarrow> string \<times> string \<times> string" where
  "row_key v = (dv_MAC v, dv_Name v, dv_IP v)"

definition dev_key :: "device \<Rightarrow> string \<times> string \<times> string" where
  "dev_key d = (d_MAC d, d_Name d, d_IP d)"

definition lists_memory :: "device_view list \<Rightarrow> pub_sys \<Rightarrow> bool" where
  "lists_memory rows p \<longleftrightarrow> map row_key rows = map dev_key (config (y_mem (pu_sys p)))"

definition render_due :: "pub_sys \<Rightarrow> bool" where
  "render_due p \<longleftrightarrow> pu_kick p \<or> pu_owed p > 0 \<or> pu_silent p"

definition pub_inv :: "pub_sys \<Rightarrow> bool" where
  "pub_inv p \<longleftrightarrow> journal_inv (pu_sys p) \<and>
     (case pu_phase p of
        Pub_idle \<Rightarrow> render_due p \<or> lists_memory (pu_rows p) p
      | Pub_built rows \<Rightarrow> render_due p \<or> lists_memory rows p
      | _ \<Rightarrow> True)"

lemma row_key_build: "row_key (build_device table now ds) = dev_key (ds_dev ds)"
  by (simp add: row_key_def dev_key_def build_device_def device_base_def Let_def split: prod.splits)

lemma lists_memory_build: "map row_key (buildDevices table now s) = map dev_key (config s)"
  by (simp add: buildDevices_def config_def row_key_build)

lemma lists_memory_other:
  "\<not> render_only a \<Longrightarrow> enabled a (pu_sys p) \<Longrightarrow> pu_sys p' = perform a (pu_sys p) \<Longrightarrow> lists_memory rows p' = lists_memory rows p"
  by (simp add: lists_memory_def config_perform del: perform.simps)

lemma pub_inv_init: "pub_init p \<Longrightarrow> pub_inv p"
  using journal.inv_init by (simp add: pub_init_def pub_inv_def)

lemma pub_inv_step:
  assumes "pub_inv p" and "pub_step p p'"
  shows "pub_inv p'"
  using assms(2)
proof (rule pub_stepE)
  fix a
  assume p': "p' = pub_perform a p" and en: "pub_enabled a p"
  show "pub_inv p'"
  proof (cases a)
    case (Pub_other b)
    then have q: "pu_sys p' = perform b (pu_sys p)" "pu_phase p' = pu_phase p" "pu_rows p' = pu_rows p" "render_due p' = render_due p"
      and e: "\<not> render_only b" "enabled b (pu_sys p)"
      using p' en by (simp_all add: render_due_def del: perform.simps enabled.simps)
    with assms(1) lists_memory_other [OF e q(1)] show ?thesis
      by (auto simp: pub_inv_def journal.inv_perform simp del: perform.simps enabled.simps split: pub_phase.splits)
  qed (use assms(1) p' en in \<open>auto simp: pub_inv_def render_due_def after_build_def journal.inv_perform lists_memory_def
      lists_memory_build simp del: perform.simps enabled.simps split: pub_phase.splits\<close>)
qed

interpretation publish: action_machine pub_init pub_step pub_inv pub_enabled pub_perform
  by unfold_locales (rule pub_inv_init pub_inv_step pub_step.intros, assumption+)+

text \<open>
  C18. No mutation is lost on its way to the dashboard. Whatever the loops, the backfill and the
  handlers do in between: when the renderer is idle, no kick is pending, every handler that reloaded
  has kicked and no kickless reload came after the last build, the published rows name exactly the
  devices of the model, in its order, with their names and addresses; and a pending kick is always
  answered: the four steps of a render are enabled one after the other, take the kick and publish
  the model's list.
\<close>

theorem published_rows_follow_model:
  assumes "reachable pub_init pub_step p" and "pu_phase p = Pub_idle"
  shows "(\<not> pu_kick p \<and> pu_owed p = 0 \<and> \<not> pu_silent p \<longrightarrow>
      map row_key (pu_rows p) = map dev_key (config (y_mem (pu_sys p)))) \<and>
    (pu_kick p \<and> enumerates ks (dom (s_devs (y_mem (pu_sys p)))) \<longrightarrow>
      (\<exists>p'. run_pub [Pub_take, Pub_neigh ks byMAC now, Pub_build vendors now, Pub_swap] p = Some p' \<and>
         \<not> pu_kick p' \<and> pu_owed p' = pu_owed p \<and> pu_phase p' = Pub_idle \<and>
         map row_key (pu_rows p') = map dev_key (config (y_mem (pu_sys p')))))"
  using publish.reachable_inv [OF assms(1)] assms(2)
  by (auto simp: pub_inv_def render_due_def lists_memory_def lists_memory_build)

section \<open>A concrete run\<close>

definition demo_start :: pub_sys where
  "demo_start = \<lparr>pu_sys = demo_boot, pu_kick = False, pu_owed = 0, pu_silent = False, pu_phase = Pub_started, pu_rows = []\<rparr>"

definition demo_published :: "pub_sys option" where
  "demo_published = run_pub [Pub_other (ReadDevices (\<lambda>_. False)), Pub_backfill_reload 0,
     Pub_neigh [''m''] Map.empty 5, Pub_build Map.empty 5, Pub_swap] demo_start"

lemma demo_published_run:
  "\<exists>p. demo_published = Some p \<and> pu_phase p = Pub_idle \<and> \<not> pu_kick p \<and> pu_owed p = 0 \<and> \<not> pu_silent p \<and>
     config (y_mem (pu_sys p)) = [row_device demo_db (demo_row ''m'')]"
  by (simp add: demo_published_def demo_start_def demo_run_simps render_only_def after_build_def applyNeigh_def
      neigh_step_def config_def snapshot_def map_filter_simps)

lemma published_rows_follow_model_witness:
  "\<exists>p. demo_published = Some p \<and> map row_key (pu_rows p) = [(''m'', [], ''10.0.0.2'')]"
proof -
  obtain p where p: "demo_published = Some p" "pu_phase p = Pub_idle" "\<not> pu_kick p" "pu_owed p = 0" "\<not> pu_silent p"
      "config (y_mem (pu_sys p)) = [row_device demo_db (demo_row ''m'')]"
    using demo_published_run by blast
  have "pub_init demo_start"
    using wf_demo_db by (simp add: pub_init_def demo_start_def boot_def demo_boot_def) (simp add: demo_db_def)
  then have "reachable pub_init pub_step p"
    by (rule publish.run_reachable [OF reach_init p(1) [unfolded demo_published_def]])
  from published_rows_follow_model [OF this p(2)] p show ?thesis
    by (auto simp: dev_key_def row_device_def demo_row_def)
qed

section \<open>A reload that loses a race\<close>

text \<open>
  \<^verbatim>\<open>Load\<close> reads the store before it takes the lock, so two reloads can merge in the wrong order: the
  device is untracked and the store empty, every reload is done, and the model still lists it.
\<close>

lemma stale_reload_resurrects:
  "\<exists>y. run_acts [ReadDevices (\<lambda>_. False), StoreCall (\<lambda>_. False) (C_Delete ''m''), ReadDevices (\<lambda>_. False),
      MergeDevices 1, MergeDevices 0] demo_boot = Some y \<and>
    t_devices (y_db y) = [] \<and> y_loads y = [] \<and> map d_MAC (config (y_mem y)) = [''m'']"
proof -
  let ?db = "run_call (\<lambda>_. False) (C_Delete ''m'') demo_db"
  have dev: "t_devices ?db = []"
    by (simp add: store_Delete_def delete_statements_def delete_where_def demo_db_def demo_row_def)
  then have "store_List (\<lambda>_. False) ?db = Inr []" by (simp add: store_List_def)
  with dev show ?thesis
    by (simp add: demo_run_simps config_def snapshot_def map_filter_simps del: run_call.simps)
qed

end
