(* ===== verification/Names.thy ===== *)
theory Names
  imports Devices
begin

text \<open>
  The name loop of \<^verbatim>\<open>server.go\<close> over the name cache: which addresses a tick queries and what the
  cache answers afterwards. Names are the only active lookups beside the probes, so the point is
  restraint: nothing is asked while the gate is closed or while an answer, a negative one
  included, is fresh.
\<close>

text \<open>
  One tick of \<^verbatim>\<open>namesLoop\<close>; \<open>ks\<close> is the iteration order of the neighbour index, \<open>early\<close> the schedule of
  the queries.
\<close>

definition names_tick :: "bool \<Rightarrow> (nat \<Rightarrow> bool) \<Rightarrow> (string \<Rightarrow> string) \<Rightarrow> int \<Rightarrow> entry list option \<Rightarrow> string list \<Rightarrow>
    name_cache \<Rightarrow> name_cache \<times> string list" where
  "names_tick active early lookup now entries ks cache =
     (if \<not> active then (cache, [])
      else (let byMAC = fst (neighSnapshot entries);
                ips = List.map_filter (\<lambda>mac. map_option e_IP (byMAC mac)) ks
            in resolveNames early lookup now ips cache))"

definition neighbour_ips :: "entry list option \<Rightarrow> string set" where
  "neighbour_ips entries = {e_IP e | mac e. fst (neighSnapshot entries) mac = Some e}"

lemma needsName_set [simp]: "needsName t (setName now ip n cache) x = (if x = ip then t - now \<ge> nameTTL else needsName t cache x)"
  by (simp add: needsName_def setName_def)

lemma cachedName_set [simp]: "cachedName t (setName now ip n cache) x =
    (if x = ip then (if t - now < nameTTL then n else []) else cachedName t cache x)"
  by (simp add: cachedName_def setName_def)

lemma nameTTL_pos [simp]: "0 < nameTTL" "\<not> nameTTL \<le> 0"
  by (simp_all add: nameTTL_def)

lemma queries_set: "set (queries early now cache ips q) = set q \<union> {ip \<in> set ips. ip \<noteq> [] \<and> needsName now cache ip}"
  by (induction ips arbitrary: q) auto

lemma fold_setName: "fold (\<lambda>ip. setName now ip (lookup ip)) ips cache ip = (if ip \<in> set ips then Some (lookup ip, now) else cache ip)"
  by (induction ips arbitrary: cache) (auto simp: setName_def)

lemma resolveNames_queried:
  "set (snd (resolveNames early lookup now ips cache)) = {ip \<in> set ips. ip \<noteq> [] \<and> needsName now cache ip}"
  by (simp add: resolveNames_def Let_def queries_set)

lemma resolveNames_cache:
  "fst (resolveNames early lookup now ips cache) ip =
    (if ip \<in> set ips \<and> ip \<noteq> [] \<and> needsName now cache ip then Some (lookup ip, now) else cache ip)"
  by (simp add: resolveNames_def Let_def queries_set fold_setName)

lemma tick_ips: "dom (fst (neighSnapshot entries)) \<subseteq> set ks \<Longrightarrow>
  set (List.map_filter (\<lambda>mac. map_option e_IP (fst (neighSnapshot entries) mac)) ks) = neighbour_ips entries"
  by (force simp: set_map_filter_iff neighbour_ips_def dom_def)

text \<open>
  C37. Restraint of the name lookups. A tick with the gate closed asks nothing and forgets nothing. A
  tick with the gate open asks exactly for the addresses of the indexed neighbours that have no
  fresh entry, its answers are what the cache shows until they expire, empty answers included, no
  other entry changes, and a further tick over the same neighbours asks only for entries that
  have expired since.
\<close>

theorem names_asked_when_stale:
  assumes "enumerates ks (dom (fst (neighSnapshot entries)))" and "names_tick active early lookup now entries ks cache = (cache', asked)"
  shows "(\<not> active \<longrightarrow> asked = [] \<and> cache' = cache) \<and>
    (active \<longrightarrow> set asked = {ip \<in> neighbour_ips entries. ip \<noteq> [] \<and> needsName now cache ip} \<and>
      (\<forall>ip t. t - now < nameTTL \<longrightarrow> cachedName t cache' ip = (if ip \<in> set asked then lookup ip else cachedName t cache ip)) \<and>
      (\<forall>t. t - now < nameTTL \<longrightarrow> set (snd (names_tick True early2 lookup t entries ks cache')) =
         {ip \<in> neighbour_ips entries. ip \<noteq> [] \<and> ip \<notin> set asked \<and> needsName t cache ip}))"
proof (cases active)
  case False
  with assms(2) show ?thesis by (auto simp: names_tick_def)
next
  case True
  let ?ips = "List.map_filter (\<lambda>mac. map_option e_IP (fst (neighSnapshot entries) mac)) ks"
  have ips: "set ?ips = neighbour_ips entries" using assms(1) by (intro tick_ips) (simp add: enumerates_def)
  have r: "resolveNames early lookup now ?ips cache = (cache', asked)"
    using assms(2) True by (simp add: names_tick_def)
  have asked: "set asked = {ip \<in> neighbour_ips entries. ip \<noteq> [] \<and> needsName now cache ip}"
    using resolveNames_queried [of early lookup now ?ips cache] r ips by simp
  have cache': "cache' ip = (if ip \<in> set asked then Some (lookup ip, now) else cache ip)" for ip
    using resolveNames_cache [of early lookup now ?ips cache ip] r ips asked by simp
  have "set (snd (names_tick True early2 lookup t entries ks cache')) =
      {ip \<in> neighbour_ips entries. ip \<noteq> [] \<and> ip \<notin> set asked \<and> needsName t cache ip}" if "t - now < nameTTL" for t
    using that resolveNames_queried [of early2 lookup t ?ips cache'] ips
    by (auto simp: names_tick_def Let_def needsName_def cache')
  then show ?thesis using True asked by (auto simp: cachedName_def cache')
qed

definition demo_neighbour :: entry where
  "demo_neighbour = \<lparr>e_IP = ''10.0.0.7'', e_MAC = ''m'', e_State = ''reachable'', e_SeenSec = 0\<rparr>"

lemma names_asked_when_stale_witness:
  "set (snd (names_tick True (\<lambda>_. False) (\<lambda>_. ''nas'') 5 (Some [demo_neighbour]) [''m''] Map.empty)) = {''10.0.0.7''}"
proof -
  have idx: "fst (neighSnapshot (Some [demo_neighbour])) = [''m'' \<mapsto> demo_neighbour]"
    by (simp add: neighSnapshot_def index_step_def demo_neighbour_def)
  obtain c a where t: "names_tick True (\<lambda>_. False) (\<lambda>_. ''nas'') 5 (Some [demo_neighbour]) [''m''] Map.empty = (c, a)"
    by (cases "names_tick True (\<lambda>_. False) (\<lambda>_. ''nas'') 5 (Some [demo_neighbour]) [''m''] Map.empty")
  have "enumerates [''m''] (dom (fst (neighSnapshot (Some [demo_neighbour]))))" by (simp add: idx enumerates_def)
  from names_asked_when_stale [OF this t]
  have "set a = {ip \<in> neighbour_ips (Some [demo_neighbour]). ip \<noteq> [] \<and> needsName 5 Map.empty ip}" by blast
  also have "\<dots> = {''10.0.0.7''}" by (auto simp: neighbour_ips_def idx needsName_def) (auto simp: demo_neighbour_def)
  finally show ?thesis by (simp add: t)
qed

end
