(* ===== verification/Strconv.thy ===== *)
theory Strconv
  imports GoNet
begin

text \<open>
  Number parsing of package \<^verbatim>\<open>strconv\<close> where the program drops the error and keeps the value, and
  \<^verbatim>\<open>net.SplitHostPort\<close>. On an error the value still matters: it is 0 for a syntax error and the
  nearest bound for a number out of range.
\<close>

section \<open>strconv\<close>

definition maxUint64 :: nat where
  "maxUint64 = 2 ^ 64 - 1"

text \<open>
  The digit loop of \<^verbatim>\<open>strconv.ParseUint(s, 10, 64)\<close>: it stops at the first character that is no
  digit (value 0) or at the first digit that overflows (value \<^verbatim>\<open>maxUint64\<close>, what follows unread).
\<close>

fun uint_loop :: "nat \<Rightarrow> string \<Rightarrow> nat" where
  "uint_loop n [] = n"
| "uint_loop n (c # cs) =
     (case dec_val c of None \<Rightarrow> 0
      | Some d \<Rightarrow> if 10 * n + d > maxUint64 then maxUint64 else uint_loop (10 * n + d) cs)"

definition parse_uint :: "string \<Rightarrow> nat" where
  "parse_uint s = (if s = [] then 0 else uint_loop 0 s)"

definition ParseUint :: "string \<Rightarrow> 64 word" where
  "ParseUint s = of_nat (parse_uint s)"

text \<open>\<^verbatim>\<open>strconv.Atoi\<close>, the value alone.\<close>

definition Atoi_value :: "string \<Rightarrow> int" where
  "Atoi_value s =
     (let (neg, ds) = (case s of [] \<Rightarrow> (False, []) | c # cs \<Rightarrow>
            if c = CHR ''-'' then (True, cs) else if c = CHR ''+'' then (False, cs) else (False, s));
          u = int (parse_uint ds)
      in if neg then max (- (2 ^ 63)) (- u) else min (2 ^ 63 - 1) u)"

lemma dec_digits_ge: "dec_digits n s = Some v \<Longrightarrow> n \<le> v"
proof (induction s arbitrary: n)
  case (Cons c cs)
  then show ?case by (fastforce split: option.splits)
qed simp

lemma uint_loop_digits:
  "dec_digits n s = Some v \<Longrightarrow> v \<le> maxUint64 \<Longrightarrow> uint_loop n s = v"
proof (induction s arbitrary: n)
  case (Cons c cs)
  then obtain d where d: "dec_val c = Some d" "dec_digits (10 * n + d) cs = Some v"
    by (auto split: option.splits)
  with Cons dec_digits_ge [OF d(2)] show ?case by simp
qed simp

lemma uint_loop_max: "n \<le> maxUint64 \<Longrightarrow> uint_loop n s \<le> maxUint64"
  by (induction s arbitrary: n) (auto split: option.splits)

lemma parse_uint_max: "parse_uint s \<le> maxUint64"
  by (simp add: parse_uint_def uint_loop_max)

lemma parse_uint_nat: "parse_nat s = Some v \<Longrightarrow> v \<le> maxUint64 \<Longrightarrow> parse_uint s = v"
  by (auto simp: parse_nat_def parse_uint_def uint_loop_digits split: if_splits)

lemma unat_ParseUint: "unat (ParseUint s) = parse_uint s"
  using parse_uint_max [of s] by (simp add: ParseUint_def unat_of_nat maxUint64_def take_bit_nat_eq_self)

text \<open>A decimal numeral below \<open>2\<^sup>6\<^sup>3\<close> is read as the number it denotes.\<close>

lemma parse_nat_digits: "parse_nat s = Some v \<Longrightarrow> s \<noteq> [] \<and> hd s \<noteq> CHR ''-'' \<and> hd s \<noteq> CHR ''+''"
  by (cases s) (auto simp: parse_nat_def dec_val_def split: if_splits)

lemma Atoi_value_nat:
  assumes "parse_nat s = Some v" and "v < 2 ^ 63"
  shows "Atoi_value s = int v"
proof -
  have "parse_uint s = v" using parse_uint_nat [OF assms(1)] assms(2) by (simp add: maxUint64_def)
  with parse_nat_digits [OF assms(1)] assms(2) show ?thesis
    by (cases s) (auto simp: Atoi_value_def Let_def min_def)
qed

section \<open>The last position of a byte\<close>

definition last_index :: "char \<Rightarrow> string \<Rightarrow> nat option" where
  [go_string]: "last_index c s = map_option (\<lambda>i. length s - Suc i) (index_where (\<lambda>x. x = c) (rev s))"

lemma index_where_first: "\<forall>x \<in> set s. \<not> p x \<Longrightarrow> p c \<Longrightarrow> index_where p (s @ c # t) = Some (length s)"
  by (induction s) auto

lemma last_index_append: "c \<notin> set t \<Longrightarrow> last_index c (s @ c # t) = Some (length s)"
  using index_where_first [of "rev t" "\<lambda>x. x = c" c "rev s"] by (fastforce simp: last_index_def)

lemma last_index_None: "last_index c s = None \<longleftrightarrow> c \<notin> set s"
  by (auto simp: last_index_def index_where_None)

section \<open>net.SplitHostPort\<close>

text \<open>
  Host and port around the last colon, \<open>None\<close> for an error. A bracketed host must end right
  before that colon; any other host must not hold a colon.
\<close>

definition SplitHostPort :: "string \<Rightarrow> (string \<times> string) option" where
  "SplitHostPort hp =
     (case last_index (CHR '':'') hp of
        None \<Rightarrow> None
      | Some i \<Rightarrow>
          if hd hp = CHR ''['' then
            (case index_where (\<lambda>c. c = CHR '']'') hp of
               None \<Rightarrow> None
             | Some e \<Rightarrow>
                 if Suc e \<noteq> i then None
                 else if CHR ''['' \<in> set (drop 1 hp) \<or> CHR '']'' \<in> set (drop (Suc e) hp) then None
                 else Some (drop 1 (take e hp), drop (Suc i) hp))
          else if CHR '':'' \<in> set (take i hp) then None
          else if CHR ''['' \<in> set hp \<or> CHR '']'' \<in> set hp then None
          else Some (take i hp, drop (Suc i) hp))"

definition plain_host :: "string \<Rightarrow> bool" where
  "plain_host h \<longleftrightarrow> CHR '':'' \<notin> set h \<and> CHR ''['' \<notin> set h \<and> CHR '']'' \<notin> set h"

definition no_brackets :: "string \<Rightarrow> bool" where
  "no_brackets h \<longleftrightarrow> CHR ''['' \<notin> set h \<and> CHR '']'' \<notin> set h"

lemma SplitHostPort_plain:
  "plain_host h \<Longrightarrow> plain_host p \<Longrightarrow> h \<noteq> [] \<Longrightarrow> SplitHostPort (h @ CHR '':'' # p) = Some (h, p)"
  using last_index_append [of "CHR '':''" p h] by (cases h) (auto simp: SplitHostPort_def plain_host_def)

lemma SplitHostPort_many_colons:
  assumes "CHR '':'' \<in> set h" and "no_brackets h" and "CHR '':'' \<notin> set p"
  shows "SplitHostPort (h @ CHR '':'' # p) = None"
proof -
  have "hd (h @ CHR '':'' # p) \<noteq> CHR ''[''" using assms by (cases h) (auto simp: no_brackets_def)
  with assms last_index_append [OF assms(3), of h] show ?thesis by (simp add: SplitHostPort_def)
qed

lemma SplitHostPort_bracketed:
  assumes "no_brackets h" and "plain_host p"
  shows "SplitHostPort (CHR ''['' # h @ CHR '']'' # CHR '':'' # p) = Some (h, p)"
proof -
  let ?s = "CHR ''['' # h @ CHR '']'' # CHR '':'' # p"
  have "last_index (CHR '':'') ?s = Some (Suc (Suc (length h)))"
    using assms last_index_append [of "CHR '':''" p "CHR ''['' # h @ [CHR '']'']"] by (simp add: plain_host_def)
  moreover have "index_where (\<lambda>c. c = CHR '']'') ?s = Some (Suc (length h))"
    using assms index_where_first [of h "\<lambda>c. c = CHR '']''" "CHR '']''"] by (auto simp: no_brackets_def)
  ultimately show ?thesis using assms by (auto simp: SplitHostPort_def no_brackets_def plain_host_def)
qed

end
