(* ===== verification/Services.thy ===== *)
theory Services
  imports Strconv Probe
begin

text \<open>
  The meta refresh: the tailnet state of \<^verbatim>\<open>internal/tailscale\<close>, the provisioned catalogue of
  \<^verbatim>\<open>internal/catalogue\<close> and the health checks of \<^verbatim>\<open>internal/server/services.go\<close>. The output of the
  \<^verbatim>\<open>tailscale\<close> command and the catalogue file arrive as decoded values (\<open>None\<close> when reading or
  decoding fails), and \<^verbatim>\<open>url.Parse\<close> is an argument that gives the scheme and the host part of a
  URL; \<^verbatim>\<open>Hostname\<close> and \<^verbatim>\<open>Port\<close> of that host part are modelled.
\<close>

section \<open>Tailnet state\<close>

record ts_raw =
  tr_BackendState :: string
  tr_DNSName :: string
  tr_ExitNodeOption :: bool

record ts_info =
  ti_State :: string
  ti_Name :: string
  ti_MagicDNS :: bool
  ti_ExitNode :: bool

definition tailscale_Status :: "ts_raw option \<Rightarrow> ts_info option" where
  "tailscale_Status out =
     (case out of None \<Rightarrow> None
      | Some raw \<Rightarrow>
          let info = \<lparr>ti_State = tr_BackendState raw, ti_Name = [], ti_MagicDNS = False,
                       ti_ExitNode = tr_ExitNodeOption raw\<rparr>;
              dns = trim_suffix (tr_DNSName raw) ''.''
          in Some (if dns = [] then info
               else info\<lparr>ti_MagicDNS := True, ti_Name :=
                 (case index_where (\<lambda>c. c = CHR ''.'') dns of
                    None \<Rightarrow> dns | Some i \<Rightarrow> if i > 0 then take i dns else dns)\<rparr>))"

section \<open>Catalogue\<close>

record catalogue_entry =
  ce_Name :: string
  ce_URL :: string
  ce_Detail :: string
  ce_Health :: string

definition catalogue_Load :: "(string \<Rightarrow> catalogue_entry list option) \<Rightarrow> string \<Rightarrow> catalogue_entry list" where
  "catalogue_Load file path =
     (if path = [] then [] else (case file path of None \<Rightarrow> [] | Some es \<Rightarrow> es))"

section \<open>Health checks\<close>

definition digits :: "string \<Rightarrow> bool" where
  "digits s \<longleftrightarrow> (\<forall>c \<in> set s. dec_val c \<noteq> None)"

text \<open>\<^verbatim>\<open>URL.Hostname\<close> and \<^verbatim>\<open>URL.Port\<close>.\<close>

definition url_hostport :: "string \<Rightarrow> string \<times> string" where
  "url_hostport hp =
     (let (host, port) = (case last_index (CHR '':'') hp of
            Some i \<Rightarrow> if digits (drop (Suc i) hp) then (take i hp, drop (Suc i) hp) else (hp, [])
          | None \<Rightarrow> (hp, []))
      in (if host \<noteq> [] \<and> hd host = CHR ''['' \<and> last host = CHR '']'' then butlast (tl host) else host, port))"

definition hostPortFromURL :: "(string \<Rightarrow> (string \<times> string) option) \<Rightarrow> string \<Rightarrow> string" where
  "hostPortFromURL url_parse raw =
     (if raw = [] then []
      else (case url_parse raw of
              None \<Rightarrow> []
            | Some (scheme, host) \<Rightarrow>
                if host = [] then []
                else if snd (url_hostport host) = [] \<and> scheme = ''https'' then fst (url_hostport host) @ '':443''
                else if snd (url_hostport host) = [] \<and> scheme = ''http'' then fst (url_hostport host) @ '':80''
                else host))"

definition splitHostPort :: "string \<Rightarrow> string \<times> int" where
  "splitHostPort hp =
     (case SplitHostPort hp of None \<Rightarrow> (hp, 0)
      | Some (host, port) \<Rightarrow> (if host = [] then ''127.0.0.1'' else host, Atoi_value port))"

definition healthUp :: "net_env \<Rightarrow> string \<Rightarrow> bool" where
  "healthUp env hp =
     (if hp = [] then False
      else (let (host, port) = splitHostPort hp
            in if port = 0 then False else fst (probe_TCP env host port)))"

section \<open>The refresh\<close>

record service_view =
  se_Name :: string
  se_URL :: string
  se_Detail :: string
  se_Up :: bool

record meta =
  mt_ts :: "ts_info option"
  mt_services :: "service_view list"

definition service_row :: "net_env \<Rightarrow> (string \<Rightarrow> (string \<times> string) option) \<Rightarrow> catalogue_entry \<Rightarrow> service_view" where
  "service_row env url_parse e =
     (let health = (if ce_Health e = [] then hostPortFromURL url_parse (ce_URL e) else ce_Health e)
      in \<lparr>se_Name = ce_Name e, se_URL = ce_URL e, se_Detail = ce_Detail e, se_Up = healthUp env health\<rparr>)"

definition refreshMeta :: "net_env \<Rightarrow> (string \<Rightarrow> (string \<times> string) option) \<Rightarrow> ts_raw option \<Rightarrow>
    (string \<Rightarrow> catalogue_entry list option) \<Rightarrow> string \<Rightarrow> meta" where
  "refreshMeta env url_parse out file path =
     \<lparr>mt_ts = tailscale_Status out, mt_services = map (service_row env url_parse) (catalogue_Load file path)\<rparr>"

text \<open>One tick of \<^verbatim>\<open>metaLoop\<close>: nothing is read while no client is attached.\<close>

definition meta_tick :: "nat \<Rightarrow> net_env \<Rightarrow> (string \<Rightarrow> (string \<times> string) option) \<Rightarrow> ts_raw option \<Rightarrow>
    (string \<Rightarrow> catalogue_entry list option) \<Rightarrow> string \<Rightarrow> meta \<Rightarrow> meta" where
  "meta_tick clients env url_parse out file path m =
     (if clients = 0 then m else refreshMeta env url_parse out file path)"

section \<open>What a health check dials\<close>

text \<open>The host part of a URL as its author writes it: a name or an address in brackets, and a port.\<close>

datatype url_host = Named string | Bracketed string

fun host_name :: "url_host \<Rightarrow> string" where
  "host_name (Named h) = h"
| "host_name (Bracketed a) = a"

fun host_part :: "url_host \<Rightarrow> string option \<Rightarrow> string" where
  "host_part (Named h) None = h"
| "host_part (Named h) (Some p) = h @ CHR '':'' # p"
| "host_part (Bracketed a) None = CHR ''['' # a @ [CHR '']'']"
| "host_part (Bracketed a) (Some p) = CHR ''['' # a @ CHR '']'' # CHR '':'' # p"

fun wf_host :: "url_host \<Rightarrow> bool" where
  "wf_host (Named h) \<longleftrightarrow> plain_host h \<and> h \<noteq> []"
| "wf_host (Bracketed a) \<longleftrightarrow> no_brackets a \<and> CHR '':'' \<in> set a"

fun wf_port :: "string option \<Rightarrow> bool" where
  "wf_port None \<longleftrightarrow> True"
| "wf_port (Some p) \<longleftrightarrow> (\<exists>v. parse_nat p = Some v \<and> 0 < v \<and> v < 65536)"

definition default_port :: "string \<Rightarrow> int" where
  "default_port scheme = (if scheme = ''https'' then 443 else if scheme = ''http'' then 80 else 0)"

lemma dec_val_bracket [simp]: "dec_val (CHR '']'') = None" "dec_val (CHR ''['') = None" "dec_val (CHR '':'') = None"
  by code_simp+

lemma digits_simps [simp]: "digits []" "digits (c # s) \<longleftrightarrow> dec_val c \<noteq> None \<and> digits s"
  "digits (s @ t) \<longleftrightarrow> digits s \<and> digits t"
  by (auto simp: digits_def)

lemma digits_plain: "digits p \<Longrightarrow> plain_host p"
  by (auto simp: digits_def plain_host_def)

lemma parse_nat_is_digits:
  assumes "parse_nat p = Some v"
  shows "digits p \<and> p \<noteq> []"
proof -
  have "dec_digits n p = Some v \<Longrightarrow> digits p" for n
    by (induction p arbitrary: n) (auto split: option.splits)
  with assms show ?thesis by (auto simp: parse_nat_def split: if_splits)
qed

lemma url_hostport_Named: "wf_host (Named h) \<Longrightarrow> url_hostport h = (h, [])"
  by (cases h) (auto simp: url_hostport_def plain_host_def last_index_None [THEN iffD2])

lemma url_hostport_Named_port:
  assumes "wf_host (Named h)" and "digits p"
  shows "url_hostport (h @ CHR '':'' # p) = (h, p)"
proof -
  have "last_index (CHR '':'') (h @ CHR '':'' # p) = Some (length h)"
    using digits_plain [OF assms(2)] by (intro last_index_append) (simp add: plain_host_def)
  moreover have "h \<noteq> []" "hd h \<noteq> CHR ''[''" using assms(1) by (auto simp: plain_host_def dest: hd_in_set)
  ultimately show ?thesis using assms(2) by (simp add: url_hostport_def)
qed

lemma url_hostport_Bracketed:
  assumes "wf_host (Bracketed a)"
  shows "url_hostport (CHR ''['' # a @ [CHR '']'']) = (a, [])"
proof -
  obtain b c where a: "a = b @ CHR '':'' # c" "CHR '':'' \<notin> set c"
    using assms by (auto dest: split_list_last)
  then have "last_index (CHR '':'') (CHR ''['' # a @ [CHR '']'']) = Some (Suc (length b))"
    using last_index_append [of "CHR '':''" "c @ [CHR '']'']" "CHR ''['' # b"] by simp
  with a show ?thesis by (simp add: url_hostport_def butlast_append)
qed

lemma url_hostport_Bracketed_port:
  assumes "digits p"
  shows "url_hostport (CHR ''['' # a @ CHR '']'' # CHR '':'' # p) = (a, p)"
proof -
  have "last_index (CHR '':'') (CHR ''['' # a @ CHR '']'' # CHR '':'' # p) = Some (Suc (Suc (length a)))"
    using digits_plain [OF assms] last_index_append [of "CHR '':''" p "CHR ''['' # a @ [CHR '']'']"]
    by (simp add: plain_host_def)
  with assms show ?thesis by (simp add: url_hostport_def)
qed

lemmas url_hostport_parts = url_hostport_Named url_hostport_Named_port url_hostport_Bracketed url_hostport_Bracketed_port

lemma parse_default: "parse_nat ''443'' = Some 443" "parse_nat ''80'' = Some 80"
  by code_simp+

lemma Atoi_default [simp]: "Atoi_value ''443'' = 443" "Atoi_value ''80'' = 80"
  using parse_default by (simp_all add: Atoi_value_nat)

lemma plain_default [simp]: "plain_host ''443''" "plain_host ''80''"
  by code_simp+

text \<open>
  The target of a health check, split: the default port of the scheme is appended to the bare name,
  brackets or not.
\<close>

fun dial_target :: "string \<Rightarrow> url_host \<Rightarrow> string option \<Rightarrow> (string \<times> int) option" where
  "dial_target scheme (Named h) None = Some (h, default_port scheme)"
| "dial_target scheme (Bracketed a) None = None"
| "dial_target scheme H (Some p) = Some (host_name H, Atoi_value p)"

lemma wf_port_digits: "wf_port (Some p) \<Longrightarrow> digits p \<and> p \<noteq> []"
  by (auto dest: parse_nat_is_digits)

lemma splitHostPort_target:
  assumes "wf_host H" and "wf_port q" and "raw \<noteq> []" and "url_parse raw = Some (scheme, host_part H q)"
    and "scheme \<in> {''http'', ''https''}"
  shows "case dial_target scheme H q of
      Some t \<Rightarrow> splitHostPort (hostPortFromURL url_parse raw) = t
    | None \<Rightarrow> snd (splitHostPort (hostPortFromURL url_parse raw)) = 0"
proof (cases q)
  case None
  with assms show ?thesis
    by (cases H) (auto simp: hostPortFromURL_def splitHostPort_def default_port_def url_hostport_parts
        SplitHostPort_plain [of _ "''443''", simplified] SplitHostPort_plain [of _ "''80''", simplified]
        SplitHostPort_many_colons [of _ "''443''", simplified] SplitHostPort_many_colons [of _ "''80''", simplified])
next
  case (Some p)
  then have p: "digits p" "p \<noteq> []" "plain_host p" using assms(2) wf_port_digits digits_plain by auto
  with Some assms show ?thesis
    by (cases H) (auto simp: hostPortFromURL_def splitHostPort_def url_hostport_parts SplitHostPort_plain SplitHostPort_bracketed)
qed

text \<open>An address the catalogue gives is dialled as written: without a port it does not split.\<close>

fun written_target :: "url_host \<Rightarrow> string option \<Rightarrow> (string \<times> int) option" where
  "written_target H None = None"
| "written_target H (Some p) = Some (host_name H, Atoi_value p)"

lemma SplitHostPort_no_port: "wf_host H \<Longrightarrow> SplitHostPort (host_part H None) = None"
proof (cases H)
  case (Named h)
  moreover assume "wf_host H"
  ultimately show ?thesis by (simp add: SplitHostPort_def plain_host_def last_index_None [THEN iffD2])
next
  case (Bracketed a)
  assume "wf_host H"
  with Bracketed obtain b c where a: "a = b @ CHR '':'' # c" "CHR '':'' \<notin> set c" and n: "no_brackets a"
    by (auto dest: split_list_last)
  have "last_index (CHR '':'') (CHR ''['' # a @ [CHR '']'']) = Some (Suc (length b))"
    using a last_index_append [of "CHR '':''" "c @ [CHR '']'']" "CHR ''['' # b"] by simp
  moreover have "index_where (\<lambda>c. c = CHR '']'') (CHR ''['' # a @ [CHR '']'']) = Some (Suc (length a))"
    using n index_where_first [of a "\<lambda>c. c = CHR '']''" "CHR '']''" "[]"] by (auto simp: no_brackets_def)
  moreover have "length b < length a" using a(1) by simp
  ultimately show ?thesis using Bracketed by (simp add: SplitHostPort_def)
qed

lemma splitHostPort_written:
  assumes "wf_host H" and "wf_port q"
  shows "case written_target H q of
      Some t \<Rightarrow> splitHostPort (host_part H q) = t | None \<Rightarrow> snd (splitHostPort (host_part H q)) = 0"
proof (cases q)
  case None
  with SplitHostPort_no_port [OF assms(1)] show ?thesis by (simp add: splitHostPort_def)
next
  case (Some p)
  then have "digits p" "plain_host p" using assms(2) wf_port_digits digits_plain by auto
  with Some assms show ?thesis
    by (cases H) (auto simp: splitHostPort_def SplitHostPort_plain SplitHostPort_bracketed)
qed

text \<open>
  C38. What the health check of a service dials. When the catalogue gives an address, that one: the
  host at the written port, and without a port nothing, so the service is shown down. When it gives
  none, the host of an http or https URL at its written port or else the default one of the scheme;
  but with a bracketed IPv6 address and no port the brackets are lost on the way, the target no
  longer splits, and the service is shown down whatever answers. In each case the service is shown
  up exactly when what is dialled connects. (Hosts are names or bracketed IPv6 addresses, ports
  between 1 and 65535.)
\<close>

theorem health_check_target:
  assumes "wf_host H" and "wf_port q"
    and "if ce_Health e = [] then ce_URL e \<noteq> [] \<and> url_parse (ce_URL e) = Some (scheme, host_part H q) \<and> scheme \<in> {''http'', ''https''}
      else ce_Health e = host_part H q"
  shows "se_Up (service_row env url_parse e) \<longleftrightarrow>
    (case (if ce_Health e = [] then dial_target scheme H q else written_target H q) of None \<Rightarrow> False
     | Some (host, port) \<Rightarrow> n_dial env host port \<noteq> None)"
proof -
  let ?hp = "if ce_Health e = [] then hostPortFromURL url_parse (ce_URL e) else ce_Health e"
  let ?t = "if ce_Health e = [] then dial_target scheme H q else written_target H q"
  have t: "case ?t of Some t \<Rightarrow> splitHostPort ?hp = t | None \<Rightarrow> snd (splitHostPort ?hp) = 0"
  proof (cases "ce_Health e = []")
    case True
    with splitHostPort_target [OF assms(1,2), of "ce_URL e" url_parse scheme] assms(3) show ?thesis by simp
  next
    case False
    with splitHostPort_written [OF assms(1,2)] assms(3) show ?thesis by (simp split: option.splits)
  qed
  have ne: "?hp \<noteq> []"
    using assms by (cases H; cases q) (auto simp: hostPortFromURL_def split: if_splits)
  have "0 < port" if "?t = Some (host, port)" for host port
    using that assms(2,3) by (cases H; cases q) (auto simp: Atoi_value_nat default_port_def split: if_splits)
  moreover have "se_Up (service_row env url_parse e) = healthUp env ?hp" by (simp add: service_row_def)
  ultimately show ?thesis
    using t ne by (cases ?t) (auto simp: healthUp_def probe_TCP_def split: prod.splits option.splits)
qed

definition demo_entry_ip6 :: catalogue_entry where
  "demo_entry_ip6 = \<lparr>ce_Name = ''wiki'', ce_URL = ''https://[fd00::1]/'', ce_Detail = [], ce_Health = []\<rparr>"

definition open_net :: net_env where
  "open_net = \<lparr>n_dial = (\<lambda>_ _. Some 1), n_udp4 = True, n_raw = True, n_write = (\<lambda>_. True), n_arrivals = (\<lambda>_. [])\<rparr>"

text \<open>The same service without and with the address the catalogue of the appliance gives it.\<close>

lemma health_check_target_witness:
  "\<not> se_Up (service_row open_net (\<lambda>_. Some (''https'', ''[fd00::1]'')) demo_entry_ip6) \<and>
   se_Up (service_row open_net (\<lambda>_. Some (''https'', ''wiki'')) demo_entry_ip6) \<and>
   se_Up (service_row open_net (\<lambda>_. Some (''https'', ''[fd00::1]'')) (demo_entry_ip6\<lparr>ce_Health := ''127.0.0.1:3000''\<rparr>)) \<and>
   \<not> se_Up (service_row open_net (\<lambda>_. Some (''https'', ''wiki'')) (demo_entry_ip6\<lparr>ce_Health := ''localhost''\<rparr>))"
proof (intro conjI)
  show "\<not> se_Up (service_row open_net (\<lambda>_. Some (''https'', ''[fd00::1]'')) demo_entry_ip6)"
    using health_check_target [of "Bracketed ''fd00::1''" None demo_entry_ip6 "\<lambda>_. Some (''https'', ''[fd00::1]'')" "''https''" open_net]
    by (simp add: demo_entry_ip6_def no_brackets_def)
  show "se_Up (service_row open_net (\<lambda>_. Some (''https'', ''wiki'')) demo_entry_ip6)"
    using health_check_target [of "Named ''wiki''" None demo_entry_ip6 "\<lambda>_. Some (''https'', ''wiki'')" "''https''" open_net]
    by (simp add: demo_entry_ip6_def plain_host_def open_net_def)
  have "parse_nat ''3000'' = Some 3000" by code_simp
  then show "se_Up (service_row open_net (\<lambda>_. Some (''https'', ''[fd00::1]'')) (demo_entry_ip6\<lparr>ce_Health := ''127.0.0.1:3000''\<rparr>))"
    using health_check_target [of "Named ''127.0.0.1''" "Some ''3000''" "demo_entry_ip6\<lparr>ce_Health := ''127.0.0.1:3000''\<rparr>"
        "\<lambda>_. Some (''https'', ''[fd00::1]'')" "''https''" open_net]
    by (simp add: plain_host_def open_net_def)
  show "\<not> se_Up (service_row open_net (\<lambda>_. Some (''https'', ''wiki'')) (demo_entry_ip6\<lparr>ce_Health := ''localhost''\<rparr>))"
    using health_check_target [of "Named ''localhost''" None "demo_entry_ip6\<lparr>ce_Health := ''localhost''\<rparr>"
        "\<lambda>_. Some (''https'', ''wiki'')" "''https''" open_net]
    by (simp add: plain_host_def)
qed

section \<open>The short tailnet name\<close>

lemma first_label:
  assumes "d \<noteq> []" and "hd d \<noteq> CHR ''.''"
  shows "CHR ''.'' \<notin> set (case index_where (\<lambda>c. c = CHR ''.'') d of None \<Rightarrow> d | Some i \<Rightarrow> if i > 0 then take i d else d)"
proof (cases "index_where (\<lambda>c. c = CHR ''.'') d")
  case None
  then have "CHR ''.'' \<notin> set d" unfolding index_where_None by blast
  with None show ?thesis by simp
next
  case (Some i)
  note w = index_where_Some [OF Some]
  then have "i > 0" using assms hd_conv_nth [of d] by (metis gr0I)
  moreover have "c \<noteq> CHR ''.''" if c: "c \<in> set (take i d)" for c
  proof -
    obtain j where "j < i" "d ! j = c" using c by (auto simp: in_set_conv_nth)
    with w show ?thesis by blast
  qed
  ultimately show ?thesis using Some by auto
qed

lemma trim_suffix_hd: "trim_suffix s p \<noteq> [] \<Longrightarrow> hd (trim_suffix s p) = hd s"
  by (auto simp: trim_suffix_def hd_take)

lemma tailscale_short_name:
  assumes "tailscale_Status (Some raw) = Some info" and "ti_MagicDNS info" and "hd (tr_DNSName raw) \<noteq> CHR ''.''"
  shows "CHR ''.'' \<notin> set (ti_Name info)"
  using assms first_label [of "trim_suffix (tr_DNSName raw) ''.''"]
  by (auto simp: tailscale_Status_def Let_def trim_suffix_hd split: if_splits)

end
