(* ===== verification/Sysinfo.thy ===== *)
theory Sysinfo
  imports Complex_Main Strconv
begin

text \<open>
  Box diagnostics, \<^verbatim>\<open>internal/sysinfo\<close> on Linux: the counters of \<^verbatim>\<open>/proc/stat\<close>,
  \<^verbatim>\<open>/proc/meminfo\<close> and \<^verbatim>\<open>/proc/net/dev\<close>, and the sampler that turns them into percentages, rates
  and sparkline histories. A file is the list of its lines, \<open>None\<close> when it cannot be opened.
  Counters are 64-bit words, so a difference wraps as in the code; a \<^verbatim>\<open>float64\<close> is a rational, so
  rounding is not modelled. Uptime, load and temperature are single numbers read by
  \<^verbatim>\<open>strconv.ParseFloat\<close>.
\<close>

section \<open>Single numbers\<close>

text \<open>
  \<^verbatim>\<open>strconv.ParseFloat\<close> on decimal numbers: a sign, digits with at most one point and at least one
  digit, and an optional exponent; \<open>None\<close> is its error, with which the value is 0. The spellings
  that no file of \<^verbatim>\<open>/proc\<close> has (hexadecimal, underscores, \<^verbatim>\<open>inf\<close>, \<^verbatim>\<open>nan\<close>) and overflow are left out.
\<close>

fun mantissa :: "bool \<Rightarrow> nat \<Rightarrow> nat \<Rightarrow> nat \<Rightarrow> string \<Rightarrow> nat \<times> nat \<times> nat \<times> string" where
  "mantissa pt m fr n [] = (m, fr, n, [])"
| "mantissa pt m fr n (c # cs) =
     (if c = CHR ''.'' \<and> \<not> pt then mantissa True m fr n cs
      else case dec_val c of
             None \<Rightarrow> (m, fr, n, c # cs)
           | Some d \<Rightarrow> mantissa pt (10 * m + d) (if pt then Suc fr else fr) (Suc n) cs)"

definition strip_sign :: "string \<Rightarrow> bool \<times> string" where
  "strip_sign s = (case s of [] \<Rightarrow> (False, [])
     | c # cs \<Rightarrow> if c = CHR ''-'' then (True, cs) else if c = CHR ''+'' then (False, cs) else (False, s))"

definition exponent :: "string \<Rightarrow> int option" where
  "exponent s =
     (case s of [] \<Rightarrow> Some 0
      | c # cs \<Rightarrow>
          if c \<noteq> CHR ''e'' \<and> c \<noteq> CHR ''E'' then None
          else (let (neg, ds) = strip_sign cs in
                if ds = [] then None else map_option (\<lambda>e. if neg then - int e else int e) (dec_digits 0 ds)))"

definition ParseFloat :: "string \<Rightarrow> rat option" where
  "ParseFloat s =
     (let (neg, ds) = strip_sign s; (m, fr, n, rest) = mantissa False 0 0 0 ds in
      if n = 0 then None
      else map_option (\<lambda>e. (if neg then -1 else 1) * of_nat m *
             (if e \<ge> int fr then 10 ^ nat (e - int fr) else 1 / 10 ^ nat (int fr - e))) (exponent rest))"

definition float_or_zero :: "string \<Rightarrow> rat" where
  "float_or_zero s = (case ParseFloat s of None \<Rightarrow> 0 | Some v \<Rightarrow> v)"

text \<open>The argument is the file's text, \<open>None\<close> when it cannot be read. \<^verbatim>\<open>int64(v)\<close> cuts towards zero.\<close>

definition int64_of :: "rat \<Rightarrow> int" where
  "int64_of v = (if v < 0 then - \<lfloor>- v\<rfloor> else \<lfloor>v\<rfloor>)"

definition uptimeSec :: "string option \<Rightarrow> int" where
  "uptimeSec file =
     (case file of None \<Rightarrow> 0
      | Some b \<Rightarrow> (case str_fields b of [] \<Rightarrow> 0 | f # fs \<Rightarrow> int64_of (float_or_zero f)))"

definition loadAvg :: "string option \<Rightarrow> rat list" where
  "loadAvg file =
     (case file of None \<Rightarrow> [0, 0, 0]
      | Some b \<Rightarrow> take 3 (map float_or_zero (str_fields b) @ [0, 0, 0]))"

text \<open>The first thermal zone, in thousandths of a degree.\<close>

definition tempC :: "string option \<Rightarrow> rat" where
  "tempC file =
     (case file of None \<Rightarrow> 0
      | Some b \<Rightarrow> (case ParseFloat (trim_space b) of None \<Rightarrow> 0 | Some v \<Rightarrow> v / 1000))"

section \<open>CPU\<close>

record cpu_snap =
  cs_totalBusy :: "64 word"
  cs_total :: "64 word"
  cs_cores :: "(64 word \<times> 64 word) list"

definition no_cpu :: cpu_snap where
  "no_cpu = \<lparr>cs_totalBusy = 0, cs_total = 0, cs_cores = []\<rparr>"

text \<open>Total and idle jiffies of a line; columns 3 and 4 are idle and iowait.\<close>

fun cpu_sums :: "nat \<Rightarrow> string list \<Rightarrow> 64 word \<times> 64 word \<Rightarrow> 64 word \<times> 64 word" where
  "cpu_sums i [] acc = acc"
| "cpu_sums i (f # fs) (tot, idle) =
     (let v = ParseUint f in cpu_sums (Suc i) fs (tot + v, if i = 3 \<or> i = 4 then idle + v else idle))"

definition cpu_line :: "cpu_snap \<Rightarrow> string \<Rightarrow> cpu_snap" where
  "cpu_line snap line =
     (let fields = str_fields line in
      if length fields < 5 then snap
      else (let (total, idle) = cpu_sums 0 (tl fields) (0, 0); busy = total - idle in
            if hd fields = ''cpu'' then snap\<lparr>cs_totalBusy := busy, cs_total := total\<rparr>
            else snap\<lparr>cs_cores := cs_cores snap @ [(busy, total)]\<rparr>))"

definition cpuSample :: "string list option \<Rightarrow> cpu_snap" where
  "cpuSample lines = (case lines of None \<Rightarrow> no_cpu
     | Some ls \<Rightarrow> foldl cpu_line no_cpu (takeWhile (\<lambda>l. has_prefix l ''cpu'') ls))"

definition to_float :: "64 word \<Rightarrow> rat" where
  "to_float w = of_nat (unat w)"

definition cpuPct :: "64 word \<Rightarrow> 64 word \<Rightarrow> 64 word \<Rightarrow> 64 word \<Rightarrow> rat" where
  "cpuPct prevBusy prevTotal busy tot =
     (let dt = to_float (tot - prevTotal) in
      if dt \<le> 0 then 0
      else (let p = to_float (busy - prevBusy) / dt * 100;
                p1 = (if p < 0 then 0 else p)
            in if p1 > 100 then 100 else p1))"

section \<open>Memory, disk, network\<close>

record mem =
  me_Pct :: rat
  me_UsedMB :: int
  me_TotalMB :: int
  me_Disabled :: bool

definition no_mem :: mem where
  "no_mem = \<lparr>me_Pct = 0, me_UsedMB = 0, me_TotalMB = 0, me_Disabled = False\<rparr>"

text \<open>A key that is missing reads as 0; the last of several lines with one key counts.\<close>

definition meminfo_step :: "string \<Rightarrow> (string \<Rightarrow> 64 word) \<Rightarrow> (string \<Rightarrow> 64 word)" where
  "meminfo_step line vals =
     (case str_fields line of
        key # v # rest \<Rightarrow> vals(trim_suffix key '':'' := ParseUint v)
      | _ \<Rightarrow> vals)"

definition used_mem :: "64 word \<Rightarrow> 64 word \<Rightarrow> mem" where
  "used_mem tot free =
     (let used = tot - free in
      \<lparr>me_Pct = to_float used / to_float tot * 100, me_UsedMB = uint (used div 1024),
       me_TotalMB = uint (tot div 1024), me_Disabled = False\<rparr>)"

definition memInfo :: "string list option \<Rightarrow> mem \<times> mem" where
  "memInfo lines =
     (case lines of None \<Rightarrow> (no_mem, no_mem)
      | Some ls \<Rightarrow>
          let vals = fold meminfo_step ls (\<lambda>_. 0) in
          (if vals ''MemTotal'' > 0 then used_mem (vals ''MemTotal'') (vals ''MemAvailable'') else no_mem,
           if vals ''SwapTotal'' > 0 then used_mem (vals ''SwapTotal'') (vals ''SwapFree'')
           else no_mem\<lparr>me_Disabled := True\<rparr>))"

record disk =
  dk_Pct :: rat
  dk_UsedGB :: rat
  dk_TotalGB :: rat

text \<open>The argument is what \<^verbatim>\<open>statfs\<close> gave: blocks, available blocks, block size.\<close>

definition diskInfo :: "(64 word \<times> 64 word \<times> int) option \<Rightarrow> disk" where
  "diskInfo s =
     (case s of None \<Rightarrow> \<lparr>dk_Pct = 0, dk_UsedGB = 0, dk_TotalGB = 0\<rparr>
      | Some (blocks, bavail, bsize) \<Rightarrow>
          let total = to_float blocks * of_int bsize;
              used = total - to_float bavail * of_int bsize
          in \<lparr>dk_Pct = (if total > 0 then used / total * 100 else 0),
              dk_UsedGB = used / 10 ^ 9, dk_TotalGB = total / 10 ^ 9\<rparr>)"

fun net_loop :: "string \<Rightarrow> string list \<Rightarrow> 64 word \<times> 64 word" where
  "net_loop iface [] = (0, 0)"
| "net_loop iface (line # ls) =
     (case index_where (\<lambda>c. c = CHR '':'') line of
        None \<Rightarrow> net_loop iface ls
      | Some i \<Rightarrow>
          if trim_space (take i line) \<noteq> iface then net_loop iface ls
          else (let fields = str_fields (drop (Suc i) line) in
                if length fields \<ge> 9 then (ParseUint (fields ! 0), ParseUint (fields ! 8)) else (0, 0)))"

definition netCounters :: "string \<Rightarrow> string list option \<Rightarrow> 64 word \<times> 64 word" where
  "netCounters iface lines = (case lines of None \<Rightarrow> (0, 0) | Some ls \<Rightarrow> net_loop iface ls)"

section \<open>The sampler\<close>

definition histLen :: nat where
  "histLen = 24"

text \<open>The clock is in nanoseconds; \<open>None\<close> is the zero time.\<close>

record sampler =
  sp_iface :: string
  sp_prevCPU :: cpu_snap
  sp_prevTime :: "int option"
  sp_prevRx :: "64 word"
  sp_prevTx :: "64 word"
  sp_rxHist :: "rat list"
  sp_txHist :: "rat list"
  sp_primed :: bool

definition sysinfo_New :: "string \<Rightarrow> sampler" where
  "sysinfo_New iface = \<lparr>sp_iface = iface, sp_prevCPU = no_cpu, sp_prevTime = None, sp_prevRx = 0, sp_prevTx = 0,
     sp_rxHist = replicate histLen 0, sp_txHist = replicate histLen 0, sp_primed = False\<rparr>"

record readings =
  rd_now :: int
  rd_uptime :: "string option"
  rd_stat :: "string list option"
  rd_loadavg :: "string option"
  rd_thermal :: "string option"
  rd_meminfo :: "string list option"
  rd_statfs :: "(64 word \<times> 64 word \<times> int) option"
  rd_netdev :: "string list option"

record cpu =
  cp_Pct :: rat
  cp_Cores :: "rat list"
  cp_Load :: "rat list"
  cp_TempC :: rat

record net =
  nt_RxKBs :: rat
  nt_TxKBs :: rat
  nt_Rx :: "rat list"
  nt_Tx :: "rat list"

record stats =
  st_UptimeSec :: int
  st_CPU :: cpu
  st_Mem :: mem
  st_Swap :: mem
  st_Disk :: disk
  st_Net :: net

abbreviation st_Pct :: "stats \<Rightarrow> rat" where "st_Pct st \<equiv> cp_Pct (st_CPU st)"
abbreviation st_Cores :: "stats \<Rightarrow> rat list" where "st_Cores st \<equiv> cp_Cores (st_CPU st)"
abbreviation st_RxKBs :: "stats \<Rightarrow> rat" where "st_RxKBs st \<equiv> nt_RxKBs (st_Net st)"
abbreviation st_TxKBs :: "stats \<Rightarrow> rat" where "st_TxKBs st \<equiv> nt_TxKBs (st_Net st)"
abbreviation st_Rx :: "stats \<Rightarrow> rat list" where "st_Rx st \<equiv> nt_Rx (st_Net st)"
abbreviation st_Tx :: "stats \<Rightarrow> rat list" where "st_Tx st \<equiv> nt_Tx (st_Net st)"

text \<open>The percentage of every core that the previous reading has too.\<close>

definition core_pcts :: "(64 word \<times> 64 word) list \<Rightarrow> (64 word \<times> 64 word) list \<Rightarrow> rat list" where
  "core_pcts prev cur = map2 (\<lambda>(pb, pt) (b, t). cpuPct pb pt b t) prev cur"

definition rate :: "rat \<Rightarrow> 64 word \<Rightarrow> 64 word \<Rightarrow> rat" where
  "rate dt prev cur = (if dt > 0 then to_float (cur - prev) / dt / 1024 else 0)"

text \<open>Seconds since the previous sample, 0 when there is none (then no rate is computed).\<close>

definition elapsed :: "readings \<Rightarrow> sampler \<Rightarrow> rat" where
  "elapsed r sp = (case sp_prevTime sp of None \<Rightarrow> 0
     | Some t \<Rightarrow> if sp_primed sp then of_int (rd_now r - t) / 10 ^ 9 else 0)"

definition Sample :: "readings \<Rightarrow> sampler \<Rightarrow> stats \<times> sampler" where
  "Sample r sp =
     (let cur = cpuSample (rd_stat r);
          prev = sp_prevCPU sp;
          (rx, tx) = netCounters (sp_iface sp) (rd_netdev r);
          rxKBs = rate (elapsed r sp) (sp_prevRx sp) rx;
          txKBs = rate (elapsed r sp) (sp_prevTx sp) tx;
          rxHist = tl (sp_rxHist sp) @ [rxKBs];
          txHist = tl (sp_txHist sp) @ [txKBs];
          (memory, swap) = memInfo (rd_meminfo r)
      in (\<lparr>st_UptimeSec = uptimeSec (rd_uptime r),
           st_CPU = \<lparr>
             cp_Pct = (if sp_primed sp then cpuPct (cs_totalBusy prev) (cs_total prev) (cs_totalBusy cur) (cs_total cur) else 0),
             cp_Cores = (if sp_primed sp then core_pcts (cs_cores prev) (cs_cores cur) else replicate (length (cs_cores cur)) 0),
             cp_Load = loadAvg (rd_loadavg r), cp_TempC = tempC (rd_thermal r)\<rparr>,
           st_Mem = memory, st_Swap = swap, st_Disk = diskInfo (rd_statfs r),
           st_Net = \<lparr>nt_RxKBs = rxKBs, nt_TxKBs = txKBs, nt_Rx = rxHist, nt_Tx = txHist\<rparr>\<rparr>,
          sp\<lparr>sp_prevCPU := cur, sp_prevTime := Some (rd_now r), sp_prevRx := rx, sp_prevTx := tx,
             sp_rxHist := rxHist, sp_txHist := txHist, sp_primed := True\<rparr>))"

fun run_samples :: "readings list \<Rightarrow> sampler \<Rightarrow> stats list \<times> sampler" where
  "run_samples [] sp = ([], sp)"
| "run_samples (r # rs) sp =
     (let sp1 = snd (Sample r sp)
      in (fst (Sample r sp) # fst (run_samples rs sp1), snd (run_samples rs sp1)))"

section \<open>Rates and percentages\<close>

lemma to_float_pos [simp]: "0 \<le> to_float w"
  unfolding to_float_def by (rule of_nat_0_le_iff)

lemma to_float_gt [simp]: "0 < to_float w \<longleftrightarrow> w \<noteq> 0"
  unfolding to_float_def of_nat_0_less_iff by (rule unat_gt_0)

lemma cpuPct_bounds: "0 \<le> cpuPct pb pt b t \<and> cpuPct pb pt b t \<le> 100"
  by (simp add: cpuPct_def Let_def)

text \<open>How far a counter moved, as the difference of the words reads it.\<close>

definition moved :: "64 word \<Rightarrow> 64 word \<Rightarrow> rat" where
  "moved prev cur = (if prev \<le> cur then to_float cur - to_float prev else 2 ^ 64 + to_float cur - to_float prev)"

lemma moved_eq: "to_float (cur - prev) = moved prev cur"
proof (cases "prev \<le> cur")
  case True
  then show ?thesis by (simp only: to_float_def moved_def if_True unat_sub word_le_nat_alt of_nat_diff)
next
  case False
  then have "unat (cur - prev) = 2 ^ 64 + unat cur - unat prev"
    by (simp add: unat_sub_if_size word_size word_le_nat_alt)
  moreover have "unat prev \<le> 2 ^ 64 + unat cur"
    by (rule order.trans [OF less_imp_le [OF unsigned_less]]) simp
  ultimately show ?thesis using False by (simp only: to_float_def moved_def if_False of_nat_diff) simp
qed

lemma rate_moved: "dt > 0 \<Longrightarrow> rate dt prev cur = moved prev cur / dt / 1024"
  by (simp add: rate_def moved_eq)

lemma cpuPct_moved:
  assumes "pt \<noteq> t"
  shows "cpuPct pb pt b t = min 100 (100 * moved pb b / moved pt t)"
proof -
  have "0 < moved pt t" unfolding moved_eq [symmetric] using assms by simp
  moreover have "0 \<le> moved pb b" unfolding moved_eq [symmetric] by simp
  ultimately have "0 \<le> moved pb b / moved pt t * 100" by simp
  with \<open>0 < moved pt t\<close> show ?thesis by (simp add: cpuPct_def moved_eq Let_def min_def mult.commute)
qed

lemma Sample_simps [simp]:
  "sp_prevTime (snd (Sample r sp)) = Some (rd_now r)" "sp_primed (snd (Sample r sp))"
  "sp_iface (snd (Sample r sp)) = sp_iface sp" "sp_prevCPU (snd (Sample r sp)) = cpuSample (rd_stat r)"
  "sp_prevRx (snd (Sample r sp)) = fst (netCounters (sp_iface sp) (rd_netdev r))"
  "sp_prevTx (snd (Sample r sp)) = snd (netCounters (sp_iface sp) (rd_netdev r))"
  "sp_rxHist (snd (Sample r sp)) = tl (sp_rxHist sp) @ [st_RxKBs (fst (Sample r sp))]"
  "sp_txHist (snd (Sample r sp)) = tl (sp_txHist sp) @ [st_TxKBs (fst (Sample r sp))]"
  "st_Rx (fst (Sample r sp)) = tl (sp_rxHist sp) @ [st_RxKBs (fst (Sample r sp))]"
  "st_Tx (fst (Sample r sp)) = tl (sp_txHist sp) @ [st_TxKBs (fst (Sample r sp))]"
  by (simp_all add: Sample_def Let_def split: prod.splits)

lemma Sample_rates:
  "st_RxKBs (fst (Sample r sp)) = rate (elapsed r sp) (sp_prevRx sp) (fst (netCounters (sp_iface sp) (rd_netdev r)))"
  "st_TxKBs (fst (Sample r sp)) = rate (elapsed r sp) (sp_prevTx sp) (snd (netCounters (sp_iface sp) (rd_netdev r)))"
  "sp_primed sp \<Longrightarrow> st_Pct (fst (Sample r sp)) = cpuPct (cs_totalBusy (sp_prevCPU sp)) (cs_total (sp_prevCPU sp))
     (cs_totalBusy (cpuSample (rd_stat r))) (cs_total (cpuSample (rd_stat r)))"
  by (simp_all add: Sample_def Let_def split: prod.splits)

text \<open>
  C39. The numbers of two successive samples. Throughput is the distance the byte counter moved
  over the time between the samples, and CPU load is the share of busy jiffies, at most 100. The
  distance of a counter that went back is taken modulo \<open>2\<^sup>6\<^sup>4\<close>: after the interface's counters
  restart, one sample reports an enormous rate, and busy time that shrinks reads as full load.
\<close>

theorem rates_from_counters:
  assumes "rd_now r1 < rd_now r2" and "st = fst (Sample r2 (snd (Sample r1 sp)))"
    and "netCounters (sp_iface sp) (rd_netdev r1) = (rx1, tx1)" and "netCounters (sp_iface sp) (rd_netdev r2) = (rx2, tx2)"
    and "cpuSample (rd_stat r1) = c1" and "cpuSample (rd_stat r2) = c2"
  shows "st_RxKBs st = moved rx1 rx2 / (of_int (rd_now r2 - rd_now r1) / 10 ^ 9) / 1024 \<and>
    st_TxKBs st = moved tx1 tx2 / (of_int (rd_now r2 - rd_now r1) / 10 ^ 9) / 1024 \<and>
    (cs_total c1 \<noteq> cs_total c2 \<longrightarrow>
      st_Pct st = min 100 (100 * moved (cs_totalBusy c1) (cs_totalBusy c2) / moved (cs_total c1) (cs_total c2)))"
proof -
  have dt: "elapsed r2 (snd (Sample r1 sp)) = of_int (rd_now r2 - rd_now r1) / 10 ^ 9"
    by (simp add: elapsed_def)
  have pos: "0 < elapsed r2 (snd (Sample r1 sp))" unfolding dt using assms(1) by simp
  show ?thesis
    unfolding assms(2) dt [symmetric]
    by (simp add: assms(3-6) Sample_rates rate_moved [OF pos] cpuPct_moved)
qed

section \<open>Histories\<close>

lemma length_run_samples [simp]: "length (fst (run_samples rs sp)) = length rs"
  by (induction rs arbitrary: sp) (simp_all add: Let_def)

lemma run_samples_Cons: "fst (run_samples (r # rs) sp) = fst (Sample r sp) # fst (run_samples rs (snd (Sample r sp)))"
  by (simp add: Let_def)

declare run_samples.simps(2) [simp del]

text \<open>A ring that loses its first element with every sample shows the latest values.\<close>

lemma ring_window:
  assumes "\<And>r sp. hist (snd (Sample r sp)) = tl (hist sp) @ [val (fst (Sample r sp))]"
    and "\<And>r sp. view (fst (Sample r sp)) = tl (hist sp) @ [val (fst (Sample r sp))]"
    and "hist sp \<noteq> []" and "i < length rs"
  shows "view (fst (run_samples rs sp) ! i) = drop (Suc i) (hist sp @ map val (take (Suc i) (fst (run_samples rs sp))))"
  using assms(3,4)
proof (induction rs arbitrary: sp i)
  case (Cons r rs)
  then obtain h0 h where h: "hist sp = h0 # h" by (cases "hist sp") auto
  show ?case
  proof (cases i)
    case 0
    then show ?thesis by (simp add: run_samples_Cons assms(2) h)
  next
    case (Suc j)
    with Cons.prems have "j < length rs" "hist (snd (Sample r sp)) \<noteq> []" by (simp_all add: assms(1))
    from Cons.IH [OF this(2,1)] show ?thesis by (simp add: run_samples_Cons assms(1) h Suc)
  qed
qed simp

lemma core_pcts_bounds: "p \<in> set (core_pcts prev cur) \<Longrightarrow> 0 \<le> p \<and> p \<le> 100"
  by (auto simp: core_pcts_def cpuPct_bounds dest!: set_zip_leftD split: prod.splits)

lemma Sample_pcts: "\<forall>p \<in> insert (st_Pct (fst (Sample r sp))) (set (st_Cores (fst (Sample r sp)))). 0 \<le> p \<and> p \<le> 100"
  using core_pcts_bounds by (auto simp: Sample_def Let_def cpuPct_bounds split: prod.splits)

lemma run_samples_pcts: "st \<in> set (fst (run_samples rs sp)) \<Longrightarrow>
  \<forall>p \<in> insert (st_Pct st) (set (st_Cores st)). 0 \<le> p \<and> p \<le> 100"
proof (induction rs arbitrary: sp)
  case (Cons r rs)
  then show ?case using Sample_pcts [of r sp] by (auto simp: run_samples_Cons)
qed simp

text \<open>
  Whatever the files say, the \<open>i\<close>-th sample after start shows the throughput of the last 24
  samples, oldest first and padded with zeros, and every percentage lies between 0 and 100.
\<close>

theorem sampler_window:
  assumes "i < length rs" and "sts = fst (run_samples rs (sysinfo_New iface))"
  shows "st_Rx (sts ! i) = drop (Suc i) (replicate 24 0 @ map (\<lambda>st. st_RxKBs st) (take (Suc i) sts)) \<and>
    st_Tx (sts ! i) = drop (Suc i) (replicate 24 0 @ map (\<lambda>st. st_TxKBs st) (take (Suc i) sts)) \<and>
    length (st_Rx (sts ! i)) = 24 \<and> length (st_Tx (sts ! i)) = 24 \<and>
    (\<forall>p \<in> insert (st_Pct (sts ! i)) (set (st_Cores (sts ! i))). 0 \<le> p \<and> p \<le> 100)"
proof -
  let ?sp = "sysinfo_New iface"
  have n: "length sts = length rs" by (simp add: assms(2))
  have h: "sp_rxHist ?sp = replicate 24 0" "sp_txHist ?sp = replicate 24 0" by (simp_all add: sysinfo_New_def histLen_def)
  have "st_Rx (sts ! i) = drop (Suc i) (replicate 24 0 @ map (\<lambda>st. st_RxKBs st) (take (Suc i) sts))"
    unfolding assms(2) h(1) [symmetric] by (rule ring_window) (simp_all add: h assms)
  moreover have "st_Tx (sts ! i) = drop (Suc i) (replicate 24 0 @ map (\<lambda>st. st_TxKBs st) (take (Suc i) sts))"
    unfolding assms(2) h(2) [symmetric] by (rule ring_window) (simp_all add: h assms)
  moreover have "sts ! i \<in> set (fst (run_samples rs ?sp))" using assms n by simp
  ultimately show ?thesis using run_samples_pcts [of "sts ! i" rs ?sp] assms(1) n by simp
qed

section \<open>Concrete readings\<close>

definition demo_readings :: "int \<Rightarrow> readings" where
  "demo_readings t = \<lparr>rd_now = t, rd_uptime = None, rd_stat = None, rd_loadavg = None, rd_thermal = None, rd_meminfo = None,
     rd_statfs = None, rd_netdev = None\<rparr>"

definition net_reading :: "int \<Rightarrow> string \<Rightarrow> readings" where
  "net_reading t rx = (demo_readings t)\<lparr>rd_netdev := Some [''eth0: '' @ rx @ '' 0 0 0 0 0 0 0 0'']\<rparr>"

lemma net_reading_counters:
  "netCounters ''eth0'' (rd_netdev (net_reading t ''2048'')) = (2048, 0)"
  "netCounters ''eth0'' (rd_netdev (net_reading t ''1024'')) = (1024, 0)"
  by (simp_all add: net_reading_def demo_readings_def netCounters_def go_string ParseUint_def parse_uint_def
      dec_val_def maxUint64_def)

lemma rates_from_counters_witness:
  "st_RxKBs (fst (Sample (net_reading (10 ^ 9) ''2048'') (snd (Sample (net_reading 0 ''1024'') (sysinfo_New ''eth0''))))) = 1 \<and>
   st_RxKBs (fst (Sample (net_reading (10 ^ 9) ''1024'') (snd (Sample (net_reading 0 ''2048'') (sysinfo_New ''eth0''))))) > 10 ^ 16"
proof
  have cpu: "rd_stat (net_reading t rx) = None" "rd_now (net_reading t rx) = t" for t rx
    by (simp_all add: net_reading_def demo_readings_def)
  have i: "sp_iface (sysinfo_New ''eth0'') = ''eth0''" by (simp add: sysinfo_New_def)
  have f: "to_float 1024 = 1024" "to_float 2048 = 2048" by (simp_all add: to_float_def)
  show "st_RxKBs (fst (Sample (net_reading (10 ^ 9) ''2048'') (snd (Sample (net_reading 0 ''1024'') (sysinfo_New ''eth0''))))) = 1"
    using rates_from_counters [of "net_reading 0 ''1024''" "net_reading (10 ^ 9) ''2048''" _ "sysinfo_New ''eth0''", OF _ refl]
    by (simp add: cpu i net_reading_counters moved_def f)
  show "st_RxKBs (fst (Sample (net_reading (10 ^ 9) ''1024'') (snd (Sample (net_reading 0 ''2048'') (sysinfo_New ''eth0''))))) > 10 ^ 16"
    using rates_from_counters [of "net_reading 0 ''2048''" "net_reading (10 ^ 9) ''1024''" _ "sysinfo_New ''eth0''", OF _ refl]
    by (simp add: cpu i net_reading_counters moved_def f)
qed

lemma sampler_window_witness:
  "length (st_Rx (fst (run_samples [demo_readings 0, demo_readings 1] (sysinfo_New ''eth0'')) ! 1)) = 24"
  using sampler_window [of 1 "[demo_readings 0, demo_readings 1]" _ "''eth0''", OF _ refl] by simp

section \<open>The files of single numbers\<close>

lemma dec_digits_point: "dec_digits m ds = Some v \<Longrightarrow> CHR ''.'' \<notin> set ds"
  by (induction ds arbitrary: m) (auto simp: dec_val_def split: option.splits if_splits)

lemma mantissa_digits:
  "dec_digits m ds = Some v \<Longrightarrow>
   mantissa pt m fr n (ds @ rest) = mantissa pt v (if pt then fr + length ds else fr) (n + length ds) rest"
proof (induction ds arbitrary: m fr n)
  case (Cons c cs)
  then obtain d where d: "dec_val c = Some d" "dec_digits (10 * m + d) cs = Some v" by (auto split: option.splits)
  have "c \<noteq> CHR ''.''" using d(1) by (auto simp: dec_val_def)
  with Cons.IH [OF d(2)] d(1) show ?case by simp
qed simp

lemma strip_sign_digit: "dec_val c = Some d \<Longrightarrow> strip_sign (c # cs) = (False, c # cs)"
  by (auto simp: strip_sign_def dec_val_def split: if_splits)

lemma ParseFloat_decimal:
  assumes "dec_digits 0 ds = Some v" and "dec_digits v fs = Some w" and "ds \<noteq> []"
  shows "ParseFloat (ds @ ''.'' @ fs) = Some (of_nat w / 10 ^ length fs)"
proof -
  obtain c cs where c: "ds = c # cs" using assms(3) by (cases ds) auto
  then have "strip_sign (ds @ ''.'' @ fs) = (False, ds @ ''.'' @ fs)"
    using assms(1) by (auto simp: strip_sign_digit split: option.splits)
  moreover have "mantissa False 0 0 0 (ds @ ''.'' @ fs) = (w, length fs, length ds + length fs, [])"
    using mantissa_digits [OF assms(1), of False 0 0 "''.'' @ fs"] mantissa_digits [OF assms(2), of True 0 "length ds" "[]"] by simp
  ultimately show ?thesis using assms(3) by (simp add: ParseFloat_def exponent_def)
qed

lemma dec_digits_range: "dec_digits v fs = Some w \<Longrightarrow> v * 10 ^ length fs \<le> w \<and> w < Suc v * 10 ^ length fs"
proof (induction fs arbitrary: v)
  case (Cons c cs)
  then obtain d where d: "dec_val c = Some d" "dec_digits (10 * v + d) cs = Some w" by (auto split: option.splits)
  have "d < 10" using d(1) by (auto simp: dec_val_def Let_def split: if_splits)
  then have "Suc (10 * v + d) * 10 ^ length cs \<le> 10 * Suc v * 10 ^ length cs" by (intro mult_right_mono) simp_all
  moreover have "10 * v * 10 ^ length cs \<le> (10 * v + d) * 10 ^ length cs" by (intro mult_right_mono) simp_all
  moreover note Cons.IH [OF d(2)]
  ultimately have "10 * v * 10 ^ length cs \<le> w" "w < 10 * Suc v * 10 ^ length cs" by linarith+
  then show ?case by (simp add: algebra_simps)
qed simp

text \<open>The uptime shown is the whole seconds of the file's first number.\<close>

lemma uptime_whole_seconds:
  assumes "dec_digits 0 ds = Some v" and "dec_digits v fs = Some w" and "ds \<noteq> []"
    and "str_fields b = (ds @ ''.'' @ fs) # rest"
  shows "uptimeSec (Some b) = int v"
proof -
  have "of_nat v * (10 :: rat) ^ length fs \<le> of_nat w" "of_nat w < of_nat (Suc v) * (10 :: rat) ^ length fs"
    using dec_digits_range [OF assms(2)] unfolding of_nat_le_iff [symmetric, where 'a = rat]
      of_nat_less_iff [symmetric, where 'a = rat] by (simp_all add: algebra_simps)
  then have "\<lfloor>of_nat w / (10 :: rat) ^ length fs\<rfloor> = int v"
    by (intro floor_unique) (simp_all add: field_simps)
  moreover have "\<not> of_nat w / (10 :: rat) ^ length fs < 0" by (simp add: not_less)
  ultimately show ?thesis
    by (simp add: uptimeSec_def assms(4) float_or_zero_def ParseFloat_decimal [OF assms(1-3), simplified] int64_of_def)
qed

end
