(* ===== verification/Config.thy ===== *)
theory Config
  imports GoNetProps
begin

text \<open>
  The runtime configuration, \<^verbatim>\<open>internal/config\<close>: every setting comes from the environment (a map
  from names to values; an unset and an empty variable are one) or has its default, and the
  activity grace is a duration read by \<^verbatim>\<open>time.ParseDuration\<close>, in nanoseconds. The fraction of a
  duration is scaled exactly here; the library scales it in floating point.
\<close>

section \<open>time.ParseDuration\<close>

definition is_digit :: "char \<Rightarrow> bool" where
  "is_digit c \<longleftrightarrow> dec_val c \<noteq> None"

fun lead_int :: "nat \<Rightarrow> string \<Rightarrow> (nat \<times> string) option" where
  "lead_int x [] = Some (x, [])"
| "lead_int x (c # cs) =
     (case dec_val c of None \<Rightarrow> Some (x, c # cs)
      | Some d \<Rightarrow> if 10 * x + d > 2 ^ 63 then None else lead_int (10 * x + d) cs)"

text \<open>Digits after the point: value, scale, and what follows; digits beyond the range are skipped.\<close>

fun lead_frac :: "bool \<Rightarrow> nat \<Rightarrow> nat \<Rightarrow> string \<Rightarrow> nat \<times> nat \<times> string" where
  "lead_frac over x scale [] = (x, scale, [])"
| "lead_frac over x scale (c # cs) =
     (case dec_val c of None \<Rightarrow> (x, scale, c # cs)
      | Some d \<Rightarrow>
          if over \<or> x > (2 ^ 63 - 1) div 10 \<or> 10 * x + d > 2 ^ 63 then lead_frac True x scale cs
          else lead_frac False (10 * x + d) (10 * scale) cs)"

definition duration_unit :: "string \<Rightarrow> nat option" where
  "duration_unit u =
     (if u = ''ns'' then Some 1
      else if u = ''us'' \<or> u = [char_of (194 :: nat), char_of (181 :: nat), CHR ''s''] \<or> u = [char_of (206 :: nat), char_of (188 :: nat), CHR ''s'']
      then Some 1000
      else if u = ''ms'' then Some (10 ^ 6)
      else if u = ''s'' then Some (10 ^ 9)
      else if u = ''m'' then Some (60 * 10 ^ 9)
      else if u = ''h'' then Some (3600 * 10 ^ 9) else None)"

text \<open>One number with its unit, and the rest of the string.\<close>

definition duration_part :: "string \<Rightarrow> (nat \<times> string) option" where
  "duration_part s =
     (if s = [] \<or> hd s \<noteq> CHR ''.'' \<and> \<not> is_digit (hd s) then None
      else (case lead_int 0 s of
              None \<Rightarrow> None
            | Some (v, s1) \<Rightarrow>
                let (f, scale, s2) = (if s1 \<noteq> [] \<and> hd s1 = CHR ''.'' then lead_frac False 0 1 (tl s1) else (0, 1, s1));
                    post = (s1 \<noteq> [] \<and> hd s1 = CHR ''.'' \<and> length s2 \<noteq> length (tl s1));
                    u = takeWhile (\<lambda>c. c \<noteq> CHR ''.'' \<and> \<not> is_digit c) s2
                in if length s1 = length s \<and> \<not> post then None
                   else (case duration_unit u of
                           None \<Rightarrow> None
                         | Some unit \<Rightarrow>
                             if v > 2 ^ 63 div unit then None
                             else let w = v * unit + f * unit div scale in
                               if f > 0 \<and> w > 2 ^ 63 then None
                               else Some (w, dropWhile (\<lambda>c. c \<noteq> CHR ''.'' \<and> \<not> is_digit c) s2))))"

lemma lead_int_length: "lead_int x s = Some (v, r) \<Longrightarrow> length r \<le> length s"
proof (induction s arbitrary: x)
  case (Cons c cs)
  then show ?case by (fastforce split: option.splits if_splits)
qed simp

lemma lead_frac_length: "lead_frac o1 x sc s = (f, sc', r) \<Longrightarrow> length r \<le> length s"
proof (induction s arbitrary: o1 x sc)
  case (Cons c cs)
  then show ?case by (fastforce split: option.splits if_splits)
qed simp

lemma duration_part_length:
  assumes "duration_part s = Some (w, r)"
  shows "length r < length s"
proof -
  have unit: "u \<noteq> []" if "duration_unit u = Some k" for u k using that by (auto simp: duration_unit_def)
  have drop: "length (dropWhile P t) < length t" if "takeWhile P t \<noteq> []" for P :: "char \<Rightarrow> bool" and t
  proof -
    have "length (takeWhile P t) + length (dropWhile P t) = length t"
      by (metis length_append takeWhile_dropWhile_id)
    moreover have "length (takeWhile P t) > 0" using that by simp
    ultimately show ?thesis by linarith
  qed
  from assms obtain v s1 where i: "lead_int 0 s = Some (v, s1)"
    by (auto simp: duration_part_def split: if_splits option.splits)
  obtain f scale s2 where f: "(if s1 \<noteq> [] \<and> hd s1 = CHR ''.'' then lead_frac False 0 1 (tl s1) else (0, 1, s1)) = (f, scale, s2)"
    by (rule prod_cases3)
  then have "length s2 \<le> length s1" by (auto dest!: lead_frac_length split: if_splits)
  with lead_int_length [OF i] have "length s2 \<le> length s" by simp
  moreover have "takeWhile (\<lambda>c. c \<noteq> CHR ''.'' \<and> \<not> is_digit c) s2 \<noteq> [] \<and>
      r = dropWhile (\<lambda>c. c \<noteq> CHR ''.'' \<and> \<not> is_digit c) s2"
    using assms i f unit by (auto simp: duration_part_def Let_def split: if_splits option.splits)
  ultimately show ?thesis using drop [of "\<lambda>c. c \<noteq> CHR ''.'' \<and> \<not> is_digit c" s2] by simp
qed

function duration_loop :: "nat \<Rightarrow> string \<Rightarrow> nat option" where
  "duration_loop d s =
     (if s = [] then Some d
      else (case duration_part s of
              None \<Rightarrow> None
            | Some (w, r) \<Rightarrow> if (d + w) mod 2 ^ 64 > 2 ^ 63 then None else duration_loop ((d + w) mod 2 ^ 64) r))"
  by pat_completeness auto

termination
  by (relation "measure (\<lambda>(d, s). length s)") (auto dest: duration_part_length)

declare duration_loop.simps [simp del]

definition ParseDuration :: "string \<Rightarrow> int option" where
  "ParseDuration s =
     (let neg = (s \<noteq> [] \<and> hd s = CHR ''-'');
          s1 = (if s \<noteq> [] \<and> (hd s = CHR ''-'' \<or> hd s = CHR ''+'') then tl s else s)
      in if s1 = ''0'' then Some 0
         else if s1 = [] then None
         else (case duration_loop 0 s1 of
                 None \<Rightarrow> None
               | Some d \<Rightarrow> if neg then Some (- int d) else if d > 2 ^ 63 - 1 then None else Some (int d)))"

section \<open>Settings\<close>

record config =
  c_Listen :: string
  c_DBPath :: string
  c_Iface :: string
  c_Grace :: int
  c_Catalogue :: string
  c_LANResolver :: string

definition env :: "(string \<Rightarrow> string option) \<Rightarrow> string \<Rightarrow> string \<Rightarrow> string" where
  "env vars k d = (case vars k of None \<Rightarrow> d | Some v \<Rightarrow> if v \<noteq> [] then v else d)"

definition envDuration :: "(string \<Rightarrow> string option) \<Rightarrow> string \<Rightarrow> int \<Rightarrow> int" where
  "envDuration vars k d = (case vars k of None \<Rightarrow> d
     | Some v \<Rightarrow> if v \<noteq> [] then (case ParseDuration v of Some t \<Rightarrow> t | None \<Rightarrow> d) else d)"

definition config_Load :: "(string \<Rightarrow> string option) \<Rightarrow> config" where
  "config_Load vars = \<lparr>
     c_Listen = env vars ''PUCKVIEW_LISTEN'' ''127.0.0.1:8091'',
     c_DBPath = env vars ''PUCKVIEW_DB'' ''/var/lib/puckview/puckview.db'',
     c_Iface = env vars ''PUCKVIEW_IFACE'' [],
     c_Grace = envDuration vars ''PUCKVIEW_GRACE'' (30 * 10 ^ 9),
     c_Catalogue = env vars ''PUCKVIEW_CATALOGUE'' ''/opt/puckview/catalogue.json'',
     c_LANResolver = env vars ''PUCKVIEW_LAN_RESOLVER'' []\<rparr>"

section \<open>A grace in seconds\<close>

lemma lead_int_digits:
  "dec_digits x ds = Some v \<Longrightarrow> v \<le> 2 ^ 63 \<Longrightarrow> t \<noteq> [] \<Longrightarrow> dec_val (hd t) = None \<Longrightarrow> lead_int x (ds @ t) = Some (v, t)"
proof (induction ds arbitrary: x)
  case Nil
  then show ?case by (cases t) auto
next
  case (Cons c cs)
  then obtain d where d: "dec_val c = Some d" "dec_digits (10 * x + d) cs = Some v"
    by (auto split: option.splits)
  have le: "a \<le> v" if "dec_digits a cs = Some v" for a
    using that
  proof (induction cs arbitrary: a)
    case (Cons c cs)
    then show ?case by (fastforce split: option.splits)
  qed simp
  have "lead_int (10 * x + d) (cs @ t) = Some (v, t)" using Cons d by blast
  with d le [OF d(2)] Cons.prems(2) show ?case by simp
qed

lemma dec_val_s [simp]: "dec_val (CHR ''s'') = None"
  by code_simp

lemma nat_string_leads: "dec_val (hd (nat_string n)) \<noteq> None"
proof -
  have "dec_digits 0 (nat_string n) = Some n" by (rule dec_digits_nat_string)
  then show ?thesis by (cases "nat_string n") (auto split: option.splits)
qed

lemma duration_part_seconds:
  assumes "n * 10 ^ 9 \<le> 2 ^ 63"
  shows "duration_part (nat_string n @ ''s'') = Some (n * 10 ^ 9, [])"
proof -
  have "lead_int 0 (nat_string n @ ''s'') = Some (n, ''s'')"
    using assms by (intro lead_int_digits dec_digits_nat_string) simp_all
  moreover have "hd (nat_string n @ ''s'') = hd (nat_string n)" by simp
  moreover have "\<not> 2 ^ 63 div 10 ^ 9 < n" using assms by simp
  ultimately show ?thesis
    using nat_string_leads [of n] by (simp add: duration_part_def is_digit_def duration_unit_def)
qed

lemma grace_in_seconds:
  assumes "n * 10 ^ 9 < 2 ^ 63"
  shows "ParseDuration (nat_string n @ ''s'') = Some (int n * 10 ^ 9)"
proof -
  have hd: "hd (nat_string n @ ''s'') \<noteq> CHR ''-''" "hd (nat_string n @ ''s'') \<noteq> CHR ''+''"
    using nat_string_leads [of n] by (auto simp: dec_val_def)
  have "duration_loop 0 (nat_string n @ ''s'') = Some (n * 10 ^ 9)"
    using assms by (subst duration_loop.simps) (simp add: duration_part_seconds, subst duration_loop.simps, simp)
  moreover have "nat_string n @ ''s'' \<noteq> ''0''" by (cases "nat_string n") auto
  ultimately show ?thesis using hd assms by (simp add: ParseDuration_def)
qed

text \<open>
  The activity gate's grace. A number of seconds in the environment is taken as written (as far
  as a 64-bit count of nanoseconds reaches); an unset, empty or unreadable setting leaves the 30
  seconds that keep the gate open over a missed pulse.
\<close>

theorem grace_setting:
  "(vars ''PUCKVIEW_GRACE'' = Some (nat_string n @ ''s'') \<and> n * 10 ^ 9 < 2 ^ 63 \<longrightarrow> c_Grace (config_Load vars) = int n * 10 ^ 9) \<and>
   ((case vars ''PUCKVIEW_GRACE'' of None \<Rightarrow> True | Some v \<Rightarrow> v = [] \<or> ParseDuration v = None) \<longrightarrow>
      c_Grace (config_Load vars) = 30 * 10 ^ 9)"
  by (auto simp: config_Load_def envDuration_def grace_in_seconds split: option.splits)

lemma grace_setting_witness:
  "c_Grace (config_Load [''PUCKVIEW_GRACE'' \<mapsto> nat_string 45 @ ''s'']) = 45 * 10 ^ 9 \<and>
   c_Grace (config_Load Map.empty) = 30 * 10 ^ 9"
  using grace_setting [of "[''PUCKVIEW_GRACE'' \<mapsto> nat_string 45 @ ''s'']" 45] grace_setting [of Map.empty 0] by simp

end
