(* ===== verification/Operations.thy ===== *)
theory Operations
  imports ApiSpecs Devices JournalSpecs
begin

text \<open>
  The server's operations, whole: what one request, one render, one probe cycle, one flush, one
  prune, the backfill and the start of \<^verbatim>\<open>internal/server\<close> do to store and memory, composed of the
  definitions of the components, and a history of them. Every operation is a run of the journal
  machine, call by call, so what the journal machine keeps under every interleaving holds for
  every history of whole operations, with the handlers as they are written.
\<close>

section \<open>Operations\<close>

datatype operation =
    O_start faults faults int
  | O_serve "nat \<Rightarrow> faults" int request
  | O_resolve "nat \<Rightarrow> faults" int string string
  | O_cache view_env "string list" int "entry list option"
  | O_render "string list" view_env "string list" int "entry list option"
  | O_probe "string list" "string \<Rightarrow> live_part option" int
  | O_gate_closed
  | O_flush faults int "string list" "string list" "string list"
  | O_prune faults faults int int "string list"
  | O_backfill faults faults faults

text \<open>\<^verbatim>\<open>Run\<close> before its loops: the devices, then the hosts remembered within the last week.\<close>

definition server_start :: "faults \<Rightarrow> faults \<Rightarrow> int \<Rightarrow> server \<Rightarrow> server" where
  "server_start f g now sv =
     sv\<lparr>sv_mem := snd (state_LoadObserved g (now - observedTTL) (sv_db sv) (reloadState f (sv_db sv) (sv_mem sv)))\<rparr>"

text \<open>The part of \<^verbatim>\<open>render\<close> that changes the model: the neighbour index, then the cache view.\<close>

definition render_model :: "string list \<Rightarrow> view_env \<Rightarrow> string list \<Rightarrow> int \<Rightarrow> entry list option \<Rightarrow> server \<Rightarrow> server" where
  "render_model ks env ko now entries sv =
     (let (byMAC, es) = neighSnapshot entries
      in sv\<lparr>sv_mem := snd (buildCache env ko now es (applyNeigh ks byMAC now (sv_mem sv)))\<rparr>)"

definition backfillLegacy :: "faults \<Rightarrow> faults \<Rightarrow> faults \<Rightarrow> server \<Rightarrow> server" where
  "backfillLegacy f g h sv =
     (if \<not> LegacyBackfillPending f (sv_db sv) then sv
      else (case BackfillLegacy g (sv_db sv) of
              (n, Some e, db) \<Rightarrow> sv\<lparr>sv_db := db\<rparr>
            | (n, None, db) \<Rightarrow> sv\<lparr>sv_db := db, sv_mem := reloadState h db (sv_mem sv)\<rparr>))"

fun operate :: "api_env \<Rightarrow> operation \<Rightarrow> server \<Rightarrow> server" where
  "operate env (O_start f g now) sv = server_start f g now sv"
| "operate env (O_serve fs t req) sv = snd (snd (serve env fs t req sv))"
| "operate env (O_resolve fs t mac ip) sv = (case resolveAsync fs t env mac ip sv of None \<Rightarrow> sv | Some sv' \<Rightarrow> sv')"
| "operate env (O_cache ve ko now entries) sv = snd (handleCache ve ko now entries sv)"
| "operate env (O_render ks ve ko now entries) sv = render_model ks ve ko now entries sv"
| "operate env (O_probe ks results now) sv = sv\<lparr>sv_mem := applyProbes ks results now (sv_mem sv)\<rparr>"
| "operate env O_gate_closed sv = sv\<lparr>sv_mem := clearLive (sv_mem sv)\<rparr>"
| "operate env (O_flush f t kd ko km) sv =
     (let (e, db, s) = server_flush f t kd ko km (sv_db sv, sv_mem sv) in sv\<lparr>sv_db := db, sv_mem := s\<rparr>)"
| "operate env (O_prune f g now later ks) sv =
     (let (db, s) = server_prune f g now later ks (sv_db sv, sv_mem sv) in sv\<lparr>sv_db := db, sv_mem := s\<rparr>)"
| "operate env (O_backfill f g h) sv = backfillLegacy f g h sv"

text \<open>A \<^verbatim>\<open>range\<close> over a map visits each of its keys once.\<close>

fun orders_ok :: "operation \<Rightarrow> server \<Rightarrow> bool" where
  "orders_ok (O_render ks ve ko now entries) sv \<longleftrightarrow> enumerates ks (dom (s_devs (sv_mem sv)))"
| "orders_ok (O_probe ks results now) sv \<longleftrightarrow> enumerates ks (dom results)"
| "orders_ok (O_flush f t kd ko km) sv \<longleftrightarrow> enumerates kd (dom (s_devs (sv_mem sv))) \<and>
     enumerates ko (s_obsDirty (sv_mem sv)) \<and> enumerates km (dom (s_ipMoves (sv_mem sv)))"
| "orders_ok (O_prune f g now later ks) sv \<longleftrightarrow> enumerates ks (dom (s_obs (sv_mem sv)))"
| "orders_ok _ sv \<longleftrightarrow> True"

definition run_operations :: "api_env \<Rightarrow> operation list \<Rightarrow> server \<Rightarrow> server option" where
  "run_operations env = run_actions orders_ok (operate env)"

text \<open>The transition rows an operation produces: only a probe cycle appends any.\<close>

fun produced_by :: "operation \<Rightarrow> server \<Rightarrow> seen_event list" where
  "produced_by (O_probe ks results now) sv = probe_events ks results now (sv_mem sv)"
| "produced_by _ sv = []"

fun rows_produced :: "api_env \<Rightarrow> operation list \<Rightarrow> server \<Rightarrow> seen_event list" where
  "rows_produced env [] sv = []"
| "rows_produced env (op # ops) sv = produced_by op sv @ rows_produced env ops (operate env op sv)"

text \<open>What a history asked to forget: the devices it untracked, the cutoffs of its prunes.\<close>

fun untracked_by :: "operation \<Rightarrow> string set" where
  "untracked_by (O_serve fs t (Req_untrack mac)) = {NormMAC mac}"
| "untracked_by _ = {}"

fun cutoffs_of :: "operation \<Rightarrow> int set" where
  "cutoffs_of (O_prune f g now later ks) = {later - seenEventTTL}"
| "cutoffs_of _ = {}"

section \<open>Runs of the journal machine\<close>

text \<open>
  The machine between operations: no flush and no reload under way, the devices \<open>G\<close> untracked so far,
  the cutoffs \<open>C\<close> pruned behind; \<open>leads y\<close> says that it can get there from \<open>y\<close>.
\<close>

definition at_rest :: "sys \<Rightarrow> db \<Rightarrow> state \<Rightarrow> string set \<Rightarrow> int set \<Rightarrow> seen_event list \<Rightarrow> bool" where
  "at_rest y db s G C L \<longleftrightarrow> y_db y = db \<and> y_mem y = s \<and> y_flight y = Idle \<and> y_loads y = [] \<and> y_gone y = G \<and> y_cuts y = C \<and> y_log y = L"

definition leads :: "sys \<Rightarrow> db \<Rightarrow> state \<Rightarrow> string set \<Rightarrow> int set \<Rightarrow> seen_event list \<Rightarrow> bool" where
  "leads y db s G C L \<longleftrightarrow> (\<exists>as z. run_acts as y = Some z \<and> at_rest z db s G C L)"

lemma leads_run:
  assumes "leads y db s G C L"
    and "\<And>z. at_rest z db s G C L \<Longrightarrow> \<exists>z'. run_acts bs z = Some z' \<and> at_rest z' db' s' G' C' L'"
  shows "leads y db' s' G' C' L'"
proof -
  obtain as z where z: "run_acts as y = Some z" "at_rest z db s G C L" using assms(1) by (auto simp: leads_def)
  from assms(2) [OF z(2)] obtain z' where "run_acts bs z = Some z'" "at_rest z' db' s' G' C' L'" by blast
  with z(1) have "run_acts (as @ bs) y = Some z'" by (simp add: run_actions_append)
  with \<open>at_rest z' db' s' G' C' L'\<close> show ?thesis unfolding leads_def by blast
qed

lemma leads_refl: "at_rest y db s G C L \<Longrightarrow> leads y db s G C L"
  unfolding leads_def by (intro exI [of _ "[]"]) simp

text \<open>One lemma for each atomic call.\<close>

lemma leads_call:
  assumes "leads y db s G C L" and "case c of C_Flush _ _ \<Rightarrow> False | C_Backfill \<Rightarrow> False | _ \<Rightarrow> True"
  shows "leads y (run_call f c db) s (G \<union> gone_by c) (C \<union> cut_by c) L"
  using assms(2) by (intro leads_run [OF assms(1), of "[StoreCall f c]"]) (simp add: at_rest_def)

lemma leads_mem:
  assumes "leads y db s G C L"
  shows "enumerates ks (dom (s_devs s)) \<Longrightarrow> leads y db (applyNeigh ks byMAC now s) G C L"
    and "enumerates kr (dom results) \<Longrightarrow> leads y db (applyProbes kr results now s) G C (L @ probe_events kr results now s)"
    and "leads y db (clearLive s) G C L"
    and "leads y db (touchObserved mac ip name now s) G C L"
    and "leads y db (forgetObserved mac s) G C L"
    and "enumerates ko (dom (s_obs s)) \<Longrightarrow> leads y db (pruneObserved ko before s) G C L"
    and "leads y db (snd (state_LoadObserved f since db s)) G C L"
  using leads_run [OF assms, of "[Neigh ks byMAC now]"] leads_run [OF assms, of "[Probes kr results now]"]
    leads_run [OF assms, of "[ClearLive]"] leads_run [OF assms, of "[Touch mac ip name now]"]
    leads_run [OF assms, of "[Forget mac]"] leads_run [OF assms, of "[PruneMem ko before]"]
    leads_run [OF assms, of "[LoadObs f since]"]
  by (simp_all add: at_rest_def)

lemma leads_reload:
  assumes "leads y db s G C L"
  shows "leads y db (reloadState f db s) G C L"
proof (cases "store_List f db")
  case (Inl e)
  with assms show ?thesis by (simp add: reloadState_def state_Load_def)
next
  case (Inr devs)
  then show ?thesis
    by (intro leads_run [OF assms, of "[ReadDevices f, MergeDevices 0]"])
      (simp add: at_rest_def reloadState_def state_Load_def)
qed

lemma leads_flush:
  assumes "leads y db s G C L" and "enumerates kd (dom (s_devs s))" and "enumerates ko (s_obsDirty s)"
    and "enumerates km (dom (s_ipMoves s))" and "server_flush f t kd ko km (db, s) = (e, db', s')"
  shows "leads y db' s' G C L"
proof -
  obtain b s1 where d: "drain kd ko km s = (b, s1)" by (cases "drain kd ko km s")
  show ?thesis
  proof (cases "batch_Empty b")
    case True
    with assms d show ?thesis
      by (intro leads_run [OF assms(1), of "[Drain kd ko km]"]) (simp add: at_rest_def server_flush_def)
  next
    case False
    obtain r db1 where fl: "store_Flush f t b db = (r, db1)" by (cases "store_Flush f t b db")
    show ?thesis
    proof (cases r)
      case None
      with assms d fl False show ?thesis
        by (intro leads_run [OF assms(1), of "[Drain kd ko km, Commit f t]"]) (simp add: at_rest_def server_flush_def)
    next
      case (Some x)
      with assms d fl False show ?thesis
        by (intro leads_run [OF assms(1), of "[Drain kd ko km, Commit f t, Restore]"]) (auto simp: at_rest_def server_flush_def)
    qed
  qed
qed

lemma leads_backfill_loop:
  "leads y db s G C L \<Longrightarrow> leads y (snd (snd (backfill_loop f k n macs db))) s G C L"
proof (induction macs arbitrary: k n db)
  case (Cons mac macs)
  obtain r db1 where b: "backfillOne f k mac db = (r, db1)" by (cases "backfillOne f k mac db")
  then have "leads y db1 s G C L"
    by (intro leads_run [OF Cons.prems, of "[BackfillStep f k mac]"]) (simp add: at_rest_def)
  with Cons.IH b show ?case by (cases r) simp_all
qed simp

lemma leads_Backfill:
  assumes "leads y db s G C L"
  shows "leads y (snd (snd (BackfillLegacy f db))) s G C L"
proof (cases "legacyMACs (f 0) db")
  case (Inl e)
  with assms show ?thesis by (simp add: BackfillLegacy_def)
next
  case (Inr macs)
  obtain n r db1 where l: "backfill_loop f 1 0 macs db = (n, r, db1)" by (rule prod_cases3)
  with leads_backfill_loop [OF assms, of f 1 0 macs] have db1: "leads y db1 s G C L" by simp
  have "leads y (db1\<lparr>t_seen_history := None\<rparr>) s G C L"
    by (intro leads_run [OF db1, of "[DropHistory]"]) (simp add: at_rest_def)
  with db1 Inr l show ?thesis by (simp add: BackfillLegacy_def Let_def split: option.splits)
qed

lemma leads_store:
  assumes "leads y db s G C L"
  shows "leads y (snd (store_Add f t d db)) s G C L" and "leads y (snd (store_Patch f t m p db)) s G C L"
    and "leads y (snd (store_Delete f m db)) s (insert (NormMAC m) G) C L"
    and "leads y (snd (store_AddProbe f m port db)) s G C L" and "leads y (snd (store_DeleteProbe f m port db)) s G C L"
    and "leads y (snd (store_DeleteObserved f m db)) s G C L" and "leads y (snd (store_PruneObserved f b db)) s G C L"
    and "leads y (snd (store_PruneSeenEvents f b db)) s G (insert b C) L"
  using leads_call [OF assms, of "C_Add t d" f] leads_call [OF assms, of "C_Patch t m p" f]
    leads_call [OF assms, of "C_Delete m" f] leads_call [OF assms, of "C_AddProbe m port" f]
    leads_call [OF assms, of "C_DeleteProbe m port" f] leads_call [OF assms, of "C_DeleteObserved m" f]
    leads_call [OF assms, of "C_PruneObserved b" f] leads_call [OF assms, of "C_PruneSeenEvents b" f]
  by (simp_all add: gone_by_def cut_by_def)

section \<open>Every operation is a run\<close>

definition sv_leads :: "sys \<Rightarrow> server \<Rightarrow> string set \<Rightarrow> int set \<Rightarrow> seen_event list \<Rightarrow> bool" where
  "sv_leads y sv G C L \<longleftrightarrow> leads y (sv_db sv) (sv_mem sv) G C L"

lemma sv_leads_refresh: "leads y (sv_db sv) (sv_mem sv) G C L \<Longrightarrow> sv_leads y (refresh f sv) G C L"
  by (simp add: sv_leads_def refresh_def leads_reload)

lemma sv_leads_finish:
  assumes "leads y (snd r) (sv_mem sv) G C L"
  shows "sv_leads y (snd (snd (finish code f r sv))) G C L"
proof (cases r)
  case (Pair e db1)
  with assms have "leads y db1 (sv_mem sv) G C L" by simp
  with Pair show ?thesis
    by (cases e) (simp_all add: finish_def sv_leads_refresh sv_leads_def [of y "sv\<lparr>sv_db := db1\<rparr>"])
qed

lemma sv_leads_track:
  assumes "leads y (sv_db sv) (sv_mem sv) G C L"
  shows "sv_leads y (snd (snd (handleTrackDevice fs t body sv))) G C L"
proof (cases body)
  case None
  with assms show ?thesis by (simp add: handleTrackDevice_def sv_leads_def)
next
  case (Some b)
  let ?d = "blank_device\<lparr>d_MAC := tb_MAC b, d_IP := tb_IP b, d_Name := clampName (tb_Name b)\<rparr>"
  obtain r db1 where add: "store_Add (fs 0) t ?d (sv_db sv) = (r, db1)" by (cases "store_Add (fs 0) t ?d (sv_db sv)")
  then have db1: "leads y db1 (sv_mem sv) G C L" using leads_store(1) [OF assms, of "fs 0" t ?d] by simp
  have fin: "sv_leads y (refresh (fs 3) (sv\<lparr>sv_db := db, sv_mem := forgetObserved (NormMAC (tb_MAC b)) (sv_mem sv)\<rparr>)) G C L"
    if "leads y db (sv_mem sv) G C L" for db
    by (intro sv_leads_refresh) (simp add: leads_mem(5) that)
  consider "\<not> macRe (tb_MAC b) \<or> tb_IP b \<noteq> [] \<and> \<not> validIP (tb_IP b)"
    | e where "macRe (tb_MAC b)" "tb_IP b = [] \<or> validIP (tb_IP b)" "r = Some e"
    | "macRe (tb_MAC b)" "tb_IP b = [] \<or> validIP (tb_IP b)" "r = None" by (cases r) auto
  then show ?thesis
  proof cases
    case 1
    with assms Some show ?thesis by (auto simp: handleTrackDevice_def sv_leads_def)
  next
    case 2
    with db1 add Some show ?thesis by (auto simp: handleTrackDevice_def Let_def sv_leads_def)
  next
    case 3
    then show ?thesis using add Some fin [OF leads_store(6) [OF db1]] fin [OF leads_store(2) [OF leads_store(6) [OF db1]]]
      by (auto simp: handleTrackDevice_def Let_def)
  qed
qed

lemma sv_leads_resolve:
  "leads y db s G C L \<Longrightarrow> leads y (applyResolve f g t mac res db) s G C L"
  by (simp add: applyResolve_def Let_def leads_store)

lemma sv_leads_serve:
  assumes "leads y (sv_db sv) (sv_mem sv) G C L"
  shows "sv_leads y (snd (snd (serve env fs t req sv))) (G \<union> untracked_by (O_serve fs t req)) C L"
proof (cases req)
  case (Req_track body)
  with sv_leads_track [OF assms] show ?thesis by simp
next
  case (Req_resolve path)
  with assms show ?thesis
    by (auto simp: handleResolve_def Let_def sv_leads_def [of _ sv] sv_leads_resolve intro!: sv_leads_refresh
        split: sum.splits option.splits)
next
  case (Req_scan body)
  with assms show ?thesis by (auto simp: handleScan_def sv_leads_def split: option.splits)
qed (use assms in \<open>auto simp: handlePatchDevice_def handleUntrackDevice_def handleAddProbe_def handleDeleteProbe_def
    sv_leads_def [of _ sv] leads_store intro!: sv_leads_finish split: option.splits\<close>)

lemma leads_cache_present:
  "leads y db s G C L \<Longrightarrow> leads y db (snd (snd (cache_present env trk now es (out, pr, s)))) G C L"
  by (induction es arbitrary: out pr s) (auto simp: Let_def leads_mem(4))

lemma leads_buildCache:
  assumes "leads y db s G C L"
  shows "leads y db (snd (buildCache env ko now es s)) G C L"
proof -
  from leads_cache_present [OF assms, of env "tracked s" now es "[]" "{}"] show ?thesis
    by (cases "cache_present env (tracked s) now es ([], {}, s)") (simp add: buildCache_def Let_def)
qed

lemma operation_leads:
  assumes "leads y (sv_db sv) (sv_mem sv) G C L" and "orders_ok op sv"
  shows "sv_leads y (operate env op sv) (G \<union> untracked_by op) (C \<union> cutoffs_of op) (L @ produced_by op sv)"
proof (cases op)
  case (O_start f g now)
  with assms(1) show ?thesis by (simp add: server_start_def sv_leads_def leads_mem(7) leads_reload)
next
  case (O_serve fs t req)
  with sv_leads_serve [OF assms(1), of env fs t req] show ?thesis by simp
next
  case (O_resolve fs t mac ip)
  with assms(1) show ?thesis
    by (auto simp: resolveAsync_def sv_leads_def [of _ sv] sv_leads_resolve intro!: sv_leads_refresh split: option.splits)
next
  case (O_cache ve ko now entries)
  with assms(1) leads_buildCache show ?thesis by (simp add: handleCache_def sv_leads_def split: prod.splits) (metis snd_conv)
next
  case (O_render ks ve ko now entries)
  with assms show ?thesis
    by (simp add: render_model_def sv_leads_def leads_buildCache leads_mem(1) split: prod.splits)
next
  case (O_flush f t kd ko km)
  obtain e db s where r: "server_flush f t kd ko km (sv_db sv, sv_mem sv) = (e, db, s)" by (rule prod_cases3)
  with leads_flush [OF assms(1) _ _ _ r] assms(2) O_flush show ?thesis by (simp add: sv_leads_def)
next
  case (O_prune f g now later ks)
  have "leads y (snd (store_PruneSeenEvents g (later - seenEventTTL) (snd (store_PruneObserved f (now - observedTTL) (sv_db sv)))))
      (pruneObserved ks (now - observedTTL) (sv_mem sv)) G (insert (later - seenEventTTL) C) L"
    using assms O_prune by (intro leads_store leads_mem) simp_all
  with O_prune show ?thesis by (simp add: server_prune_def sv_leads_def)
next
  case (O_backfill f g h)
  obtain n r db where b: "BackfillLegacy g (sv_db sv) = (n, r, db)" by (rule prod_cases3)
  then have "leads y db (sv_mem sv) G C L" using leads_Backfill [OF assms(1), of g] by simp
  with assms(1) b O_backfill show ?thesis
    by (auto simp: backfillLegacy_def sv_leads_def leads_reload split: option.splits)
qed (use assms in \<open>simp_all add: sv_leads_def leads_mem\<close>)

section \<open>Histories of operations\<close>

lemma operations_lead:
  assumes "run_operations env ops sv = Some sv'" and "leads y (sv_db sv) (sv_mem sv) G C L"
  shows "leads y (sv_db sv') (sv_mem sv') (G \<union> \<Union> (untracked_by ` set ops)) (C \<union> \<Union> (cutoffs_of ` set ops))
    (L @ rows_produced env ops sv)"
  using assms
proof (induction ops arbitrary: sv G C L)
  case Nil
  then show ?case by (simp add: run_operations_def)
next
  case (Cons op ops)
  then have ok: "orders_ok op sv" and r: "run_operations env ops (operate env op sv) = Some sv'"
    by (simp_all add: run_operations_def split: if_splits)
  from Cons.IH [OF r operation_leads [OF Cons.prems(2) ok, unfolded sv_leads_def]]
  show ?case by (simp add: Un_assoc)
qed

lemma operations_reach:
  assumes "wf_db (sv_db sv)" and "sv_mem sv = newState" and "run_operations env ops sv = Some sv'"
  shows "\<exists>y. reachable boot server_step y \<and> at_rest y (sv_db sv') (sv_mem sv') (\<Union> (untracked_by ` set ops))
    (\<Union> (cutoffs_of ` set ops)) (t_seen_events (sv_db sv) @ rows_produced env ops sv)"
proof -
  let ?y = "\<lparr>y_db = sv_db sv, y_mem = newState, y_flight = Idle, y_loads = [], y_log = t_seen_events (sv_db sv),
    y_gone = {}, y_cuts = {}\<rparr>"
  have y: "reachable boot server_step ?y" using assms(1) by (intro reach_init) (simp add: boot_def)
  have "leads ?y (sv_db sv) (sv_mem sv) {} {} (t_seen_events (sv_db sv))"
    by (intro leads_refl) (simp add: at_rest_def assms(2))
  from operations_lead [OF assms(3) this] show ?thesis
    using journal.run_reachable [OF y] by (auto simp: leads_def)
qed

text \<open>The rows a history did not ask to forget.\<close>

definition survives :: "operation list \<Rightarrow> seen_event \<Rightarrow> bool" where
  "survives ops e \<longleftrightarrow> (\<forall>op \<in> set ops. ev_MAC e \<notin> untracked_by op \<and> (\<forall>c \<in> cutoffs_of op. c \<le> ev_TS e))"

section \<open>A concrete history\<close>

text \<open>
  The box starts on one tracked device, finds it up, then down, and prunes; one transition is
  produced, and nothing is old enough to be forgotten.
\<close>

definition demo_history :: "operation list" where
  "demo_history = [O_start (\<lambda>_. False) (\<lambda>_. False) 0, O_probe [''m''] [''m'' \<mapsto> demo_up] 10,
     O_probe [''m''] [''m'' \<mapsto> no_live] 12, O_prune (\<lambda>_. False) (\<lambda>_. False) 20 20 []]"

definition demo_after :: server where
  "demo_after = demo_server\<lparr>sv_mem :=
     newState\<lparr>s_devs := [''m'' \<mapsto> demo_ds], s_order := [''m''], s_events := [demo_event]\<rparr>\<rparr>"

lemma demo_ListObserved: "store_ListObserved (\<lambda>_. False) since demo_db = Inr []"
  by (simp add: store_ListObserved_def demo_db_def)

lemma demo_history_run:
  "run_operations env demo_history demo_server = Some demo_after"
  "rows_produced env demo_history demo_server = [demo_event]"
  by (simp_all add: run_operations_def demo_history_def demo_server_def demo_run_simps demo_after_def server_start_def
    server_prune_def probe_events_def demo_ds_def demo_event_def reloadState_def state_Load_def state_LoadObserved_def
    demo_ListObserved pruneObserved_def)
    (simp add: demo_db_def store_PruneObserved_def store_PruneSeenEvents_def delete_where_def)

section \<open>Properties\<close>

text \<open>
  C5. The operations refine the journal machine. Whatever sequence of requests, resolves, renders,
  probe cycles, flushes, prunes, backfills and starts the server goes through after its creation
  on a well-formed store, with whatever failing statements, some run of the journal machine's
  atomic calls reaches the same store and memory, at rest, having produced the same transition
  rows, untracked the same devices and pruned behind the same cutoffs: all that holds of the
  reachable states of that machine holds after every history of whole operations.
\<close>

theorem operations_refine_journal:
  assumes "wf_db (sv_db sv)" and "sv_mem sv = newState" and "run_operations env ops sv = Some sv'"
  shows "\<exists>y. reachable boot server_step y \<and> y_flight y = Idle \<and> y_loads y = [] \<and>
    y_db y = sv_db sv' \<and> y_mem y = sv_mem sv' \<and> y_gone y = \<Union> (untracked_by ` set ops) \<and>
    y_cuts y = \<Union> (cutoffs_of ` set ops) \<and> y_log y = t_seen_events (sv_db sv) @ rows_produced env ops sv"
  using operations_reach [OF assms] by (auto simp: at_rest_def)

lemma operations_refine_journal_witness:
  "\<exists>y. reachable boot server_step y \<and> y_db y = demo_db \<and> y_mem y = sv_mem demo_after \<and> y_log y = [demo_event]"
proof -
  have "wf_db (sv_db demo_server)" "sv_mem demo_server = newState" "t_seen_events (sv_db demo_server) = []"
    "sv_db demo_after = demo_db"
    using wf_demo_db by (simp_all add: demo_server_def demo_after_def) (simp add: demo_db_def)
  with operations_refine_journal [OF _ _ demo_history_run(1), of demo_env] show ?thesis
    by (auto simp: demo_history_run)
qed

text \<open>
  C7. Nothing is lost over the life of the process. After any history of operations whose final
  flush succeeds, the store holds exactly the transition rows it started with and those the probe
  cycles produced, in order, except those of devices the history untracked or pruned; and the
  next start brings back the presence of every device shown before.
\<close>

theorem history_survives_restart:
  assumes "wf_db (sv_db sv)" and "sv_mem sv = newState" and "run_operations env ops sv = Some sv'"
    and "orders_ok (O_flush f t kd ko km) sv'"
    and "server_flush f t kd ko km (sv_db sv', sv_mem sv') = (None, db, s)" and "\<forall>k. \<not> g k"
  shows "filter (survives ops) (t_seen_events db) =
      filter (survives ops) (t_seen_events (sv_db sv) @ rows_produced env ops sv) \<and>
    (\<forall>mac ds. (\<forall>op \<in> set ops. mac \<notin> untracked_by op) \<longrightarrow> s_devs (sv_mem sv') mac = Some ds \<longrightarrow>
      presence_ahead (Some (dev_presence ds)) (mem_presence (reloadState g db newState) mac))"
proof -
  obtain y where y: "reachable boot server_step y"
    "at_rest y (sv_db sv') (sv_mem sv') (\<Union> (untracked_by ` set ops)) (\<Union> (cutoffs_of ` set ops))
      (t_seen_events (sv_db sv) @ rows_produced env ops sv)"
    using operations_reach [OF assms(1-3)] by blast
  then have k: "kept y = survives ops" by (auto simp: at_rest_def kept_def survives_def fun_eq_iff)
  note r = shutdown_restart [OF y(1) _ _ _ assms(6), of kd ko km f t db s]
  have "filter (survives ops) (t_seen_events db) =
      filter (survives ops) (t_seen_events (sv_db sv) @ rows_produced env ops sv)"
    using flushed_rows [OF y(1), of kd ko km f t db s] y(2) assms(4,5) by (auto simp: at_rest_def k)
  moreover have "presence_ahead (Some (dev_presence ds)) (mem_presence (reloadState g db newState) mac)"
    if "\<forall>op \<in> set ops. mac \<notin> untracked_by op" "s_devs (sv_mem sv') mac = Some ds" for mac ds
    using r [of mac ds] y(2) assms(4,5) that by (auto simp: at_rest_def)
  ultimately show ?thesis by blast
qed

lemma history_survives_restart_witness:
  "let (e, db, s) = server_flush (\<lambda>_. False) 30 [''m''] [] [] (demo_db, sv_mem demo_after) in
   e = None \<and> filter (survives demo_history) (t_seen_events db) = [demo_event] \<and>
   presence_ahead (Some (1, 10, 10)) (mem_presence (reloadState (\<lambda>_. False) db newState) ''m'')"
proof -
  let ?r = "server_flush (\<lambda>_. False) 30 [''m''] [] [] (sv_db demo_after, sv_mem demo_after)"
  have sv: "wf_db (sv_db demo_server)" "sv_mem demo_server = newState" "t_seen_events (sv_db demo_server) = []"
    "sv_db demo_after = demo_db" "orders_ok (O_flush (\<lambda>_. False) 30 [''m''] [] []) demo_after"
    using wf_demo_db by (simp_all add: demo_server_def demo_after_def enumerates_def newState_def) (simp add: demo_db_def)
  have e: "fst ?r = None"
    by (simp add: server_flush_def demo_after_def demo_server_def drain_def Let_def map_filter_simps batch_Empty_def
        store_Flush_def exec_all_ok newState_def demo_ds_def)
  then have r: "?r = (None, fst (snd ?r), snd (snd ?r))" by (simp add: prod_eq_iff)
  have ds: "s_devs (sv_mem demo_after) ''m'' = Some demo_ds" "dev_presence demo_ds = (1, 10, 10)"
    by (simp_all add: demo_after_def dev_presence_def demo_ds_def boolInt_def)
  have "survives demo_history demo_event" "\<forall>op \<in> set demo_history. ''m'' \<notin> untracked_by op"
    by (simp_all add: survives_def demo_history_def demo_event_def seenEventTTL_def)
  with history_survives_restart [OF sv(1,2) demo_history_run(1) sv(5) r, of "\<lambda>_. False"] e ds show ?thesis
    by (fastforce simp: case_prod_unfold Let_def sv demo_history_run)
qed

end
