(* ===== verification/Lifecycle.thy ===== *)
theory Lifecycle
  imports JournalSpecs
begin

text \<open>
  The life of the process: \<^verbatim>\<open>cmd/puckview/main.go\<close> and \<^verbatim>\<open>Server.Run\<close>. The goroutine of \<^verbatim>\<open>Run\<close> loads,
  starts the backfill and the five loops, waits for them and flushes once more; the main goroutine
  serves until it is told to stop, waits for \<^verbatim>\<open>Run\<close> and closes the store. Requests in flight and
  the backfill run beside both and nobody waits for them. Each atomic call of the journal machine
  belongs to a goroutine, and is taken only while that goroutine is running.
\<close>

section \<open>The process\<close>

datatype looper = Render_loop | Probe_loop | Names_loop | Meta_loop | Maintenance_loop

text \<open>
  Where \<^verbatim>\<open>Run\<close> is: before its loops; with the loops that have not returned; past \<^verbatim>\<open>wg.Wait\<close>; in the
  final flush; returned. Where \<^verbatim>\<open>main\<close> is: in \<^verbatim>\<open>ListenAndServe\<close>; at \<^verbatim>\<open><-runDone\<close>; returned, the
  deferred \<^verbatim>\<open>st.Close\<close> included; or dead by \<^verbatim>\<open>log.Fatalf\<close>, which runs no deferred call.
\<close>

datatype run_phase = Starting | Looping "looper set" | Joined | Flushing | Returned
datatype main_phase = Serving | Waiting | Exited | Fatal

record process =
  p_sys :: sys
  p_run :: run_phase
  p_main :: main_phase
  p_ctx_done :: bool
  p_store_open :: bool
  p_flush_failed :: bool

text \<open>
  \<^verbatim>\<open>main\<close> up to \<^verbatim>\<open>ListenAndServe\<close>. A failed network detection is only logged; a store that does
  not open ends the process.
\<close>

definition main_start :: "bool \<Rightarrow> faults \<Rightarrow> db \<Rightarrow> process option" where
  "main_start opened f db0 =
     (case store_Open opened f db0 of
        (Some e, db) \<Rightarrow> None
      | (None, db) \<Rightarrow> Some
          \<lparr>p_sys = \<lparr>y_db = db, y_mem = newState, y_flight = Idle, y_loads = [], y_log = t_seen_events db,
             y_gone = {}, y_cuts = {}\<rparr>,
           p_run = Starting, p_main = Serving, p_ctx_done = False, p_store_open = True, p_flush_failed = False\<rparr>)"

section \<open>Whose call it is\<close>

text \<open>\<^verbatim>\<open>Run\<close> before its loops: the two loads, and the first render.\<close>

fun start_acts :: "act \<Rightarrow> bool" where
  "start_acts (ReadDevices f) \<longleftrightarrow> True"
| "start_acts (MergeDevices i) \<longleftrightarrow> True"
| "start_acts (LoadObs f since) \<longleftrightarrow> True"
| "start_acts (Neigh ks byMAC now) \<longleftrightarrow> True"
| "start_acts (Touch mac ip name now) \<longleftrightarrow> True"
| "start_acts _ \<longleftrightarrow> False"

fun loop_acts :: "looper \<Rightarrow> act \<Rightarrow> bool" where
  "loop_acts Render_loop (Neigh ks byMAC now) \<longleftrightarrow> True"
| "loop_acts Render_loop (Touch mac ip name now) \<longleftrightarrow> True"
| "loop_acts Probe_loop (Probes ks results now) \<longleftrightarrow> True"
| "loop_acts Probe_loop ClearLive \<longleftrightarrow> True"
| "loop_acts Maintenance_loop (Drain kd ko km) \<longleftrightarrow> True"
| "loop_acts Maintenance_loop (Commit f t) \<longleftrightarrow> True"
| "loop_acts Maintenance_loop Restore \<longleftrightarrow> True"
| "loop_acts Maintenance_loop (PruneMem ks before) \<longleftrightarrow> True"
| "loop_acts Maintenance_loop (StoreCall f (C_PruneObserved before)) \<longleftrightarrow> True"
| "loop_acts Maintenance_loop (StoreCall f (C_PruneSeenEvents before)) \<longleftrightarrow> True"
| "loop_acts _ _ \<longleftrightarrow> False"

text \<open>The API: its store calls, the reload, the hosts it forgets, and the cache view's sightings.\<close>

fun handler_acts :: "act \<Rightarrow> bool" where
  "handler_acts (StoreCall f c) \<longleftrightarrow> (case c of C_Add t d \<Rightarrow> True | C_Patch t m p \<Rightarrow> True | C_Delete m \<Rightarrow> True
     | C_AddProbe m port \<Rightarrow> True | C_DeleteProbe m port \<Rightarrow> True | C_DeleteObserved m \<Rightarrow> True | _ \<Rightarrow> False)"
| "handler_acts (ReadDevices f) \<longleftrightarrow> True"
| "handler_acts (MergeDevices i) \<longleftrightarrow> True"
| "handler_acts (Forget mac) \<longleftrightarrow> True"
| "handler_acts (Touch mac ip name now) \<longleftrightarrow> True"
| "handler_acts _ \<longleftrightarrow> False"

fun backfill_acts :: "act \<Rightarrow> bool" where
  "backfill_acts (BackfillStep f k mac) \<longleftrightarrow> True"
| "backfill_acts DropHistory \<longleftrightarrow> True"
| "backfill_acts (ReadDevices f) \<longleftrightarrow> True"
| "backfill_acts (MergeDevices i) \<longleftrightarrow> True"
| "backfill_acts _ \<longleftrightarrow> False"

fun flush_acts :: "act \<Rightarrow> bool" where
  "flush_acts (Commit f t) \<longleftrightarrow> True"
| "flush_acts Restore \<longleftrightarrow> True"
| "flush_acts _ \<longleftrightarrow> False"

text \<open>What \<^verbatim>\<open>Run\<close> and what it started may do; the backfill outlives it.\<close>

fun run_may :: "run_phase \<Rightarrow> act \<Rightarrow> bool" where
  "run_may Starting a \<longleftrightarrow> start_acts a \<or> backfill_acts a"
| "run_may (Looping ls) a \<longleftrightarrow> (\<exists>l \<in> ls. loop_acts l a) \<or> backfill_acts a"
| "run_may Joined a \<longleftrightarrow> backfill_acts a"
| "run_may Flushing a \<longleftrightarrow> flush_acts a \<or> backfill_acts a"
| "run_may Returned a \<longleftrightarrow> backfill_acts a"

section \<open>Steps\<close>

datatype life_act =
    Do act
  | Start_loops
  | Signal
  | Loop_returns looper
  | Join
  | Final_drain "string list" "string list" "string list"
  | Run_returns
  | Serve_closed
  | Serve_failed
  | Main_returns

definition alive :: "process \<Rightarrow> bool" where
  "alive p \<longleftrightarrow> p_main p = Serving \<or> p_main p = Waiting"

definition all_loops :: "looper set" where
  "all_loops = {Render_loop, Probe_loop, Names_loop, Meta_loop, Maintenance_loop}"

text \<open>
  A loop sees the cancelled context between two turns, so the maintenance loop returns with no
  flush under way. \<^verbatim>\<open>ListenAndServe\<close> returns as soon as \<^verbatim>\<open>Shutdown\<close> is called, with requests still
  in flight.
\<close>

fun life_enabled :: "life_act \<Rightarrow> process \<Rightarrow> bool" where
  "life_enabled (Do a) p \<longleftrightarrow> alive p \<and> (run_may (p_run p) a \<or> handler_acts a) \<and> enabled a (p_sys p)"
| "life_enabled Start_loops p \<longleftrightarrow> alive p \<and> p_run p = Starting"
| "life_enabled Signal p \<longleftrightarrow> alive p"
| "life_enabled (Loop_returns l) p \<longleftrightarrow> alive p \<and> p_ctx_done p \<and>
     (case p_run p of Looping ls \<Rightarrow> l \<in> ls \<and> (l = Maintenance_loop \<longrightarrow> y_flight (p_sys p) = Idle) | _ \<Rightarrow> False)"
| "life_enabled Join p \<longleftrightarrow> alive p \<and> p_run p = Looping {}"
| "life_enabled (Final_drain kd ko km) p \<longleftrightarrow> alive p \<and> p_run p = Joined \<and> enabled (Drain kd ko km) (p_sys p)"
| "life_enabled Run_returns p \<longleftrightarrow> alive p \<and> p_run p = Flushing \<and> y_flight (p_sys p) = Idle"
| "life_enabled Serve_closed p \<longleftrightarrow> p_main p = Serving \<and> p_ctx_done p"
| "life_enabled Serve_failed p \<longleftrightarrow> p_main p = Serving"
| "life_enabled Main_returns p \<longleftrightarrow> p_main p = Waiting \<and> p_run p = Returned"

fun life_perform :: "life_act \<Rightarrow> process \<Rightarrow> process" where
  "life_perform (Do a) p = p\<lparr>p_sys := perform a (p_sys p),
     p_flush_failed := p_flush_failed p \<or> (p_run p = Flushing \<and> a = Restore)\<rparr>"
| "life_perform Start_loops p = p\<lparr>p_run := Looping all_loops\<rparr>"
| "life_perform Signal p = p\<lparr>p_ctx_done := True\<rparr>"
| "life_perform (Loop_returns l) p = p\<lparr>p_run := (case p_run p of Looping ls \<Rightarrow> Looping (ls - {l}) | r \<Rightarrow> r)\<rparr>"
| "life_perform Join p = p\<lparr>p_run := Joined\<rparr>"
| "life_perform (Final_drain kd ko km) p = p\<lparr>p_sys := perform (Drain kd ko km) (p_sys p), p_run := Flushing\<rparr>"
| "life_perform Run_returns p = p\<lparr>p_run := Returned\<rparr>"
| "life_perform Serve_closed p = p\<lparr>p_main := Waiting\<rparr>"
| "life_perform Serve_failed p = p\<lparr>p_main := Fatal\<rparr>"
| "life_perform Main_returns p = p\<lparr>p_main := Exited, p_store_open := False\<rparr>"

inductive life_step :: "process \<Rightarrow> process \<Rightarrow> bool" where
  "life_enabled a p \<Longrightarrow> life_step p (life_perform a p)"

inductive_cases life_stepE: "life_step p p'"

definition life_boot :: "process \<Rightarrow> bool" where
  "life_boot p \<longleftrightarrow> (\<exists>opened f db. wf_db db \<and> main_start opened f db = Some p)"

section \<open>A migrated store is well formed\<close>

lemma wf_rows_all:
  assumes "wf_rows rows" and "\<And>r. r_mac (g r) = r_mac r" and "\<And>r. r_icmp_seen (g r) \<in> {0, r_icmp_seen r}"
  shows "wf_rows (map g rows)"
proof -
  have "map r_mac (map g rows) = map r_mac rows" using assms(2) by simp
  then have "primary_key r_mac (map g rows)" using assms(1) unfolding primary_key_def wf_rows_def by argo
  moreover have "r_icmp_seen (g r) \<in> {0, 1}" if "r_icmp_seen r \<in> {0, 1}" for r using assms(3) [of r] that by auto
  ultimately show ?thesis using assms(1,2) by (simp add: wf_rows_def)
qed

lemma wf_add_column: "wf_db db \<Longrightarrow> wf_db (add_column c db)"
  unfolding wf_db_def add_column_def by (simp add: wf_rows_all)

lemma wf_fold_columns: "wf_db db \<Longrightarrow> wf_db (fold add_column cs db)"
  by (induction cs arbitrary: db) (simp_all add: wf_add_column)

lemma wf_version: "wf_db (db\<lparr>user_version := v\<rparr>) = wf_db db" "wf_db (base_schema db) = wf_db db"
  by (simp_all add: wf_db_def base_schema_def)

lemma wf_Open:
  assumes "store_Open opened f db0 = (e, db)" and "wf_db db0"
  shows "wf_db db"
proof (cases opened)
  case True
  with assms(1) have "store_migrate f db0 = (e, db)" by (simp add: store_Open_def)
  then show ?thesis
    using assms(2) by (cases rule: migrate_cases) (auto simp: wf_fold_columns wf_version split: if_splits)
qed (use assms in \<open>simp add: store_Open_def\<close>)

section \<open>The invariant\<close>

text \<open>Memory that a drain has just emptied: nothing pending but addresses and sightings of hosts.\<close>

definition settled_mem :: "state \<Rightarrow> bool" where
  "settled_mem s \<longleftrightarrow> s_events s = [] \<and> (\<forall>mac ds. s_devs s mac = Some ds \<longrightarrow> \<not> ds_dirty ds)"

definition life_inv :: "process \<Rightarrow> bool" where
  "life_inv p \<longleftrightarrow> journal_inv (p_sys p) \<and> finite (dom (s_ipMoves (y_mem (p_sys p)))) \<and>
     (case p_run p of Looping ls \<Rightarrow> ls \<subseteq> all_loops \<and> (Maintenance_loop \<notin> ls \<longrightarrow> y_flight (p_sys p) = Idle)
      | Flushing \<Rightarrow> True | _ \<Rightarrow> y_flight (p_sys p) = Idle) \<and>
     (p_run p \<in> {Flushing, Returned} \<longrightarrow> \<not> p_flush_failed p \<longrightarrow> settled_mem (y_mem (p_sys p))) \<and>
     (p_main p = Exited \<longrightarrow> p_run p = Returned) \<and> (p_store_open p \<longleftrightarrow> p_main p \<noteq> Exited)"

lemma finite_moves_folds:
  "finite (dom (s_ipMoves s)) \<Longrightarrow> finite (dom (s_ipMoves (fold (neigh_step byMAC now) ks s)))"
  "s_ipMoves (fold (probe_step results now) ks s) = s_ipMoves s"
  "s_ipMoves (fold (prune_step before) ks s) = s_ipMoves s"
  "s_ipMoves (fold load_obs_step xs s) = s_ipMoves s"
proof -
  show "finite (dom (s_ipMoves s)) \<Longrightarrow> finite (dom (s_ipMoves (fold (neigh_step byMAC now) ks s)))"
    by (induction ks arbitrary: s) (simp_all add: neigh_step_def Let_def split: option.splits)
  show "s_ipMoves (fold (probe_step results now) ks s) = s_ipMoves s"
    by (induction ks arbitrary: s) (simp_all add: probe_step_def split: option.splits prod.splits)
  show "s_ipMoves (fold (prune_step before) ks s) = s_ipMoves s"
    by (induction ks arbitrary: s) (simp_all add: prune_step_def forgetObserved_def split: option.splits)
  show "s_ipMoves (fold load_obs_step xs s) = s_ipMoves s"
    by (induction xs arbitrary: s) (simp_all add: load_obs_step_def split: option.splits)
qed

lemma finite_moves_restore:
  fixes s :: state
  assumes "finite (dom (s_ipMoves s))"
  shows "finite (dom (s_ipMoves (restore b s)))"
proof -
  have "finite (dom (s_ipMoves (fold (\<lambda>m t. if s_ipMoves t (im_MAC m) = None
      then t\<lparr>s_ipMoves := (s_ipMoves t)(im_MAC m \<mapsto> im_IP m)\<rparr> else t) ms t)))" if "finite (dom (s_ipMoves t))" for ms :: "ip_move list" and t :: state
    using that by (induction ms arbitrary: t) simp_all
  moreover have "s_ipMoves (fold (\<lambda>x t. if s_obs t (ob_MAC x) \<noteq> None
      then t\<lparr>s_obsDirty := insert (ob_MAC x) (s_obsDirty t)\<rparr> else t) xs t) = s_ipMoves t" for xs :: "observed list" and t :: state
    by (induction xs arbitrary: t) simp_all
  moreover have "s_ipMoves (fold (\<lambda>u t. case s_devs t (su_MAC u) of None \<Rightarrow> t
      | Some ds \<Rightarrow> t\<lparr>s_devs := (s_devs t)(su_MAC u \<mapsto> ds\<lparr>ds_dirty := True\<rparr>)\<rparr>) us t) = s_ipMoves t" for us :: "seen_update list" and t :: state
    by (induction us arbitrary: t) (simp_all split: option.splits)
  ultimately show ?thesis using assms by (simp add: restore_def Let_def)
qed

lemma finite_moves_perform:
  assumes "finite (dom (s_ipMoves (y_mem y)))"
  shows "finite (dom (s_ipMoves (y_mem (perform a y))))"
proof (cases a)
  case (Drain kd ko km)
  then show ?thesis by (simp add: drain_def Let_def)
next
  case Restore
  with assms show ?thesis by (simp add: finite_moves_restore split: flight.split)
next
  case (Commit f t)
  with assms show ?thesis by (simp split: flight.split prod.split option.split)
qed (use assms in \<open>simp_all add: applyNeigh_def applyProbes_def pruneObserved_def state_LoadObserved_def finite_moves_folds
    touchObserved_def forgetObserved_def load_merge_def Let_def split: sum.split\<close>)

text \<open>What the calls of the handlers, the backfill and the flush leave settled.\<close>

lemma settled_drain: "set kd = dom (s_devs s) \<Longrightarrow> settled_mem (snd (drain kd ko km s))"
  by (auto simp: settled_mem_def drain_def Let_def dom_def split: if_splits)

lemma settled_behind:
  assumes "settled_mem (y_mem y)" and "journal_inv y" and "enabled a y"
    and "flush_acts a \<or> backfill_acts a \<or> handler_acts a" and "a \<noteq> Restore"
  shows "settled_mem (y_mem (perform a y))"
proof (cases a)
  case (MergeDevices i)
  with assms(2,3) have "wf_devices (y_loads y ! i)" by (simp add: journal_inv_def wf_sys_def)
  with MergeDevices assms(1) show ?thesis
    by (auto simp: settled_mem_def load_merge_devs load_dirty split: option.splits)
next
  case (Commit f t)
  with assms(1) show ?thesis by (simp split: flight.split prod.split option.split)
next
  case (ReadDevices f)
  with assms(1) show ?thesis by (simp split: sum.split)
qed (use assms in \<open>simp_all add: settled_mem_def\<close>)

lemma idle_perform:
  assumes "y_flight y = Idle" and "enabled a y" and "\<forall>kd ko km. a \<noteq> Drain kd ko km"
  shows "y_flight (perform a y) = Idle"
  using assms by (cases a) (simp_all split: sum.split)

lemma run_may_drain:
  assumes "run_may r (Drain kd ko km) \<or> handler_acts (Drain kd ko km)"
  shows "\<exists>ls. r = Looping ls \<and> Maintenance_loop \<in> ls"
  using assms by (cases r) (auto elim: loop_acts.elims)

lemma life_inv_init:
  assumes "life_boot p"
  shows "life_inv p"
proof -
  obtain opened f db0 where o: "wf_db db0" "main_start opened f db0 = Some p"
    using assms by (auto simp: life_boot_def)
  then obtain db where db: "store_Open opened f db0 = (None, db)"
    and p: "p = \<lparr>p_sys = \<lparr>y_db = db, y_mem = newState, y_flight = Idle, y_loads = [], y_log = t_seen_events db,
      y_gone = {}, y_cuts = {}\<rparr>,
      p_run = Starting, p_main = Serving, p_ctx_done = False, p_store_open = True, p_flush_failed = False\<rparr>"
    by (cases "store_Open opened f db0") (auto simp: main_start_def split: option.splits)
  have "boot (p_sys p)" using wf_Open [OF db o(1)] by (simp add: p boot_def)
  then have "journal_inv (p_sys p)" by (rule journal.inv_init)
  then show ?thesis by (simp add: p life_inv_def newState_def)
qed

lemma life_inv_Do:
  assumes inv: "life_inv p" and en: "life_enabled (Do a) p"
  shows "life_inv (life_perform (Do a) p)"
proof -
  have en': "enabled a (p_sys p)" "run_may (p_run p) a \<or> handler_acts a" "alive p" using en by simp_all
  have j: "journal_inv (perform a (p_sys p))" using inv en'(1) by (intro journal.inv_perform) (simp_all add: life_inv_def)
  have fin: "finite (dom (s_ipMoves (y_mem (perform a (p_sys p)))))"
    using inv by (intro finite_moves_perform) (simp add: life_inv_def)
  have idle: "y_flight (perform a (p_sys p)) = Idle"
    if "y_flight (p_sys p) = Idle" "\<not> (\<exists>ls. p_run p = Looping ls \<and> Maintenance_loop \<in> ls)"
    using that en'(1,2) run_may_drain by (intro idle_perform) blast+
  have set: "settled_mem (y_mem (perform a (p_sys p)))"
    if "p_run p \<in> {Flushing, Returned}" "settled_mem (y_mem (p_sys p))" "a \<noteq> Restore"
    using that inv en' by (intro settled_behind) (auto simp: life_inv_def)
  have restore: "p_run p = Returned \<Longrightarrow> a \<noteq> Restore" using en'(1) inv by (auto simp: life_inv_def)
  show ?thesis
  proof (cases "p_run p")
    case (Looping ls)
    with inv j fin idle show ?thesis by (auto simp: life_inv_def simp del: perform.simps)
  next
    case Flushing
    with inv j fin set show ?thesis by (auto simp: life_inv_def simp del: perform.simps)
  next
    case Returned
    with inv j fin set idle restore show ?thesis by (auto simp: life_inv_def simp del: perform.simps)
  qed (use inv j fin idle in \<open>auto simp: life_inv_def simp del: perform.simps\<close>)
qed

lemma life_inv_step:
  assumes inv: "life_inv p" and "life_step p p'"
  shows "life_inv p'"
proof -
  obtain a where en: "life_enabled a p" and p': "p' = life_perform a p" using assms(2) by (rule life_stepE)
  show ?thesis
  proof (cases a)
    case (Do b)
    with life_inv_Do inv en p' show ?thesis by blast
  next
    case (Final_drain kd ko km)
    then have d: "enabled (Drain kd ko km) (p_sys p)" using en by simp
    then have "set kd = dom (s_devs (y_mem (p_sys p)))" by (simp add: enumerates_def)
    then have "settled_mem (y_mem (perform (Drain kd ko km) (p_sys p)))" unfolding perform_Drain by (rule settled_drain)
    moreover have "journal_inv (perform (Drain kd ko km) (p_sys p))"
      using inv d by (intro journal.inv_perform) (simp_all add: life_inv_def)
    moreover have "finite (dom (s_ipMoves (y_mem (perform (Drain kd ko km) (p_sys p)))))"
      using inv by (intro finite_moves_perform) (simp add: life_inv_def)
    ultimately show ?thesis
      using inv en p' Final_drain by (auto simp: life_inv_def alive_def simp del: perform.simps)
  qed (use inv en p' in \<open>auto simp: life_inv_def alive_def all_loops_def split: run_phase.splits\<close>)
qed

interpretation life: action_machine life_boot life_step life_inv life_enabled life_perform
  by unfold_locales (rule life_inv_init life_inv_step life_step.intros, assumption+)+

section \<open>A shutdown always ends\<close>

definition can_exit :: "nat \<Rightarrow> process \<Rightarrow> bool" where
  "can_exit n p \<longleftrightarrow> (\<exists>as p'. length as \<le> n \<and> run_actions life_enabled life_perform as p = Some p' \<and> p_main p' = Exited)"

lemma can_exit_step: "life_enabled a p \<Longrightarrow> can_exit n (life_perform a p) \<Longrightarrow> can_exit (Suc n) p"
  unfolding can_exit_def by (elim exE conjE, rule_tac x = "a # as" in exI) (simp del: life_perform.simps life_enabled.simps)

lemma can_exit_mono: "can_exit n p \<Longrightarrow> n \<le> m \<Longrightarrow> can_exit m p"
  unfolding can_exit_def by (meson le_trans)

lemma some_order: "finite A \<Longrightarrow> \<exists>ks. enumerates ks A"
  using finite_distinct_list [of A] by (auto simp: enumerates_def)

lemma can_drain:
  assumes "life_inv p" and "y_flight (p_sys p) = Idle"
  obtains kd ko km where "enabled (Drain kd ko km) (p_sys p)"
proof -
  have wf: "wf_state (y_mem (p_sys p))" and m: "finite (dom (s_ipMoves (y_mem (p_sys p))))"
    using assms(1) by (simp_all add: life_inv_def journal_inv_def wf_sys_def)
  have "finite (dom (s_devs (y_mem (p_sys p))))"
    using wf List.finite_set [of "s_order (y_mem (p_sys p))"] unfolding wf_state_def by argo
  moreover have "finite (s_obsDirty (y_mem (p_sys p)))"
    using wf finite_subset unfolding wf_state_def by blast
  ultimately show thesis
    using some_order m assms(2) that by (metis enabled.simps(8))
qed

text \<open>A flush under way is brought to its end by whoever runs it, in at most two calls.\<close>

lemma end_flush:
  assumes "alive p" and "\<forall>f t. run_may (p_run p) (Commit f t)" and "run_may (p_run p) Restore"
    and "\<And>q. p_run q = p_run p \<Longrightarrow> p_main q = p_main p \<Longrightarrow> p_ctx_done q = p_ctx_done p \<Longrightarrow>
      life_inv q \<Longrightarrow> y_flight (p_sys q) = Idle \<Longrightarrow> can_exit n q"
    and "life_inv p"
  shows "can_exit (n + 2) p"
proof (cases "y_flight (p_sys p)")
  case Idle
  with assms have "can_exit n p" by blast
  then show ?thesis by (rule can_exit_mono) simp
next
  case (Failed b)
  let ?q = "life_perform (Do Restore) p"
  have en: "life_enabled (Do Restore) p" using assms Failed by simp
  have "can_exit n ?q"
    using life.inv_perform [OF assms(5) en] Failed by (intro assms(4)) simp_all
  then have "can_exit (Suc n) p" by (rule can_exit_step [OF en])
  then show ?thesis by (rule can_exit_mono) simp
next
  case (Drained b)
  let ?a = "Do (Commit (\<lambda>_. True) 0)"
  let ?q = "life_perform ?a p"
  have en: "life_enabled ?a p" using assms Drained by simp
  note inv = life.inv_perform [OF assms(5) en]
  have "can_exit (Suc n) ?q"
  proof (cases "y_flight (p_sys ?q)")
    case Idle
    have "can_exit n ?q" using inv Idle by (intro assms(4)) simp_all
    then show ?thesis by (rule can_exit_mono) simp
  next
    case (Failed c)
    have en2: "life_enabled (Do Restore) ?q" using assms(1,3) Failed by (simp add: alive_def)
    have "can_exit n (life_perform (Do Restore) ?q)"
      using life.inv_perform [OF inv en2] Failed by (intro assms(4)) simp_all
    then show ?thesis by (rule can_exit_step [OF en2])
  next
    case (Drained c)
    with \<open>y_flight (p_sys p) = Drained b\<close> show ?thesis by (simp split: prod.splits option.splits)
  qed
  from can_exit_step [OF en this] show ?thesis by simp
qed

text \<open>Backwards over the phases of \<^verbatim>\<open>Run\<close>, with \<^verbatim>\<open>main\<close> already past \<^verbatim>\<open>ListenAndServe\<close>.\<close>

lemma exit_Returned:
  assumes "p_main p = Waiting" and "p_run p = Returned"
  shows "can_exit 1 p"
  using can_exit_step [of Main_returns p 0] assms by (simp add: can_exit_def [of 0])

lemma exit_Flushing:
  assumes "p_main p = Waiting" and "p_run p = Flushing" and "life_inv p"
  shows "can_exit 4 p"
proof -
  have "can_exit 2 q" if "p_run q = Flushing" "p_main q = Waiting" "y_flight (p_sys q) = Idle" for q
    using can_exit_step [of Run_returns q 1] exit_Returned [of "life_perform Run_returns q"] that
    by (simp add: alive_def numeral_2_eq_2)
  then show ?thesis using assms end_flush [of p 2] by (simp add: alive_def)
qed

lemma exit_Joined:
  assumes "p_main p = Waiting" and "p_run p = Joined" and "life_inv p"
  shows "can_exit 5 p"
proof -
  have "y_flight (p_sys p) = Idle" using assms(2,3) by (simp add: life_inv_def)
  from can_drain [OF assms(3) this] obtain kd ko km where "enabled (Drain kd ko km) (p_sys p)" .
  then have en: "life_enabled (Final_drain kd ko km) p" using assms by (simp add: alive_def)
  have "can_exit 4 (life_perform (Final_drain kd ko km) p)"
    using life.inv_perform [OF assms(3) en] assms(1) by (intro exit_Flushing) simp_all
  from can_exit_step [OF en this] show ?thesis by simp
qed

lemma exit_Looping:
  assumes "p_main p = Waiting" and "p_ctx_done p" and "life_inv p" and "y_flight (p_sys p) = Idle"
    and "p_run p = Looping ls" and "finite ls" and "card ls = k"
  shows "can_exit (k + 6) p"
  using assms
proof (induction k arbitrary: p ls)
  case 0
  then have en: "life_enabled Join p" by (simp add: alive_def)
  have "can_exit 5 (life_perform Join p)"
    using life.inv_perform [OF 0(3) en] 0 by (intro exit_Joined) simp_all
  from can_exit_step [OF en this] show ?case by simp
next
  case (Suc k)
  then obtain l where l: "l \<in> ls" by fastforce
  have en: "life_enabled (Loop_returns l) p" using Suc.prems l by (simp add: alive_def)
  have "can_exit (k + 6) (life_perform (Loop_returns l) p)"
    using life.inv_perform [OF Suc.prems(3) en] Suc.prems l by (intro Suc.IH [of _ "ls - {l}"]) simp_all
  from can_exit_step [OF en this] show ?case by simp
qed

lemma exit_waiting:
  assumes m: "p_main p = Waiting" and c: "p_ctx_done p" and inv: "life_inv p"
  shows "can_exit 14 p"
proof (cases "p_run p")
  case Starting
  then have en: "life_enabled Start_loops p" using m by (simp add: alive_def)
  have "can_exit (5 + 6) (life_perform Start_loops p)"
    using life.inv_perform [OF inv en] Starting m c inv
    by (intro exit_Looping [where ls = all_loops]) (simp_all add: life_inv_def, simp_all add: all_loops_def)
  from can_exit_step [OF en this] show ?thesis by (rule can_exit_mono) simp
next
  case (Looping ls)
  then have ls: "ls \<subseteq> all_loops" using inv by (simp add: life_inv_def)
  have "finite all_loops" "card all_loops = 5" by (simp_all add: all_loops_def)
  with ls have fin: "finite ls" "card ls \<le> 5" using finite_subset card_mono by metis+
  have idle: "can_exit 11 q" if "p_main q = Waiting" "p_ctx_done q" "life_inv q" "y_flight (p_sys q) = Idle" "p_run q = Looping ls" for q
    using exit_Looping [OF that fin(1) refl] fin(2) by (auto intro: can_exit_mono)
  show ?thesis
  proof (cases "Maintenance_loop \<in> ls")
    case True
    then have "\<forall>f t. run_may (p_run p) (Commit f t)" "run_may (p_run p) Restore" using Looping by force+
    from end_flush [OF _ this _ inv, of 11] have "can_exit 13 p" using idle m c Looping by (simp add: alive_def)
    then show ?thesis by (rule can_exit_mono) simp
  next
    case False
    then have "y_flight (p_sys p) = Idle" using inv Looping by (simp add: life_inv_def)
    with idle m c inv Looping have "can_exit 11 p" by blast
    then show ?thesis by (rule can_exit_mono) simp
  qed
next
  case Joined
  with exit_Joined [OF m _ inv] show ?thesis by (auto intro: can_exit_mono)
next
  case Flushing
  with exit_Flushing [OF m _ inv] show ?thesis by (auto intro: can_exit_mono)
next
  case Returned
  with exit_Returned [OF m] show ?thesis by (auto intro: can_exit_mono)
qed

lemma exit_alive:
  assumes a: "alive p" and c: "p_ctx_done p" and inv: "life_inv p"
  shows "can_exit 15 p"
proof (cases "p_main p = Waiting")
  case True
  show ?thesis by (rule can_exit_mono [OF exit_waiting [OF True c inv]]) simp
next
  case False
  then have en: "life_enabled Serve_closed p" using a c by (simp add: alive_def)
  have "can_exit 14 (life_perform Serve_closed p)"
    using life.inv_perform [OF inv en] c by (intro exit_waiting) simp_all
  from can_exit_step [OF en this] show ?thesis by simp
qed

section \<open>What an exit leaves\<close>

text \<open>A run to a clean exit, with a request answered between the final flush and the end of \<^verbatim>\<open>main\<close>.\<close>

definition demo_process :: process where
  "demo_process = the (main_start True (\<lambda>_. False) demo_db)"

definition demo_exit_acts :: "life_act list" where
  "demo_exit_acts = [Do (ReadDevices (\<lambda>_. False)), Do (MergeDevices 0), Start_loops,
     Do (Probes [''m''] [''m'' \<mapsto> demo_up] 10), Do (Probes [''m''] [''m'' \<mapsto> no_live] 12), Signal,
     Loop_returns Render_loop, Loop_returns Probe_loop, Loop_returns Names_loop, Loop_returns Meta_loop,
     Loop_returns Maintenance_loop, Join, Final_drain [''m''] [] [], Do (Commit (\<lambda>_. False) 30), Run_returns,
     Do (Touch ''h'' ''10.0.0.9'' [] 100), Serve_closed, Main_returns]"

lemma demo_Open: "main_start True (\<lambda>_. False) demo_db = Some demo_process" "p_sys demo_process = demo_boot"
  "p_run demo_process = Starting" "p_main demo_process = Serving" "\<not> p_ctx_done demo_process"
  "p_store_open demo_process" "\<not> p_flush_failed demo_process"
  unfolding demo_process_def by (simp_all add: main_start_def store_Open_def migrate_ok missing_def base_schema_def demo_boot_def,
    simp_all add: demo_db_def deviceCols_def derivedColumns_def schemaVersion_def)

lemma demo_alive: "reachable life_boot life_step demo_process" "alive demo_process"
  using demo_Open wf_demo_db by (intro reach_init, unfold life_boot_def alive_def, blast+)

lemma demo_exit: "\<exists>p. run_actions life_enabled life_perform demo_exit_acts demo_process = Some p \<and>
    p_main p = Exited \<and> \<not> p_store_open p \<and> \<not> p_flush_failed p \<and> y_gone (p_sys p) = {} \<and> y_cuts (p_sys p) = {} \<and>
    y_log (p_sys p) = [demo_event] \<and> s_devs (y_mem (p_sys p)) ''m'' = Some (demo_ds\<lparr>ds_dirty := False\<rparr>) \<and>
    s_obsDirty (y_mem (p_sys p)) = {''h''}"
  by (simp add: demo_exit_acts_def demo_Open alive_def all_loops_def demo_run_simps probe_events_def demo_ds_def
    demo_event_def drain_def map_filter_simps batch_Empty_def store_Flush_def exec_all_ok)
    (simp add: touchObserved_def)

definition demo_exited :: process where
  "demo_exited = the (run_actions life_enabled life_perform demo_exit_acts demo_process)"

lemma demo_exited:
  "run_actions life_enabled life_perform demo_exit_acts demo_process = Some demo_exited"
  "\<not> p_store_open demo_exited" "\<not> p_flush_failed demo_exited" "y_gone (p_sys demo_exited) = {}" "y_cuts (p_sys demo_exited) = {}"
  "y_log (p_sys demo_exited) = [demo_event]" "s_obsDirty (y_mem (p_sys demo_exited)) = {''h''}"
  "s_devs (y_mem (p_sys demo_exited)) ''m'' = Some (demo_ds\<lparr>ds_dirty := False\<rparr>)"
  using demo_exit by (auto simp: demo_exited_def)

lemma demo_exited_reachable: "reachable life_boot life_step demo_exited"
  by (rule life.run_reachable [OF demo_alive(1) demo_exited(1)])

text \<open>
  Requests are still served behind the final flush, and the cache view marks the hosts it shows:
  a sighting can be pending in memory when the process ends cleanly.
\<close>

lemma sighting_behind_final_flush:
  "\<exists>p. reachable life_boot life_step p \<and> \<not> p_store_open p \<and> \<not> p_flush_failed p \<and> s_obsDirty (y_mem (p_sys p)) \<noteq> {}"
  using demo_exited_reachable demo_exited(2,3,7) by blast

text \<open>
  When \<^verbatim>\<open>ListenAndServe\<close> fails, \<^verbatim>\<open>log.Fatalf\<close> ends the process where it stands: neither the final
  flush nor \<^verbatim>\<open>st.Close\<close> runs, and transition rows still pending are gone.
\<close>

lemma fatal_exit_drops_pending:
  "\<exists>p. reachable life_boot life_step p \<and> p_main p = Fatal \<and> p_store_open p \<and> s_events (y_mem (p_sys p)) = [demo_event] \<and>
     t_seen_events (y_db (p_sys p)) = []"
proof -
  let ?as = "take 5 demo_exit_acts @ [Serve_failed]"
  have "\<exists>p. run_actions life_enabled life_perform ?as demo_process = Some p \<and> p_main p = Fatal \<and> p_store_open p \<and>
      s_events (y_mem (p_sys p)) = [demo_event] \<and> t_seen_events (y_db (p_sys p)) = []"
    by (simp add: demo_exit_acts_def demo_Open alive_def all_loops_def demo_run_simps demo_event_def) (simp add: demo_db_def)
  with life.run_reachable [OF demo_alive(1)] show ?thesis by blast
qed

section \<open>Properties\<close>

text \<open>
  C8. A clean exit loses no presence. The store is closed only after \<^verbatim>\<open>Run\<close> has returned, with no
  flush cut off under way; and unless the final flush itself failed, whatever requests and
  backfill steps were still served around it, the store then holds exactly the transition rows
  produced (of devices not untracked, not pruned), and the stored presence of every device in
  memory that was never untracked is at least as far ahead as memory's.
\<close>

theorem clean_exit_loses_nothing:
  assumes "reachable life_boot life_step p" and "\<not> p_store_open p"
  shows "p_run p = Returned \<and> y_flight (p_sys p) = Idle \<and> (p_flush_failed p \<or>
    filter (kept (p_sys p)) (t_seen_events (y_db (p_sys p))) = filter (kept (p_sys p)) (y_log (p_sys p)) \<and>
    (\<forall>mac ds. mac \<notin> y_gone (p_sys p) \<longrightarrow> s_devs (y_mem (p_sys p)) mac = Some ds \<longrightarrow>
      presence_ahead (Some (dev_presence ds)) (presence_at (y_db (p_sys p)) mac)))"
proof -
  have inv: "life_inv p" by (rule life.reachable_inv [OF assms(1)])
  then have r: "p_run p = Returned" and idle: "y_flight (p_sys p) = Idle" and j: "journal_inv (p_sys p)"
    and st: "p_flush_failed p \<or> settled_mem (y_mem (p_sys p))"
    using assms(2) by (auto simp: life_inv_def)
  have b: "flight_batch (p_sys p) = \<lparr>b_Seen = [], b_Events = [], b_Obs = [], b_IPMoves = []\<rparr>"
    using idle by (rule flight_batch_flight)
  have "filter (kept (p_sys p)) (t_seen_events (y_db (p_sys p))) = filter (kept (p_sys p)) (y_log (p_sys p))"
    if "settled_mem (y_mem (p_sys p))"
    using j that b by (simp add: journal_inv_def log_inv_def all_events_def settled_mem_def)
  moreover have "presence_ahead (Some (dev_presence ds)) (presence_at (y_db (p_sys p)) mac)"
    if "settled_mem (y_mem (p_sys p))" "mac \<notin> y_gone (p_sys p)" "s_devs (y_mem (p_sys p)) mac = Some ds" for mac ds
    using j that b ahead_invD(2) [of "p_sys p" mac ds] settled_idle [of mac "p_sys p"]
    by (simp add: journal_inv_def settled_mem_def updates_for_def)
  ultimately show ?thesis using r idle st by blast
qed

lemma clean_exit_loses_nothing_witness:
  "filter (kept (p_sys demo_exited)) (t_seen_events (y_db (p_sys demo_exited))) = [demo_event] \<and>
   presence_ahead (Some (1, 10, 10)) (presence_at (y_db (p_sys demo_exited)) ''m'')"
proof -
  have "dev_presence (demo_ds\<lparr>ds_dirty := False\<rparr>) = (1, 10, 10)"
    by (simp add: dev_presence_def demo_ds_def boolInt_def)
  moreover have "kept (p_sys demo_exited) demo_event" by (simp add: kept_def demo_exited)
  moreover note clean_exit_loses_nothing [OF demo_exited_reachable demo_exited(2), unfolded demo_exited(6)]
  ultimately show ?thesis using demo_exited(3,4,8) by (metis empty_iff filter.simps)
qed

text \<open>
  C25. A stop is never blocked. Once the process was told to stop, in whatever state that finds it
  (starting, between turns of its loops, in the middle of a flush, its database failing), some
  sequence of at most fifteen steps takes it to a clean exit with the store closed.
\<close>

theorem stop_is_never_blocked:
  assumes "reachable life_boot life_step p" and "alive p" and "p_ctx_done p"
  shows "\<exists>as p'. length as \<le> 15 \<and> run_actions life_enabled life_perform as p = Some p' \<and> p_main p' = Exited \<and>
    \<not> p_store_open p'"
proof -
  obtain as p' where r: "length as \<le> 15" "run_actions life_enabled life_perform as p = Some p'" "p_main p' = Exited"
    using exit_alive [OF assms(2,3) life.reachable_inv [OF assms(1)]] by (auto simp: can_exit_def)
  have "life_inv p'" by (rule life.reachable_inv [OF life.run_reachable [OF assms(1) r(2)]])
  with r show ?thesis by (auto simp: life_inv_def)
qed

lemma stop_is_never_blocked_witness:
  "\<exists>as p'. length as \<le> 15 \<and>
     run_actions life_enabled life_perform as (life_perform Signal demo_process) = Some p' \<and> p_main p' = Exited"
proof -
  have "reachable life_boot life_step (life_perform Signal demo_process)"
    using demo_alive by (intro reach_step [OF demo_alive(1)] life_step.intros) simp
  from stop_is_never_blocked [OF this] demo_alive(2) show ?thesis by (auto simp: alive_def)
qed

end

