(* ===== verification/Routes.thy ===== *)
theory Routes
  imports Api Hub Netconf Wake
begin

text \<open>
  The HTTP surface of \<^verbatim>\<open>server.go\<close>: the route table as \<^verbatim>\<open>routes\<close> registers it, the way \<^verbatim>\<open>http.ServeMux\<close>
  (Go 1.22 and later) dispatches on it, the handlers that are no part of the JSON API, and the whole
  of a request: whichever handler it is for, on the server, the hub and the wakes together. A path is
  given as it stands in the request (escaped, its query cut off) and is assumed to be well escaped:
  the library answers others before the mux sees them.
\<close>

section \<open>The table\<close>

datatype handler = H_static | H_index | H_events | H_healthz | H_info | H_pulse | H_list_devices | H_track
  | H_patch | H_untrack | H_wake | H_cancel_wake | H_resolve | H_add_probe | H_delete_probe | H_cache | H_scan

definition routes :: "(string \<times> handler) list" where
  "routes =
     [(''/static/'', H_static), (''/'', H_index),
      (''/events'', H_events), (''/healthz'', H_healthz),
      (''GET /api/info'', H_info), (''POST /api/pulse'', H_pulse),
      (''GET /api/devices'', H_list_devices), (''POST /api/devices'', H_track),
      (''PATCH /api/devices/{mac}'', H_patch), (''DELETE /api/devices/{mac}'', H_untrack),
      (''POST /api/devices/{mac}/wake'', H_wake), (''DELETE /api/devices/{mac}/wake'', H_cancel_wake),
      (''POST /api/devices/{mac}/resolve'', H_resolve), (''POST /api/devices/{mac}/probes'', H_add_probe),
      (''DELETE /api/devices/{mac}/probes/{port}'', H_delete_probe),
      (''GET /api/cache'', H_cache), (''POST /api/scan'', H_scan)]"

section \<open>Patterns\<close>

text \<open>
  A pattern is an optional method and a path of literals, one-segment wildcards and, for a trailing
  slash, the wildcard of everything below. (No pattern of the table names a host or uses the
  remaining forms of wildcard.)
\<close>

datatype seg = Lit string | Wild string | Multi

record route =
  rt_method :: "string option"
  rt_segs :: "seg list"
  rt_handler :: handler

definition parse_seg :: "string \<Rightarrow> seg" where
  "parse_seg p = (if p = [] then Multi
     else if hd p = CHR ''{'' \<and> last p = CHR ''}'' then Wild (butlast (tl p)) else Lit p)"

definition parse_pattern :: "string \<times> handler \<Rightarrow> route" where
  "parse_pattern = (\<lambda>(s, h).
     let (m, path) = (case index_where (\<lambda>c. c = CHR '' '') s of
            None \<Rightarrow> (None, s) | Some i \<Rightarrow> (Some (take i s), drop (Suc i) s))
     in \<lparr>rt_method = m, rt_segs = map parse_seg (split_on (CHR ''/'') (tl path)), rt_handler = h\<rparr>)"

definition mux :: "route list" where
  "mux = map parse_pattern routes"

section \<open>Paths\<close>

text \<open>\<^verbatim>\<open>url.PathUnescape\<close>; the mux keeps a segment it cannot unescape.\<close>

fun unescape :: "string \<Rightarrow> string option" where
  "unescape [] = Some []"
| "unescape (c # cs) =
     (if c = CHR ''%'' then
        (case cs of
           a # b # r \<Rightarrow> (case (hex_val a, hex_val b) of
               (Some x, Some y) \<Rightarrow> map_option ((#) (char_of (16 * x + y))) (unescape r)
             | _ \<Rightarrow> None)
         | _ \<Rightarrow> None)
      else map_option ((#) c) (unescape cs))"

definition unescape_or_keep :: "string \<Rightarrow> string" where
  "unescape_or_keep s = (case unescape s of None \<Rightarrow> s | Some t \<Rightarrow> t)"

text \<open>The segments \<^verbatim>\<open>firstSegment\<close> cuts off one by one; a trailing slash is a segment of its own.\<close>

function path_segments :: "string \<Rightarrow> string list" where
  "path_segments p =
     (if p = [] then [] else if p = ''/'' then [''/'']
      else unescape_or_keep (takeWhile (\<lambda>c. c \<noteq> CHR ''/'') (tl p)) # path_segments (dropWhile (\<lambda>c. c \<noteq> CHR ''/'') (tl p)))"
  by pat_completeness auto
termination
proof (relation "measure length")
  fix p :: string
  assume "p \<noteq> []"
  then have "length (tl p) < length p" by (cases p) simp_all
  with length_dropWhile_le [of "\<lambda>c. c \<noteq> CHR ''/''" "tl p"]
  show "(dropWhile (\<lambda>c. c \<noteq> CHR ''/'') (tl p), p) \<in> measure length" by simp
qed simp

declare path_segments.simps [simp del]

text \<open>\<^verbatim>\<open>path.Clean\<close> of a rooted path, and \<^verbatim>\<open>cleanPath\<close>, which keeps a trailing slash.\<close>

fun clean_segs :: "string list \<Rightarrow> string list \<Rightarrow> string list" where
  "clean_segs st [] = rev st"
| "clean_segs st (p # ps) =
     (if p = [] \<or> p = ''.'' then clean_segs st ps
      else if p = ''..'' then clean_segs (tl st) ps
      else clean_segs (p # st) ps)"

definition path_Clean :: "string \<Rightarrow> string" where
  "path_Clean p = CHR ''/'' # join ''/'' (clean_segs [] (split_on (CHR ''/'') (tl p)))"

definition cleanPath :: "string \<Rightarrow> string" where
  "cleanPath p =
     (if p = [] then ''/''
      else let q = (if hd p \<noteq> CHR ''/'' then CHR ''/'' # p else p); np = path_Clean q
           in if last q = CHR ''/'' \<and> np \<noteq> ''/'' then np @ ''/'' else np)"

section \<open>Matching\<close>

text \<open>
  One level of the routing tree: the patterns that go on below a literal, below a one-segment
  wildcard, and the one that takes the rest. Literals are tried first, then wildcards.
\<close>

definition below_lit :: "string \<Rightarrow> (seg list \<times> 'a) list \<Rightarrow> (seg list \<times> 'a) list" where
  "below_lit s pats = List.map_filter (\<lambda>(ps, x). case ps of
     Lit l # r \<Rightarrow> if l = s then Some (r, x) else None | _ \<Rightarrow> None) pats"

definition below_wild :: "(seg list \<times> 'a) list \<Rightarrow> (seg list \<times> 'a) list" where
  "below_wild pats = List.map_filter (\<lambda>(ps, x). case ps of Wild n # r \<Rightarrow> Some (r, x) | _ \<Rightarrow> None) pats"

definition rest_of :: "(seg list \<times> 'a) list \<Rightarrow> 'a list" where
  "rest_of pats = List.map_filter (\<lambda>(ps, x). case ps of [Multi] \<Rightarrow> Some x | _ \<Rightarrow> None) pats"

definition ending :: "(seg list \<times> 'a) list \<Rightarrow> 'a list" where
  "ending pats = List.map_filter (\<lambda>(ps, x). if ps = [] then Some x else None) pats"

definition first_of :: "'a list \<Rightarrow> string list \<Rightarrow> ('a \<times> string list) option" where
  "first_of xs ms = (case xs of [] \<Rightarrow> None | x # _ \<Rightarrow> Some (x, ms))"

fun match_path :: "(seg list \<times> 'a) list \<Rightarrow> string list \<Rightarrow> string list \<Rightarrow> ('a \<times> string list) option" where
  "match_path pats [] ms = first_of (ending pats) ms"
| "match_path pats (s # ss) ms =
     (case match_path (below_lit s pats) ss ms of
        Some r \<Rightarrow> Some r
      | None \<Rightarrow>
          (case (if s \<noteq> ''/'' then match_path (below_wild pats) ss (ms @ [s]) else None) of
             Some r \<Rightarrow> Some r
           | None \<Rightarrow> first_of (rest_of pats) ms))"

definition for_method :: "string option \<Rightarrow> route list \<Rightarrow> (seg list \<times> route) list" where
  "for_method m rts = map (\<lambda>r. (rt_segs r, r)) (filter (\<lambda>r. rt_method r = m) rts)"

text \<open>\<^verbatim>\<open>matchMethodAndPath\<close>: the method's own patterns, for \<open>HEAD\<close> those of \<open>GET\<close>, then those of no method.\<close>

definition mux_match :: "string \<Rightarrow> string \<Rightarrow> (route \<times> string list) option" where
  "mux_match m path =
     (let ss = path_segments path in
      case match_path (for_method (Some m) mux) ss [] of
        Some r \<Rightarrow> Some r
      | None \<Rightarrow>
          (case (if m = ''HEAD'' then match_path (for_method (Some ''GET'') mux) ss [] else None) of
             Some r \<Rightarrow> Some r
           | None \<Rightarrow> match_path (for_method None mux) ss []))"

definition exactMatch :: "(route \<times> string list) option \<Rightarrow> string \<Rightarrow> bool" where
  "exactMatch n path =
     (case n of
        None \<Rightarrow> False
      | Some (r, ms) \<Rightarrow>
          last (rt_segs r) \<noteq> Multi \<or>
          (path = [] \<or> last path = CHR ''/'') \<and> length (rt_segs r) = length (filter (\<lambda>c. c = CHR ''/'') path))"

section \<open>Dispatch\<close>

datatype dispatch = Redirect string | Unrouted | Call handler "(string \<times> string) list"

definition wild_names :: "seg list \<Rightarrow> string list" where
  "wild_names ps = List.map_filter (\<lambda>p. case p of Wild n \<Rightarrow> Some n | _ \<Rightarrow> None) ps"

text \<open>
  \<^verbatim>\<open>findHandler\<close>: a path that is a subtree without its slash is sent to the subtree, one that is not
  clean to its clean form, the rest goes to the handler with the values of the wildcards.
  \<open>CONNECT\<close> alone is matched without cleaning.
\<close>

definition find_handler :: "string \<Rightarrow> string \<Rightarrow> dispatch" where
  "find_handler m p =
     (let path = (if m = ''CONNECT'' then p else cleanPath p); n = mux_match m path in
      if \<not> exactMatch n path \<and> \<not> (path \<noteq> [] \<and> last path = CHR ''/'') \<and>
         exactMatch (mux_match m (path @ ''/'')) (path @ ''/'')
      then Redirect (cleanPath (unescape_or_keep p) @ ''/'')
      else if path \<noteq> p then Redirect path
      else case n of
             None \<Rightarrow> Unrouted
           | Some (r, ms) \<Rightarrow> Call (rt_handler r) (zip (wild_names (rt_segs r)) ms))"

text \<open>\<^verbatim>\<open>r.PathValue\<close>: empty for a name the pattern does not have.\<close>

definition PathValue :: "(string \<times> string) list \<Rightarrow> string \<Rightarrow> string" where
  "PathValue vals name = (case map_of vals name of None \<Rightarrow> [] | Some v \<Rightarrow> v)"

section \<open>Handlers outside the JSON API\<close>

text \<open>The page for the path \<^verbatim>\<open>/\<close> only; the argument is the embedded file, when it is there.\<close>

datatype page = Html string | Not_found | Ui_not_found

definition handleIndex :: "string option \<Rightarrow> string \<Rightarrow> page" where
  "handleIndex file path =
     (if path \<noteq> ''/'' then Not_found
      else case file of None \<Rightarrow> Ui_not_found | Some b \<Rightarrow> Html b)"

definition healthz :: string where
  "healthz = ''ok''"

record hello =
  he_host :: string
  he_version :: string
  he_net :: net_info

text \<open>A host name that cannot be read is shown as empty.\<close>

definition helloPayload :: "string option \<Rightarrow> string \<Rightarrow> net_info \<Rightarrow> hello" where
  "helloPayload hostname version ni =
     \<lparr>he_host = (case hostname of None \<Rightarrow> [] | Some h \<Rightarrow> h), he_version = version, he_net = ni\<rparr>"

definition handlePulse :: "int \<Rightarrow> hub \<Rightarrow> nat \<times> hub" where
  "handlePulse now h = (204, hub_Pulse now h)"

section \<open>Serving a request\<close>

text \<open>A request, with what each handler that reads a body gets from decoding it.\<close>

record http_request =
  hq_method :: string
  hq_path :: string
  hq_track :: "track_body option"
  hq_patch :: "patch_body option"
  hq_port :: "int option"
  hq_cidr :: "string option"

fun api_request :: "handler \<Rightarrow> (string \<times> string) list \<Rightarrow> http_request \<Rightarrow> request option" where
  "api_request H_track vals q = Some (Req_track (hq_track q))"
| "api_request H_patch vals q = Some (Req_patch (PathValue vals ''mac'') (hq_patch q))"
| "api_request H_untrack vals q = Some (Req_untrack (PathValue vals ''mac''))"
| "api_request H_add_probe vals q = Some (Req_add_probe (PathValue vals ''mac'') (hq_port q))"
| "api_request H_delete_probe vals q = Some (Req_delete_probe (PathValue vals ''mac'') (PathValue vals ''port''))"
| "api_request H_resolve vals q = Some (Req_resolve (PathValue vals ''mac''))"
| "api_request H_scan vals q = Some (Req_scan (hq_cidr q))"
| "api_request _ vals q = None"

text \<open>What the request asks of the store and the model, if anything.\<close>

definition routed :: "http_request \<Rightarrow> request option" where
  "routed q = (case find_handler (hq_method q) (hq_path q) of
     Call h vals \<Rightarrow> api_request h vals q | _ \<Rightarrow> None)"

text \<open>What the handlers work on: store and model, the hub with its connections, the wakes.\<close>

record site =
  si_server :: server
  si_sse :: sse_sys
  si_wakes :: wake_reg

text \<open>
  What they find around them: the configuration, the failing statements, the two clocks, what the
  cache view reads (the names, the iteration order of the remembered hosts, the neighbour table),
  fresh names for a connection and for a run of a wake, the embedded page and the host's identity.
\<close>

record surroundings =
  hx_api :: api_env
  hx_faults :: "nat \<Rightarrow> faults"
  hx_now :: int
  hx_nanos :: int
  hx_views :: view_env
  hx_order :: "string list"
  hx_entries :: "entry list option"
  hx_conn :: nat
  hx_run :: nat
  hx_index :: "string option"
  hx_hostname :: "string option"
  hx_version :: string
  hx_net :: net_info

datatype reply = Api_reply response "job list" | Devices_reply "device_view list" | Cache_reply "cache_view list"
  | Info_reply hello | Page_reply page | Static_reply string | Text_reply string | Status_reply nat
  | Wake_reply wake_response | Stream_reply nat | Redirect_reply string | Unrouted_reply

definition handleInfo :: "surroundings \<Rightarrow> hello" where
  "handleInfo x = helloPayload (hx_hostname x) (hx_version x) (hx_net x)"

definition serve_call :: "surroundings \<Rightarrow> request \<Rightarrow> site \<Rightarrow> reply \<times> site" where
  "serve_call x req st =
     (let (resp, jobs, sv) = serve (hx_api x) (hx_faults x) (hx_now x) req (si_server st)
      in (Api_reply resp jobs, st\<lparr>si_server := sv\<rparr>))"

text \<open>
  One handler. A connection of \<^verbatim>\<open>/events\<close> is attached to the hub, and is from then on a run of the
  machine of theory \<open>Hub\<close>; an accepted wake is one of the machine of theory \<open>Wake\<close>. The files of
  the static tree are the file server's of the library.
\<close>

fun serve_handler :: "surroundings \<Rightarrow> handler \<Rightarrow> (string \<times> string) list \<Rightarrow> http_request \<Rightarrow> site \<Rightarrow> reply \<times> site" where
  "serve_handler x H_static vals q st = (Static_reply (hq_path q), st)"
| "serve_handler x H_index vals q st = (Page_reply (handleIndex (hx_index x) (unescape_or_keep (hq_path q))), st)"
| "serve_handler x H_events vals q st = (Stream_reply (hx_conn x),
     (case sse_perform (Attach (hx_conn x)) (si_sse st) of None \<Rightarrow> st | Some y \<Rightarrow> st\<lparr>si_sse := y\<rparr>))"
| "serve_handler x H_healthz vals q st = (Text_reply healthz, st)"
| "serve_handler x H_info vals q st = (Info_reply (handleInfo x), st)"
| "serve_handler x H_pulse vals q st =
     (let (code, h) = handlePulse (hx_nanos x) (g_hub (si_sse st))
      in (Status_reply code, st\<lparr>si_sse := (si_sse st)\<lparr>g_hub := h\<rparr>\<rparr>))"
| "serve_handler x H_list_devices vals q st =
     (Devices_reply (handleListDevices (ae_vendors (hx_api x)) (hx_now x) (si_server st)), st)"
| "serve_handler x H_cache vals q st =
     (let (rows, sv) = handleCache (hx_views x) (hx_order x) (hx_now x) (hx_entries x) (si_server st)
      in (Cache_reply rows, st\<lparr>si_server := sv\<rparr>))"
| "serve_handler x H_wake vals q st =
     (let (resp, reg) = handleWake (hx_faults x 0) (PathValue vals ''mac'') (hx_run x) (sv_db (si_server st)) (si_wakes st)
      in (Wake_reply resp, st\<lparr>si_wakes := reg\<rparr>))"
| "serve_handler x H_cancel_wake vals q st =
     (Status_reply 204, st\<lparr>si_wakes := handleCancelWake (PathValue vals ''mac'') (si_wakes st)\<rparr>)"
| "serve_handler x h vals q st = (case api_request h vals q of
     None \<Rightarrow> (Unrouted_reply, st) | Some req \<Rightarrow> serve_call x req st)"

definition http_serve :: "surroundings \<Rightarrow> http_request \<Rightarrow> site \<Rightarrow> reply \<times> site" where
  "http_serve x q st = (case find_handler (hq_method q) (hq_path q) of
     Redirect p \<Rightarrow> (Redirect_reply p, st)
   | Unrouted \<Rightarrow> (Unrouted_reply, st)
   | Call h vals \<Rightarrow> serve_handler x h vals q st)"

lemma serve_handler_api: "api_request h vals q = Some req \<Longrightarrow> serve_handler x h vals q st = serve_call x req st"
  by (cases h) auto

lemma http_serve_routed: "routed q = Some req \<Longrightarrow> http_serve x q st = serve_call x req st"
  by (auto simp: routed_def http_serve_def serve_handler_api split: dispatch.splits)

section \<open>The table, parsed\<close>

lemma mux_routes: "mux =
  [\<lparr>rt_method = None, rt_segs = [Lit ''static'', Multi], rt_handler = H_static\<rparr>,
   \<lparr>rt_method = None, rt_segs = [Multi], rt_handler = H_index\<rparr>,
   \<lparr>rt_method = None, rt_segs = [Lit ''events''], rt_handler = H_events\<rparr>,
   \<lparr>rt_method = None, rt_segs = [Lit ''healthz''], rt_handler = H_healthz\<rparr>,
   \<lparr>rt_method = Some ''GET'', rt_segs = [Lit ''api'', Lit ''info''], rt_handler = H_info\<rparr>,
   \<lparr>rt_method = Some ''POST'', rt_segs = [Lit ''api'', Lit ''pulse''], rt_handler = H_pulse\<rparr>,
   \<lparr>rt_method = Some ''GET'', rt_segs = [Lit ''api'', Lit ''devices''], rt_handler = H_list_devices\<rparr>,
   \<lparr>rt_method = Some ''POST'', rt_segs = [Lit ''api'', Lit ''devices''], rt_handler = H_track\<rparr>,
   \<lparr>rt_method = Some ''PATCH'', rt_segs = [Lit ''api'', Lit ''devices'', Wild ''mac''], rt_handler = H_patch\<rparr>,
   \<lparr>rt_method = Some ''DELETE'', rt_segs = [Lit ''api'', Lit ''devices'', Wild ''mac''], rt_handler = H_untrack\<rparr>,
   \<lparr>rt_method = Some ''POST'', rt_segs = [Lit ''api'', Lit ''devices'', Wild ''mac'', Lit ''wake''], rt_handler = H_wake\<rparr>,
   \<lparr>rt_method = Some ''DELETE'', rt_segs = [Lit ''api'', Lit ''devices'', Wild ''mac'', Lit ''wake''], rt_handler = H_cancel_wake\<rparr>,
   \<lparr>rt_method = Some ''POST'', rt_segs = [Lit ''api'', Lit ''devices'', Wild ''mac'', Lit ''resolve''], rt_handler = H_resolve\<rparr>,
   \<lparr>rt_method = Some ''POST'', rt_segs = [Lit ''api'', Lit ''devices'', Wild ''mac'', Lit ''probes''], rt_handler = H_add_probe\<rparr>,
   \<lparr>rt_method = Some ''DELETE'', rt_segs = [Lit ''api'', Lit ''devices'', Wild ''mac'', Lit ''probes'', Wild ''port''],
     rt_handler = H_delete_probe\<rparr>,
   \<lparr>rt_method = Some ''GET'', rt_segs = [Lit ''api'', Lit ''cache''], rt_handler = H_cache\<rparr>,
   \<lparr>rt_method = Some ''POST'', rt_segs = [Lit ''api'', Lit ''scan''], rt_handler = H_scan\<rparr>]"
  by code_simp

section \<open>One table per method\<close>

text \<open>Lists by length, up to the longest pattern of the table.\<close>

fun by_length :: "'a list \<Rightarrow> nat" where
  "by_length [] = 0" | "by_length [a] = 1" | "by_length [a, b] = 2" | "by_length [a, b, c] = 3"
| "by_length [a, b, c, d] = 4" | "by_length [a, b, c, d, e] = 5" | "by_length (a # b # c # d # e # f # g) = 6"

lemma match_path_Nil [simp]: "match_path [] ss ms = None"
  by (induction ss arbitrary: ms)
    (simp_all add: below_lit_def below_wild_def rest_of_def ending_def first_of_def map_filter_simps)

lemma match_path_Cons:
  "match_path (p # pats) (s # ss) ms =
     (case match_path (below_lit s (p # pats)) ss ms of
        Some r \<Rightarrow> Some r
      | None \<Rightarrow>
          (case (if s \<noteq> ''/'' then match_path (below_wild (p # pats)) ss (ms @ [s]) else None) of
             Some r \<Rightarrow> Some r
           | None \<Rightarrow> first_of (rest_of (p # pats)) ms))"
  by simp

text \<open>Evaluate a level only once its table is known.\<close>

declare match_path.simps(2) [simp del] match_path_Cons [simp]

lemma below_simps [simp]:
  "below_lit s [] = []" "below_lit s ((Lit l # r, x) # pats) = (if l = s then (r, x) # below_lit s pats else below_lit s pats)"
  "below_lit s ((Wild n # r, x) # pats) = below_lit s pats" "below_lit s ((Multi # r, x) # pats) = below_lit s pats"
  "below_lit s (([], x) # pats) = below_lit s pats"
  "below_wild [] = []" "below_wild ((Wild n # r, x) # pats) = (r, x) # below_wild pats"
  "below_wild ((Lit l # r, x) # pats) = below_wild pats" "below_wild ((Multi # r, x) # pats) = below_wild pats"
  "below_wild (([], x) # pats) = below_wild pats"
  "rest_of [] = []" "rest_of (([Multi], x) # pats) = x # rest_of pats" "rest_of ((Lit l # r, x) # pats) = rest_of pats"
  "rest_of ((Wild n # r, x) # pats) = rest_of pats" "rest_of (([], x) # pats) = rest_of pats"
  "ending [] = []" "ending (([], x) # pats) = x # ending pats" "ending ((p # ps, x) # pats) = ending pats"
  "first_of [] ms = None" "first_of (x # xs) ms = Some (x, ms)"
  by (simp_all add: below_lit_def below_wild_def rest_of_def ending_def first_of_def map_filter_simps)

lemma match_get:
  "match_path [([Lit ''api'', Lit ''info''], a), ([Lit ''api'', Lit ''devices''], b), ([Lit ''api'', Lit ''cache''], c)] ss [] =
   (if ss = [''api'', ''info''] then Some (a, []) else if ss = [''api'', ''devices''] then Some (b, [])
    else if ss = [''api'', ''cache''] then Some (c, []) else None)"
  by (cases ss rule: by_length.cases) simp_all

lemma match_patch:
  "match_path [([Lit ''api'', Lit ''devices'', Wild n], a)] ss [] =
   (case ss of [x, y, mac] \<Rightarrow> if x = ''api'' \<and> y = ''devices'' \<and> mac \<noteq> ''/'' then Some (a, [mac]) else None | _ \<Rightarrow> None)"
  by (cases ss rule: by_length.cases) simp_all

lemma match_delete:
  "match_path [([Lit ''api'', Lit ''devices'', Wild n], a), ([Lit ''api'', Lit ''devices'', Wild n, Lit ''wake''], b),
     ([Lit ''api'', Lit ''devices'', Wild n, Lit ''probes'', Wild k], c)] ss [] =
   (case ss of
      [x, y, mac] \<Rightarrow> if x = ''api'' \<and> y = ''devices'' \<and> mac \<noteq> ''/'' then Some (a, [mac]) else None
    | [x, y, mac, z] \<Rightarrow> if x = ''api'' \<and> y = ''devices'' \<and> mac \<noteq> ''/'' \<and> z = ''wake'' then Some (b, [mac]) else None
    | [x, y, mac, z, port] \<Rightarrow>
        if x = ''api'' \<and> y = ''devices'' \<and> mac \<noteq> ''/'' \<and> z = ''probes'' \<and> port \<noteq> ''/'' then Some (c, [mac, port]) else None
    | _ \<Rightarrow> None)"
  by (cases ss rule: by_length.cases) simp_all

lemma match_post:
  "match_path [([Lit ''api'', Lit ''pulse''], a), ([Lit ''api'', Lit ''devices''], b),
     ([Lit ''api'', Lit ''devices'', Wild n, Lit ''wake''], c), ([Lit ''api'', Lit ''devices'', Wild n, Lit ''resolve''], d),
     ([Lit ''api'', Lit ''devices'', Wild n, Lit ''probes''], e), ([Lit ''api'', Lit ''scan''], g)] ss [] =
   (case ss of
      [x, y] \<Rightarrow> if x \<noteq> ''api'' then None else if y = ''pulse'' then Some (a, []) else if y = ''devices'' then Some (b, [])
                else if y = ''scan'' then Some (g, []) else None
    | [x, y, mac, z] \<Rightarrow> if x = ''api'' \<and> y = ''devices'' \<and> mac \<noteq> ''/'' then
                if z = ''wake'' then Some (c, [mac]) else if z = ''resolve'' then Some (d, [mac])
                else if z = ''probes'' then Some (e, [mac]) else None
              else None
    | _ \<Rightarrow> None)"
  by (cases ss rule: by_length.cases) simp_all

lemma match_plain:
  "match_path [([Lit ''static'', Multi], a), ([Multi], b), ([Lit ''events''], c), ([Lit ''healthz''], d)] ss [] =
   (if ss = [] then None else if hd ss = ''static'' \<and> tl ss \<noteq> [] then Some (a, []) else if ss = [''events''] then Some (c, [])
    else if ss = [''healthz''] then Some (d, []) else Some (b, []))"
  by (cases ss rule: by_length.cases) simp_all

section \<open>The table as its reader sees it\<close>

definition api_spec :: "string \<Rightarrow> string list \<Rightarrow> (handler \<times> (string \<times> string) list) option" where
  "api_spec m ss =
     (case ss of
        [a, b] \<Rightarrow>
          if a \<noteq> ''api'' then None
          else if m = ''GET'' \<or> m = ''HEAD'' then
            if b = ''info'' then Some (H_info, []) else if b = ''devices'' then Some (H_list_devices, [])
            else if b = ''cache'' then Some (H_cache, []) else None
          else if m = ''POST'' then
            if b = ''pulse'' then Some (H_pulse, []) else if b = ''devices'' then Some (H_track, [])
            else if b = ''scan'' then Some (H_scan, []) else None
          else None
      | [a, b, mac] \<Rightarrow>
          if a \<noteq> ''api'' \<or> b \<noteq> ''devices'' \<or> mac = ''/'' then None
          else if m = ''PATCH'' then Some (H_patch, [(''mac'', mac)])
          else if m = ''DELETE'' then Some (H_untrack, [(''mac'', mac)]) else None
      | [a, b, mac, c] \<Rightarrow>
          if a \<noteq> ''api'' \<or> b \<noteq> ''devices'' \<or> mac = ''/'' then None
          else if m = ''POST'' then
            if c = ''wake'' then Some (H_wake, [(''mac'', mac)]) else if c = ''resolve'' then Some (H_resolve, [(''mac'', mac)])
            else if c = ''probes'' then Some (H_add_probe, [(''mac'', mac)]) else None
          else if m = ''DELETE'' \<and> c = ''wake'' then Some (H_cancel_wake, [(''mac'', mac)]) else None
      | [a, b, mac, c, port] \<Rightarrow>
          if a = ''api'' \<and> b = ''devices'' \<and> mac \<noteq> ''/'' \<and> m = ''DELETE'' \<and> c = ''probes'' \<and> port \<noteq> ''/''
          then Some (H_delete_probe, [(''mac'', mac), (''port'', port)]) else None
      | _ \<Rightarrow> None)"

definition page_spec :: "string list \<Rightarrow> handler" where
  "page_spec ss = (if hd ss = ''static'' \<and> tl ss \<noteq> [] then H_static else if ss = [''events''] then H_events
     else if ss = [''healthz''] then H_healthz else H_index)"

lemma mux_tables:
  "for_method (Some ''GET'') mux = [([Lit ''api'', Lit ''info''], mux ! 4), ([Lit ''api'', Lit ''devices''], mux ! 6),
     ([Lit ''api'', Lit ''cache''], mux ! 15)]"
  "for_method (Some ''POST'') mux = [([Lit ''api'', Lit ''pulse''], mux ! 5), ([Lit ''api'', Lit ''devices''], mux ! 7),
     ([Lit ''api'', Lit ''devices'', Wild ''mac'', Lit ''wake''], mux ! 10),
     ([Lit ''api'', Lit ''devices'', Wild ''mac'', Lit ''resolve''], mux ! 12),
     ([Lit ''api'', Lit ''devices'', Wild ''mac'', Lit ''probes''], mux ! 13), ([Lit ''api'', Lit ''scan''], mux ! 16)]"
  "for_method (Some ''PATCH'') mux = [([Lit ''api'', Lit ''devices'', Wild ''mac''], mux ! 8)]"
  "for_method (Some ''DELETE'') mux = [([Lit ''api'', Lit ''devices'', Wild ''mac''], mux ! 9),
     ([Lit ''api'', Lit ''devices'', Wild ''mac'', Lit ''wake''], mux ! 11),
     ([Lit ''api'', Lit ''devices'', Wild ''mac'', Lit ''probes'', Wild ''port''], mux ! 14)]"
  "for_method None mux = [([Lit ''static'', Multi], mux ! 0), ([Multi], mux ! 1), ([Lit ''events''], mux ! 2),
     ([Lit ''healthz''], mux ! 3)]"
  "m \<notin> {''GET'', ''POST'', ''PATCH'', ''DELETE''} \<Longrightarrow> for_method (Some m) mux = []"
  unfolding mux_routes by (auto simp: for_method_def)

definition api_match :: "string \<Rightarrow> string list \<Rightarrow> (route \<times> string list) option" where
  "api_match m ss = match_path (for_method (Some (if m = ''HEAD'' then ''GET'' else m)) mux) ss []"

lemma mux_match_eq: "mux_match m p = (case api_match m (path_segments p) of Some r \<Rightarrow> Some r
   | None \<Rightarrow> match_path (for_method None mux) (path_segments p) [])"
proof (cases "m = ''HEAD''")
  case True
  then have "for_method (Some m) mux = []" by (simp add: mux_tables(6))
  with True show ?thesis by (simp add: mux_match_def api_match_def Let_def)
qed (simp add: mux_match_def api_match_def Let_def split: option.split)

definition dispatched :: "route \<times> string list \<Rightarrow> handler \<times> (string \<times> string) list" where
  "dispatched = (\<lambda>(r, ms). (rt_handler r, zip (wild_names (rt_segs r)) ms))"

lemma rt_simps:
  "dispatched (mux ! 0, ms) = (H_static, [])" "dispatched (mux ! 1, ms) = (H_index, [])"
  "dispatched (mux ! 2, ms) = (H_events, [])" "dispatched (mux ! 3, ms) = (H_healthz, [])"
  "dispatched (mux ! 4, ms) = (H_info, [])" "dispatched (mux ! 5, ms) = (H_pulse, [])"
  "dispatched (mux ! 6, ms) = (H_list_devices, [])" "dispatched (mux ! 7, ms) = (H_track, [])"
  "dispatched (mux ! 8, [a]) = (H_patch, [(''mac'', a)])" "dispatched (mux ! 9, [a]) = (H_untrack, [(''mac'', a)])"
  "dispatched (mux ! 10, [a]) = (H_wake, [(''mac'', a)])" "dispatched (mux ! 11, [a]) = (H_cancel_wake, [(''mac'', a)])"
  "dispatched (mux ! 12, [a]) = (H_resolve, [(''mac'', a)])" "dispatched (mux ! 13, [a]) = (H_add_probe, [(''mac'', a)])"
  "dispatched (mux ! 14, [a, b]) = (H_delete_probe, [(''mac'', a), (''port'', b)])"
  "dispatched (mux ! 15, ms) = (H_cache, [])" "dispatched (mux ! 16, ms) = (H_scan, [])"
  unfolding mux_routes dispatched_def wild_names_def by (simp_all add: map_filter_simps)

lemma api_match_spec: "map_option dispatched (api_match m ss) = api_spec m ss"
proof -
  consider "m = ''GET'' \<or> m = ''HEAD''" | "m = ''POST''" | "m = ''PATCH''" | "m = ''DELETE''"
    | "m \<notin> {''GET'', ''HEAD'', ''POST'', ''PATCH'', ''DELETE''}" by blast
  then show ?thesis
  proof cases
    case 1
    then have "api_match m ss = match_path (for_method (Some ''GET'') mux) ss []" by (auto simp: api_match_def)
    with 1 show ?thesis
      by (cases ss rule: by_length.cases) (auto simp: mux_tables(1) match_get api_spec_def rt_simps)
  next
    case 2
    then show ?thesis
      by (cases ss rule: by_length.cases) (simp_all add: api_match_def mux_tables(2) match_post api_spec_def rt_simps)
  next
    case 3
    then show ?thesis
      by (cases ss rule: by_length.cases) (simp_all add: api_match_def mux_tables(3) match_patch api_spec_def rt_simps)
  next
    case 4
    then show ?thesis
      by (cases ss rule: by_length.cases) (simp_all add: api_match_def mux_tables(4) match_delete api_spec_def rt_simps)
  next
    case 5
    then show ?thesis
      by (cases ss rule: by_length.cases) (simp_all add: api_match_def mux_tables(6) api_spec_def)
  qed
qed

lemma first_of_in: "first_of xs ms = Some (x, ms') \<Longrightarrow> x \<in> set xs"
  by (cases xs) auto

lemma level_in:
  "x \<in> snd ` set (below_lit s pats) \<Longrightarrow> x \<in> snd ` set pats" "x \<in> snd ` set (below_wild pats) \<Longrightarrow> x \<in> snd ` set pats"
  "x \<in> set (rest_of pats) \<Longrightarrow> x \<in> snd ` set pats" "x \<in> set (ending pats) \<Longrightarrow> x \<in> snd ` set pats"
  by (force simp: below_lit_def below_wild_def rest_of_def ending_def set_map_filter_iff split: list.splits seg.splits if_splits)+

lemma match_path_in: "match_path pats ss ms = Some (x, ms') \<Longrightarrow> x \<in> snd ` set pats"
proof (induction pats ss ms arbitrary: ms' rule: match_path.induct)
  case (1 pats ms)
  then have "x \<in> set (ending pats)" using first_of_in by simp
  then show ?case by (rule level_in)
next
  case (2 pats s ss ms)
  from "2.prems" consider "match_path (below_lit s pats) ss ms = Some (x, ms')"
    | "match_path (below_lit s pats) ss ms = None" "s \<noteq> ''/''" "match_path (below_wild pats) ss (ms @ [s]) = Some (x, ms')"
    | "first_of (rest_of pats) ms = Some (x, ms')"
    unfolding match_path.simps(2) by (simp split: option.splits if_splits)
  then show ?case
  proof cases
    case 1
    from level_in(1) [OF "2.IH"(1) [OF this]] show ?thesis .
  next
    case 2
    from level_in(2) [OF "2.IH"(2) [OF 2]] show ?thesis .
  next
    case 3
    from level_in(3) [OF first_of_in [OF this]] show ?thesis .
  qed
qed

lemma api_match_exact: "api_match m ss = Some r \<Longrightarrow> exactMatch (Some r) path"
proof -
  assume a: "api_match m ss = Some r"
  obtain rt ms where r: "r = (rt, ms)" by (cases r)
  have "dispatched r \<in> {(H_static, []), (H_index, [])} \<or> last (rt_segs rt) \<noteq> Multi" if "rt \<in> set mux"
    using that unfolding r mux_routes dispatched_def wild_names_def by (auto simp: map_filter_simps)
  moreover have "fst (dispatched r) \<notin> {H_static, H_index}"
    using api_match_spec [of m ss] a by (auto simp: api_spec_def split: list.splits if_splits)
  moreover have "rt \<in> set mux"
    using match_path_in [OF a [unfolded api_match_def r]] by (auto simp: for_method_def)
  ultimately show ?thesis by (auto simp: exactMatch_def r)
qed

section \<open>Segments of a path\<close>

abbreviation slashes :: "string \<Rightarrow> nat" where
  "slashes p \<equiv> length (filter (\<lambda>c. c = CHR ''/'') p)"

lemma path_segments_root [simp]: "path_segments ''/'' = [''/'']" "path_segments [] = []"
  by (subst path_segments.simps, simp)+

lemma path_segments_Cons:
  "s \<noteq> [] \<Longrightarrow> path_segments (CHR ''/'' # s) =
   unescape_or_keep (takeWhile (\<lambda>c. c \<noteq> CHR ''/'') s) # path_segments (dropWhile (\<lambda>c. c \<noteq> CHR ''/'') s)"
  by (subst path_segments.simps) simp

lemma rooted_rest: "dropWhile (\<lambda>c. c \<noteq> CHR ''/'') s = [] \<or> hd (dropWhile (\<lambda>c. c \<noteq> CHR ''/'') s) = CHR ''/''"
  using hd_dropWhile [of "\<lambda>c. c \<noteq> CHR ''/''" s] by blast

lemma slashes_rest: "slashes (dropWhile (\<lambda>c. c \<noteq> CHR ''/'') s) = slashes s"
  by (induction s) auto

lemma length_path_segments: "p = [] \<or> hd p = CHR ''/'' \<Longrightarrow> length (path_segments p) = slashes p"
proof (induction "length p" arbitrary: p rule: less_induct)
  case less
  show ?case
  proof (cases "p = [] \<or> p = ''/''")
    case False
    then obtain s where s: "p = CHR ''/'' # s" "s \<noteq> []" using less.prems by (cases p) auto
    let ?r = "dropWhile (\<lambda>c. c \<noteq> CHR ''/'') s"
    have "length ?r < length p" using length_dropWhile_le [of "\<lambda>c. c \<noteq> CHR ''/''" s] by (simp add: s)
    from less.hyps [OF this rooted_rest] show ?thesis by (simp add: s path_segments_Cons slashes_rest)
  qed auto
qed

lemma path_segments_slash:
  "p \<noteq> [] \<Longrightarrow> hd p = CHR ''/'' \<Longrightarrow> last p \<noteq> CHR ''/'' \<Longrightarrow> path_segments (p @ ''/'') = path_segments p @ [''/'']"
proof (induction "length p" arbitrary: p rule: less_induct)
  case less
  then obtain s where s: "p = CHR ''/'' # s" "s \<noteq> []" by (cases p) (auto split: if_splits)
  let ?r = "dropWhile (\<lambda>c. c \<noteq> CHR ''/'') s"
  show ?case
  proof (cases "?r = []")
    case True
    then have "CHR ''/'' \<notin> set s" by (auto simp: dropWhile_eq_Nil_conv)
    then have "takeWhile (\<lambda>c. c \<noteq> CHR ''/'') (s @ ''/'') = s" "dropWhile (\<lambda>c. c \<noteq> CHR ''/'') (s @ ''/'') = ''/''"
      "takeWhile (\<lambda>c. c \<noteq> CHR ''/'') s = s"
      by (auto simp: takeWhile_append dropWhile_append takeWhile_eq_all_conv dropWhile_eq_Nil_conv)
    then show ?thesis using True by (simp only: s append_Cons append_is_Nil_conv path_segments_Cons s(2) simp_thms not_False_eq_True) simp
  next
    case False
    then have m: "CHR ''/'' \<in> set s" by (auto simp: dropWhile_eq_Nil_conv)
    then have d: "takeWhile (\<lambda>c. c \<noteq> CHR ''/'') (s @ ''/'') = takeWhile (\<lambda>c. c \<noteq> CHR ''/'') s"
      "dropWhile (\<lambda>c. c \<noteq> CHR ''/'') (s @ ''/'') = ?r @ ''/''"
      by (auto simp: takeWhile_append1 dropWhile_append1)
    have "last ?r = last s" using False takeWhile_dropWhile_id [of "\<lambda>c. c \<noteq> CHR ''/''" s] by (metis last_appendR)
    then have "path_segments (?r @ ''/'') = path_segments ?r @ [''/'']"
      using less False rooted_rest [of s] length_dropWhile_le [of "\<lambda>c. c \<noteq> CHR ''/''" s] by (intro less.hyps) (auto simp: s)
    with d show ?thesis by (simp add: s path_segments_Cons)
  qed
qed

lemma path_segments_last: "p \<noteq> [] \<Longrightarrow> hd p = CHR ''/'' \<Longrightarrow> last p = CHR ''/'' \<Longrightarrow> last (path_segments p) = ''/''"
proof (induction "length p" arbitrary: p rule: less_induct)
  case less
  show ?case
  proof (cases "p = ''/''")
    case False
    then obtain s where s: "p = CHR ''/'' # s" "s \<noteq> []" using less.prems by (cases p) auto
    let ?r = "dropWhile (\<lambda>c. c \<noteq> CHR ''/'') s"
    have m: "CHR ''/'' \<in> set s" using less.prems s last_in_set [of s] by auto
    then have r: "?r \<noteq> []" by (auto simp: dropWhile_eq_Nil_conv)
    then have "last ?r = last s" using takeWhile_dropWhile_id [of "\<lambda>c. c \<noteq> CHR ''/''" s] by (metis last_appendR)
    then have "last (path_segments ?r) = ''/''"
      using less.prems r s rooted_rest [of s] length_dropWhile_le [of "\<lambda>c. c \<noteq> CHR ''/''" s] by (intro less.hyps) auto
    moreover have "path_segments ?r \<noteq> []" using r by (subst path_segments.simps) simp
    ultimately show ?thesis using s by (simp add: path_segments_Cons)
  qed simp
qed

lemma cleanPath_rooted: "cleanPath p \<noteq> [] \<and> hd (cleanPath p) = CHR ''/''"
  by (simp add: cleanPath_def path_Clean_def Let_def)

section \<open>Dispatch of a canonical path\<close>

text \<open>A path the mux does not redirect for being unclean; none is when the segments between slashes
  are neither empty nor dots.\<close>

definition canonical :: "string \<Rightarrow> bool" where
  "canonical p \<longleftrightarrow> cleanPath p = p"

definition route_spec :: "string \<Rightarrow> string \<Rightarrow> dispatch" where
  "route_spec m p =
     (case api_spec m (path_segments p) of
        Some (h, vals) \<Rightarrow> Call h vals
      | None \<Rightarrow>
          if path_segments p = [''static''] then Redirect (cleanPath (unescape_or_keep p) @ ''/'')
          else Call (page_spec (path_segments p)) [])"

lemma plain_match:
  assumes "ss \<noteq> []"
  shows "match_path (for_method None mux) ss [] = Some (mux ! (if hd ss = ''static'' \<and> tl ss \<noteq> [] then 0
    else if ss = [''events''] then 2 else if ss = [''healthz''] then 3 else 1), [])"
  using assms by (simp add: mux_tables(5) match_plain)

lemma mux_multi:
  "last (rt_segs (mux ! 0)) = Multi" "length (rt_segs (mux ! 0)) = 2" "last (rt_segs (mux ! 1)) = Multi" "length (rt_segs (mux ! 1)) = 1"
  "last (rt_segs (mux ! Suc 0)) = Multi" "length (rt_segs (mux ! Suc 0)) = Suc 0"
  "last (rt_segs (mux ! 2)) \<noteq> Multi" "last (rt_segs (mux ! 3)) \<noteq> Multi"
  unfolding mux_routes by simp_all

lemma api_spec_slash: "api_spec m (ss @ [''/'']) = None"
  by (cases ss rule: by_length.cases) (simp_all add: api_spec_def)

lemma page_slash: "p \<noteq> [] \<Longrightarrow> hd p = CHR ''/'' \<Longrightarrow> last p \<noteq> CHR ''/'' \<Longrightarrow>
  exactMatch (mux_match m (p @ ''/'')) (p @ ''/'') \<longleftrightarrow> path_segments p = [''static'']"
proof -
  assume p: "p \<noteq> []" "hd p = CHR ''/''" "last p \<noteq> CHR ''/''"
  let ?ss = "path_segments p"
  have n: "length ?ss = slashes p" using p by (intro length_path_segments) simp
  have ne: "?ss \<noteq> []" using p by (subst path_segments.simps) simp
  have "api_match m (?ss @ [''/'']) = None"
    using api_match_spec [of m "?ss @ [''/'']"] by (simp add: api_spec_slash)
  then have "mux_match m (p @ ''/'') = Some (mux ! (if hd ?ss = ''static'' then 0 else 1), [])"
    using ne by (simp add: mux_match_eq path_segments_slash [OF p] plain_match)
  then have "exactMatch (mux_match m (p @ ''/'')) (p @ ''/'') \<longleftrightarrow>
      (if hd ?ss = ''static'' then length ?ss = 1 else length ?ss = 0)"
    by (auto simp: exactMatch_def mux_multi n)
  also have "\<dots> \<longleftrightarrow> ?ss = [''static'']" using ne by (cases ?ss) auto
  finally show ?thesis .
qed

lemma redirect_iff:
  assumes "p \<noteq> []" and "hd p = CHR ''/''"
  shows "\<not> exactMatch (mux_match m p) p \<and> last p \<noteq> CHR ''/'' \<and> exactMatch (mux_match m (p @ ''/'')) (p @ ''/'')
    \<longleftrightarrow> path_segments p = [''static'']"
proof (cases "last p = CHR ''/''")
  case True
  then have "last (path_segments p) = ''/''" using path_segments_last assms by simp
  with True show ?thesis by auto
next
  case False
  have "\<not> exactMatch (mux_match m p) p" if s: "path_segments p = [''static'']"
  proof -
    have "api_match m [''static''] = None" using api_match_spec [of m "[''static'']"] by (simp add: api_spec_def)
    then have "mux_match m p = Some (mux ! 1, [])" by (simp add: mux_match_eq s plain_match)
    with False assms(1) show ?thesis by (simp add: exactMatch_def mux_multi)
  qed
  with page_slash [OF assms False] False show ?thesis by blast
qed

lemma find_handler_eq:
  assumes "path = (if m = ''CONNECT'' then p else cleanPath p)" and "path \<noteq> []" and "hd path = CHR ''/''"
  shows "find_handler m p =
    (if path_segments path = [''static''] then Redirect (cleanPath (unescape_or_keep p) @ ''/'')
     else if path \<noteq> p then Redirect path
     else case mux_match m path of None \<Rightarrow> Unrouted
          | Some (r, ms) \<Rightarrow> Call (rt_handler r) (zip (wild_names (rt_segs r)) ms))"
proof -
  have c: "(\<not> exactMatch (mux_match m path) path \<and> \<not> (path \<noteq> [] \<and> last path = CHR ''/'') \<and>
      exactMatch (mux_match m (path @ ''/'')) (path @ ''/'')) = (path_segments path = [''static''])"
    using redirect_iff [OF assms(2,3), of m] assms(2) by blast
  show ?thesis unfolding find_handler_def Let_def assms(1) [symmetric] c ..
qed

lemma mux_match_dispatch:
  assumes "path_segments p \<noteq> []"
  shows "map_option dispatched (mux_match m p) =
    Some (case api_spec m (path_segments p) of Some x \<Rightarrow> x | None \<Rightarrow> (page_spec (path_segments p), []))"
  using assms by (cases "api_match m (path_segments p)")
    (simp_all add: api_match_spec [symmetric] mux_match_eq plain_match page_spec_def rt_simps rt_simps(2) [unfolded One_nat_def])

text \<open>The redirects and handlers of the whole surface, read off the table.\<close>

definition dispatch_spec :: "string \<Rightarrow> string \<Rightarrow> dispatch" where
  "dispatch_spec m p =
     (let ss = path_segments (cleanPath p) in
      if ss = [''static''] then Redirect (cleanPath (unescape_or_keep p) @ ''/'')
      else if cleanPath p \<noteq> p then Redirect (cleanPath p)
      else case api_spec m ss of Some (h, vals) \<Rightarrow> Call h vals | None \<Rightarrow> Call (page_spec ss) [])"

lemma find_handler_spec:
  assumes "m \<noteq> ''CONNECT''"
  shows "find_handler m p = dispatch_spec m p"
proof -
  let ?c = "cleanPath p"
  have c: "?c \<noteq> []" "hd ?c = CHR ''/''" using cleanPath_rooted by simp_all
  have ne: "path_segments ?c \<noteq> []" using c by (subst path_segments.simps) simp
  obtain r ms where r: "mux_match m ?c = Some (r, ms)" using mux_match_dispatch [OF ne, of m] by auto
  have "find_handler m p =
    (if path_segments ?c = [''static''] then Redirect (cleanPath (unescape_or_keep p) @ ''/'')
     else if ?c \<noteq> p then Redirect ?c else Call (rt_handler r) (zip (wild_names (rt_segs r)) ms))"
    using find_handler_eq [of ?c m p, unfolded r] assms c by simp
  moreover have "(rt_handler r, zip (wild_names (rt_segs r)) ms) =
      (case api_spec m (path_segments ?c) of Some x \<Rightarrow> x | None \<Rightarrow> (page_spec (path_segments ?c), []))"
    using mux_match_dispatch [OF ne, of m] r by (simp add: dispatched_def)
  ultimately show ?thesis
    by (auto simp: dispatch_spec_def Let_def split: option.splits)
qed

section \<open>Properties\<close>

text \<open>
  C23. The surface is its table. Whatever the method and the path, the request is redirected
  when its path is not in clean form or names the static subtree without its slash, and is else
  answered by the handler the table names for it, with the decoded segments as the values of the
  wildcards; every other path falls to the page handler. No two patterns compete, \<open>HEAD\<close> is served
  as \<open>GET\<close>, and no request is left without a handler (so none is answered \<open>405\<close>).
\<close>

theorem dispatch_is_the_table:
  assumes "m \<noteq> ''CONNECT''"
  shows "find_handler m p = dispatch_spec m p"
  by (rule find_handler_spec [OF assms])

lemma dispatch_is_the_table_witness:
  "find_handler ''DELETE'' ''/api/devices/aa%3Abb/probes/22'' = Call H_delete_probe [(''mac'', ''aa:bb''), (''port'', ''22'')] \<and>
   find_handler ''PUT'' ''/api/devices'' = Call H_index [] \<and> find_handler ''HEAD'' ''/api/cache'' = Call H_cache [] \<and>
   find_handler ''GET'' ''/api//info/../cache'' = Redirect ''/api/cache'' \<and> find_handler ''GET'' ''/static'' = Redirect ''/static/''"
proof -
  have "dispatch_spec ''DELETE'' ''/api/devices/aa%3Abb/probes/22'' = Call H_delete_probe [(''mac'', ''aa:bb''), (''port'', ''22'')]"
    "dispatch_spec ''PUT'' ''/api/devices'' = Call H_index []" "dispatch_spec ''HEAD'' ''/api/cache'' = Call H_cache []"
    "dispatch_spec ''GET'' ''/api//info/../cache'' = Redirect ''/api/cache''" "dispatch_spec ''GET'' ''/static'' = Redirect ''/static/''"
    by code_simp+
  then show ?thesis by (simp add: dispatch_is_the_table)
qed

definition api_call :: "request \<Rightarrow> http_request \<Rightarrow> bool" where
  "api_call req q =
     (let ss = path_segments (hq_path q); m = hq_method q in
      case req of
        Req_track b \<Rightarrow> m = ''POST'' \<and> ss = [''api'', ''devices''] \<and> b = hq_track q
      | Req_patch mac b \<Rightarrow> m = ''PATCH'' \<and> mac \<noteq> ''/'' \<and> ss = [''api'', ''devices'', mac] \<and> b = hq_patch q
      | Req_untrack mac \<Rightarrow> m = ''DELETE'' \<and> mac \<noteq> ''/'' \<and> ss = [''api'', ''devices'', mac]
      | Req_add_probe mac b \<Rightarrow> m = ''POST'' \<and> mac \<noteq> ''/'' \<and> ss = [''api'', ''devices'', mac, ''probes''] \<and> b = hq_port q
      | Req_delete_probe mac port \<Rightarrow> m = ''DELETE'' \<and> mac \<noteq> ''/'' \<and> port \<noteq> ''/'' \<and>
          ss = [''api'', ''devices'', mac, ''probes'', port]
      | Req_resolve mac \<Rightarrow> m = ''POST'' \<and> mac \<noteq> ''/'' \<and> ss = [''api'', ''devices'', mac, ''resolve'']
      | Req_scan b \<Rightarrow> m = ''POST'' \<and> ss = [''api'', ''scan''] \<and> b = hq_cidr q)"

lemma api_spec_request:
  "(\<exists>h vals. api_spec (hq_method q) (path_segments (hq_path q)) = Some (h, vals) \<and> api_request h vals q = Some req) \<longleftrightarrow>
   api_call req q"
proof -
  have "api_spec (hq_method q) (path_segments (hq_path q)) = Some (h, vals) \<Longrightarrow> api_request h vals q = Some req \<Longrightarrow> api_call req q"
    for h vals
    by (cases "path_segments (hq_path q)" rule: by_length.cases)
      (auto simp: api_spec_def api_call_def PathValue_def split: if_splits)
  moreover have "\<exists>h vals. api_spec (hq_method q) (path_segments (hq_path q)) = Some (h, vals) \<and> api_request h vals q = Some req"
    if "api_call req q"
    using that by (cases req) (auto simp: api_spec_def api_call_def PathValue_def Let_def)
  ultimately show ?thesis by blast
qed

lemma routed_call:
  assumes "hq_method q \<noteq> ''CONNECT''"
  shows "routed q = Some r \<longleftrightarrow> cleanPath (hq_path q) = hq_path q \<and> api_call r q"
proof (cases "cleanPath (hq_path q) = hq_path q")
  case True
  let ?ss = "path_segments (hq_path q)"
  have page: "api_request (page_spec ?ss) [] q = None" by (simp add: page_spec_def)
  have static: "api_spec (hq_method q) [''static''] = None" by (simp add: api_spec_def)
  show ?thesis
  proof (cases "api_spec (hq_method q) ?ss")
    case None
    then have "routed q = None"
      using True page by (simp add: routed_def find_handler_spec [OF assms] dispatch_spec_def Let_def)
    with None True api_spec_request [of q r] show ?thesis by simp
  next
    case (Some x)
    then have "?ss \<noteq> [''static'']" using static by auto
    with Some have "routed q = api_request (fst x) (snd x) q"
      using True by (simp add: routed_def find_handler_spec [OF assms] dispatch_spec_def Let_def split: prod.split)
    with Some True api_spec_request [of q r] show ?thesis by (cases x) simp
  qed
next
  case False
  then show ?thesis by (simp add: routed_def find_handler_spec [OF assms] dispatch_spec_def Let_def)
qed

text \<open>What a request that reaches no mutating call does to the three parts, by its canonical route.\<close>

definition reaches :: "http_request \<Rightarrow> string \<Rightarrow> string list \<Rightarrow> bool" where
  "reaches q m ss \<longleftrightarrow> cleanPath (hq_path q) = hq_path q \<and> hq_method q = m \<and> path_segments (hq_path q) = ss"

definition server_after :: "surroundings \<Rightarrow> http_request \<Rightarrow> server \<Rightarrow> server" where
  "server_after x q sv =
     (if reaches q ''GET'' [''api'', ''cache''] \<or> reaches q ''HEAD'' [''api'', ''cache'']
      then snd (handleCache (hx_views x) (hx_order x) (hx_now x) (hx_entries x) sv) else sv)"

definition sse_after :: "surroundings \<Rightarrow> http_request \<Rightarrow> sse_sys \<Rightarrow> sse_sys" where
  "sse_after x q y =
     (if reaches q ''POST'' [''api'', ''pulse''] then the (sse_perform (Pulse (hx_nanos x)) y)
      else if reaches q (hq_method q) [''events''] then the (sse_perform (Attach (hx_conn x)) y) else y)"

definition wakes_after :: "surroundings \<Rightarrow> http_request \<Rightarrow> db \<Rightarrow> wake_reg \<Rightarrow> wake_reg" where
  "wakes_after x q d reg =
     (let mac = path_segments (hq_path q) ! 2; wake = [''api'', ''devices'', mac, ''wake''] in
      if mac = ''/'' then reg
      else if reaches q ''POST'' wake then wake_perform (Do_wake (hx_faults x 0) mac (hx_run x) d) reg
      else if reaches q ''DELETE'' wake then wake_perform (Do_cancel mac) reg
      else reg)"

lemmas after_defs = reaches_def server_after_def sse_after_def wakes_after_def

lemma api_spec_effects:
  "api_spec ''GET'' [''api'', ''cache''] = Some (H_cache, [])" "api_spec ''HEAD'' [''api'', ''cache''] = Some (H_cache, [])"
  "api_spec ''POST'' [''api'', ''pulse''] = Some (H_pulse, [])"
  "mac \<noteq> ''/'' \<Longrightarrow> api_spec ''POST'' [''api'', ''devices'', mac, ''wake''] = Some (H_wake, [(''mac'', mac)])"
  "mac \<noteq> ''/'' \<Longrightarrow> api_spec ''DELETE'' [''api'', ''devices'', mac, ''wake''] = Some (H_cancel_wake, [(''mac'', mac)])"
  by (simp_all add: api_spec_def)

lemma page_after:
  assumes "cleanPath (hq_path q) = hq_path q" and "api_spec (hq_method q) (path_segments (hq_path q)) = None"
  shows "snd (serve_handler x (page_spec (path_segments (hq_path q))) [] q st) =
    \<lparr>si_server = server_after x q (si_server st), si_sse = sse_after x q (si_sse st),
     si_wakes = wakes_after x q (sv_db (si_server st)) (si_wakes st)\<rparr>"
proof -
  have no: "\<not> reaches q m ss" if "api_spec m ss \<noteq> None" for m ss using assms(2) that by (auto simp: reaches_def)
  have server: "server_after x q sv = sv" for sv using no by (simp add: server_after_def api_spec_effects)
  have wakes: "wakes_after x q d reg = reg" for d reg using no by (simp add: wakes_after_def api_spec_effects Let_def)
  have sse: "sse_after x q y = (if path_segments (hq_path q) = [''events''] then the (sse_perform (Attach (hx_conn x)) y) else y)" for y
    using no assms(1) by (simp add: sse_after_def reaches_def [of q "hq_method q"] api_spec_effects)
  show ?thesis by (simp add: page_spec_def server wakes sse)
qed

lemma api_spec_other:
  assumes "api_spec m ss = Some (h, vals)" and "api_request h vals q = None"
  shows "h \<in> {H_info, H_list_devices} \<and> m \<in> {''GET'', ''HEAD''} \<and> (ss = [''api'', ''info''] \<or> ss = [''api'', ''devices'']) \<or>
    h = H_cache \<and> m \<in> {''GET'', ''HEAD''} \<and> ss = [''api'', ''cache''] \<or> h = H_pulse \<and> m = ''POST'' \<and> ss = [''api'', ''pulse''] \<or>
    (\<exists>mac. mac \<noteq> ''/'' \<and> vals = [(''mac'', mac)] \<and> ss = [''api'', ''devices'', mac, ''wake''] \<and>
      (h = H_wake \<and> m = ''POST'' \<or> h = H_cancel_wake \<and> m = ''DELETE''))"
  using assms by (cases ss rule: by_length.cases) (auto simp: api_spec_def split: if_splits)

lemma api_after:
  assumes "cleanPath (hq_path q) = hq_path q" and "api_spec (hq_method q) (path_segments (hq_path q)) = Some (h, vals)"
    and "api_request h vals q = None"
  shows "snd (serve_handler x h vals q st) =
    \<lparr>si_server = server_after x q (si_server st), si_sse = sse_after x q (si_sse st),
     si_wakes = wakes_after x q (sv_db (si_server st)) (si_wakes st)\<rparr>"
  using api_spec_other [OF assms(2,3)]
  by (elim disjE conjE exE) (auto simp: after_defs assms(1) PathValue_def handlePulse_def Let_def split: prod.splits)

lemma http_serve_after:
  assumes m: "hq_method q \<noteq> ''CONNECT''" and no: "\<forall>req. \<not> (cleanPath (hq_path q) = hq_path q \<and> api_call req q)"
  shows "snd (http_serve x q st) =
    \<lparr>si_server = server_after x q (si_server st), si_sse = sse_after x q (si_sse st),
     si_wakes = wakes_after x q (sv_db (si_server st)) (si_wakes st)\<rparr>"
proof (cases "cleanPath (hq_path q) = hq_path q")
  case clean: True
  let ?ss = "path_segments (hq_path q)"
  show ?thesis
  proof (cases "api_spec (hq_method q) ?ss")
    case None
    show ?thesis
    proof (cases "?ss = [''static'']")
      case True
      then show ?thesis by (simp add: http_serve_def find_handler_spec [OF m] dispatch_spec_def clean after_defs Let_def)
    next
      case False
      with None page_after [OF clean None] show ?thesis
        by (simp add: http_serve_def find_handler_spec [OF m] dispatch_spec_def clean)
    qed
  next
    case (Some hv)
    then obtain h vals where hv: "api_spec (hq_method q) ?ss = Some (h, vals)" by (cases hv) simp
    then have "?ss \<noteq> [''static'']" by (auto simp: api_spec_def)
    moreover have "api_request h vals q = None" using no clean hv api_spec_request [of q] by (cases "api_request h vals q") auto
    ultimately show ?thesis using hv api_after [OF clean hv]
      by (simp add: http_serve_def find_handler_spec [OF m] dispatch_spec_def clean)
  qed
next
  case False
  then show ?thesis by (simp add: http_serve_def find_handler_spec [OF m] dispatch_spec_def after_defs Let_def)
qed

text \<open>The cache view only remembers: the hosts it shows, and which of them are to be written.\<close>

definition only_remembers :: "server \<Rightarrow> server \<Rightarrow> bool" where
  "only_remembers sv sv' \<longleftrightarrow> (\<exists>obs dirty. sv' = sv\<lparr>sv_mem := (sv_mem sv)\<lparr>s_obs := obs, s_obsDirty := dirty\<rparr>\<rparr>)"

lemma cache_present_remembers:
  "\<exists>obs dirty. snd (snd (cache_present env trk now es (out, pr, s))) = s\<lparr>s_obs := obs, s_obsDirty := dirty\<rparr>"
proof (induction es arbitrary: out pr s)
  case Nil
  have "s = s\<lparr>s_obs := s_obs s, s_obsDirty := s_obsDirty s\<rparr>" by simp
  then show ?case unfolding cache_present.simps snd_conv by blast
next
  case (Cons e es)
  let ?t = "touchObserved (e_MAC e) (e_IP e) (ve_names env (e_IP e)) now s"
  have "?t = s\<lparr>s_obs := s_obs ?t, s_obsDirty := s_obsDirty ?t\<rparr>" by (simp add: touchObserved_def Let_def)
  then obtain obs dirty where "touchObserved (e_MAC e) (e_IP e) (ve_names env (e_IP e)) now s = s\<lparr>s_obs := obs, s_obsDirty := dirty\<rparr>"
    by blast
  with Cons.IH [of _ _ s] Cons.IH [of _ _ "s\<lparr>s_obs := obs, s_obsDirty := dirty\<rparr>"] show ?case by (simp add: Let_def)
qed

lemma server_after_remembers: "only_remembers sv (server_after x q sv)"
proof -
  let ?es = "snd (neighSnapshot (hx_entries x))"
  have "snd (buildCache (hx_views x) (hx_order x) (hx_now x) ?es (sv_mem sv)) =
      snd (snd (cache_present (hx_views x) (tracked (sv_mem sv)) (hx_now x) ?es ([], {}, sv_mem sv)))"
    by (simp add: buildCache_def Let_def split: prod.split)
  with cache_present_remembers [of "hx_views x" "tracked (sv_mem sv)" "hx_now x" ?es "[]" "{}" "sv_mem sv"]
  obtain obs dirty where "snd (buildCache (hx_views x) (hx_order x) (hx_now x) ?es (sv_mem sv)) =
      (sv_mem sv)\<lparr>s_obs := obs, s_obsDirty := dirty\<rparr>" by auto
  then have "only_remembers sv (snd (handleCache (hx_views x) (hx_order x) (hx_now x) (hx_entries x) sv))"
    by (cases "buildCache (hx_views x) (hx_order x) (hx_now x) ?es (sv_mem sv)") (auto simp: only_remembers_def handleCache_def)
  moreover have "sv = sv\<lparr>sv_mem := (sv_mem sv)\<lparr>s_obs := s_obs (sv_mem sv), s_obsDirty := s_obsDirty (sv_mem sv)\<rparr>\<rparr>" by simp
  then have "only_remembers sv sv" unfolding only_remembers_def by blast
  ultimately show ?thesis by (simp add: server_after_def)
qed

text \<open>
  C24. What a request can change. A request other than \<open>CONNECT\<close> is handed to a mutating handler
  exactly when its path is in clean form and method and segments are those of that handler's
  route, and then with the decoded segments and the body as arguments: it is answered as the
  handler answers, and only the server changes, as the handler changes it. Every other request
  leaves the database, the tracked devices, the journal and the flags as they were. Of the model
  it changes at most the remembered hosts and their dirty marks, and that only for a \<open>GET\<close> or
  \<open>HEAD\<close> of the cache view, which remembers the hosts it shows; of the hub at most the pulse or
  one attached connection, and of the wakes the one named, each for its own canonical route only. A
  path that merely cleans to such a route changes nothing.
\<close>

theorem only_mutating_routes_mutate:
  assumes "hq_method q \<noteq> ''CONNECT''"
  shows "(cleanPath (hq_path q) = hq_path q \<longrightarrow> api_call req q \<longrightarrow>
      http_serve x q st = (let (resp, jobs, sv) = serve (hx_api x) (hx_faults x) (hx_now x) req (si_server st)
        in (Api_reply resp jobs, st\<lparr>si_server := sv\<rparr>))) \<and>
    ((\<forall>req. \<not> (cleanPath (hq_path q) = hq_path q \<and> api_call req q)) \<longrightarrow>
      snd (http_serve x q st) = \<lparr>si_server = server_after x q (si_server st), si_sse = sse_after x q (si_sse st),
        si_wakes = wakes_after x q (sv_db (si_server st)) (si_wakes st)\<rparr> \<and>
      only_remembers (si_server st) (si_server (snd (http_serve x q st))))"
proof -
  have "http_serve x q st = serve_call x req st" if "cleanPath (hq_path q) = hq_path q" "api_call req q"
    using that routed_call [OF assms] http_serve_routed by blast
  then show ?thesis
    by (auto simp: serve_call_def http_serve_after [OF assms] server_after_remembers)
qed

definition demo_request :: "string \<Rightarrow> string \<Rightarrow> http_request" where
  "demo_request m p = \<lparr>hq_method = m, hq_path = p, hq_track = None, hq_patch = None, hq_port = Some 22, hq_cidr = None\<rparr>"

definition demo_lan_entry :: entry where
  "demo_lan_entry = \<lparr>e_IP = ''10.0.0.9'', e_MAC = ''m2'', e_State = ''reachable'', e_SeenSec = 0\<rparr>"

definition demo_around :: "surroundings \<Rightarrow> surroundings" where
  "demo_around x = x\<lparr>hx_views := \<lparr>ve_lan = None, ve_vendors = Map.empty, ve_names = \<lambda>_. []\<rparr>, hx_order := [], hx_now := 100,
     hx_entries := Some [demo_lan_entry]\<rparr>"

lemma demo_cache_dirty:
  assumes "sv_mem sv = newState"
  shows "s_obsDirty (sv_mem (snd (handleCache \<lparr>ve_lan = None, ve_vendors = Map.empty, ve_names = \<lambda>_. []\<rparr> [] 100
    (Some [demo_lan_entry]) sv))) = {''m2''}"
proof -
  have "onLAN None ''10.0.0.9''" by code_simp
  then show ?thesis
    by (simp add: handleCache_def buildCache_def neighSnapshot_def demo_lan_entry_def assms newState_def tracked_def touchObserved_def
        split: prod.split)
qed

text \<open>
  A watchdog is added through an escaped MAC; the same handler's route spelt with an empty segment
  and a \<open>GET\<close> of a route that only posts change nothing; a \<open>GET\<close> of the cache view marks the host
  it shows; a \<open>POST\<close> of a pulse reaches the hub alone.
\<close>

lemma only_mutating_routes_mutate_witness:
  "(\<forall>x st. http_serve x (demo_request ''POST'' ''/api/devices/aa%3Abb/probes'') st =
     (let (resp, jobs, sv) = handleAddProbe (hx_faults x) ''aa:bb'' (Some 22) (si_server st)
      in (Api_reply resp jobs, st\<lparr>si_server := sv\<rparr>))) \<and>
   (\<forall>x st. snd (http_serve x (demo_request ''GET'' ''/api/scan'') st) = st) \<and>
   (\<forall>x st. snd (http_serve x (demo_request ''POST'' ''/api//scan'') st) = st) \<and>
   (\<forall>x st. snd (http_serve x (demo_request ''POST'' ''/api/pulse'') st) =
     st\<lparr>si_sse := (si_sse st)\<lparr>g_hub := hub_Pulse (hx_nanos x) (g_hub (si_sse st))\<rparr>\<rparr>) \<and>
   (\<forall>x st. s_obsDirty (sv_mem (si_server (snd (http_serve (demo_around x) (demo_request ''GET'' ''/api/cache'')
     (st\<lparr>si_server := (si_server st)\<lparr>sv_mem := newState\<rparr>\<rparr>))))) = {''m2''})"
proof -
  have paths: "cleanPath ''/api/devices/aa%3Abb/probes'' = ''/api/devices/aa%3Abb/probes''" "cleanPath ''/api//scan'' \<noteq> ''/api//scan''"
    "path_segments ''/api/devices/aa%3Abb/probes'' = [''api'', ''devices'', ''aa:bb'', ''probes'']"
    "path_segments ''/api/scan'' = [''api'', ''scan'']" "path_segments ''/api//scan'' ! 2 = ''scan''"
    "cleanPath ''/api/pulse'' = ''/api/pulse''" "path_segments ''/api/pulse'' = [''api'', ''pulse'']"
    "cleanPath ''/api/cache'' = ''/api/cache''" "path_segments ''/api/cache'' = [''api'', ''cache'']"
    by code_simp+
  have get: "\<not> api_call req (demo_request ''GET'' p)" for req p
    by (cases req) (simp_all add: demo_request_def api_call_def)
  have pulse: "\<not> api_call req (demo_request ''POST'' ''/api/pulse'')" for req
    by (cases req) (simp_all add: demo_request_def api_call_def paths)
  have fields: "hq_method (demo_request m p) = m" "hq_path (demo_request m p) = p" "hq_port (demo_request m p) = Some 22" for m p
    by (simp_all add: demo_request_def)
  note use = only_mutating_routes_mutate [of "demo_request m p" for m p, unfolded fields]
  have add: "http_serve x (demo_request ''POST'' ''/api/devices/aa%3Abb/probes'') st =
     (let (resp, jobs, sv) = handleAddProbe (hx_faults x) ''aa:bb'' (Some 22) (si_server st)
      in (Api_reply resp jobs, st\<lparr>si_server := sv\<rparr>))" for x st
    using use [of "''POST''" "''/api/devices/aa%3Abb/probes''" "Req_add_probe ''aa:bb'' (Some 22)" x st]
    by (simp add: api_call_def paths fields)
  have scan: "snd (http_serve x (demo_request ''GET'' ''/api/scan'') st) = st" for x st
    using use [of "''GET''" "''/api/scan''" undefined x st] by (simp add: get after_defs fields paths Let_def)
  have unclean: "snd (http_serve x (demo_request ''POST'' ''/api//scan'') st) = st" for x st
    using use [of "''POST''" "''/api//scan''" undefined x st] by (simp add: paths after_defs fields Let_def)
  have beat: "snd (http_serve x (demo_request ''POST'' ''/api/pulse'') st) =
     st\<lparr>si_sse := (si_sse st)\<lparr>g_hub := hub_Pulse (hx_nanos x) (g_hub (si_sse st))\<rparr>\<rparr>" for x st
    using use [of "''POST''" "''/api/pulse''" undefined x st] by (simp add: paths pulse after_defs fields Let_def)
  have "snd (http_serve x (demo_request ''GET'' ''/api/cache'') st) =
     st\<lparr>si_server := snd (handleCache (hx_views x) (hx_order x) (hx_now x) (hx_entries x) (si_server st))\<rparr>" for x st
    using use [of "''GET''" "''/api/cache''" undefined x st] by (simp add: paths get after_defs fields Let_def)
  with add scan unclean beat demo_cache_dirty show ?thesis by (simp add: demo_around_def)
qed

end
