(* ===== verification/Darwin.thy ===== *)
theory Darwin
  imports Neigh Netconf Sysinfo Wol
begin

text \<open>
  The macOS variants of the platform files (\<^verbatim>\<open>neigh_darwin.go\<close>, \<^verbatim>\<open>netconf_darwin.go\<close>,
  \<^verbatim>\<open>sysinfo_darwin.go\<close>, \<^verbatim>\<open>send_l2_other.go\<close>), used on the development machine only. What a command
  printed is an argument, \<open>None\<close> when it failed; so are the clock and the random draws.
\<close>

section \<open>The neighbour cache\<close>

text \<open>
  The pattern of \<^verbatim>\<open>arpLine\<close>, an address in parentheses, the word \<open>at\<close> and a link address, tried at
  the head of a string. No character of a class ends it, so the greedy match is the only one.
\<close>

definition is_v4_char :: "char \<Rightarrow> bool" where
  "is_v4_char c \<longleftrightarrow> dec_val c \<noteq> None \<or> c = CHR ''.''"

definition is_mac_char :: "char \<Rightarrow> bool" where
  "is_mac_char c \<longleftrightarrow> is_hex c \<or> c = CHR '':''"

definition arp_match :: "string \<Rightarrow> ((string \<times> string) \<times> string) option" where
  "arp_match s =
     (if s = [] \<or> hd s \<noteq> CHR ''('' then None
      else let ip = takeWhile is_v4_char (tl s); rest = dropWhile is_v4_char (tl s) in
        if ip = [] \<or> \<not> has_prefix rest '') at '' then None
        else let r2 = drop 5 rest; mac = takeWhile is_mac_char r2 in
          if mac = [] then None else Some ((ip, mac), dropWhile is_mac_char r2))"

lemma arp_match_shorter: "arp_match s = Some (m, r) \<Longrightarrow> length r < length s"
proof -
  assume a: "arp_match s = Some (m, r)"
  then obtain s' where s: "s = CHR ''('' # s'" by (cases s) (auto simp: arp_match_def split: if_splits)
  with a have "r = dropWhile is_mac_char (drop 5 (dropWhile is_v4_char s'))"
    by (auto simp: arp_match_def Let_def split: if_splits)
  then have "length r \<le> length s'"
    using length_dropWhile_le [of is_mac_char "drop 5 (dropWhile is_v4_char s')"] length_dropWhile_le [of is_v4_char s'] by simp
  with s show ?thesis by simp
qed

text \<open>\<^verbatim>\<open>FindAllStringSubmatch\<close>: from left to right, going on behind each match.\<close>

function arp_matches :: "string \<Rightarrow> (string \<times> string) list" where
  "arp_matches s =
     (if s = [] then []
      else case arp_match s of None \<Rightarrow> arp_matches (tl s) | Some (m, rest) \<Rightarrow> m # arp_matches rest)"
  by pat_completeness auto
termination
  by (relation "measure length") (auto dest: arp_match_shorter)

definition darwin_read :: "string option \<Rightarrow> entry list option" where
  "darwin_read out = map_option (\<lambda>s. List.map_filter (\<lambda>(ip, m).
     let mac = neigh_normMAC m in
     if mac = [] \<or> mac = ''ff:ff:ff:ff:ff:ff'' then None
     else Some \<lparr>e_IP = ip, e_MAC = mac, e_State = ''stale'', e_SeenSec = -1\<rparr>) (arp_matches s)) out"

section \<open>The default gateway\<close>

fun gateway_line :: "string list \<Rightarrow> string" where
  "gateway_line [] = []"
| "gateway_line (line # ls) =
     (let l = trim_space line in
      if has_prefix l ''gateway:'' then trim_space (drop 8 l) else gateway_line ls)"

definition darwin_defaultGateway :: "string option \<Rightarrow> string" where
  "darwin_defaultGateway out = (case out of None \<Rightarrow> [] | Some s \<Rightarrow> gateway_line (split_on (CHR 0x0A) s))"

section \<open>Statistics\<close>

text \<open>Seconds since the process started, plus a day.\<close>

definition darwin_uptimeSec :: "rat \<Rightarrow> int" where
  "darwin_uptimeSec since = int64_of since + 86400"

text \<open>Invented jiffies, from the milliseconds since the start.\<close>

definition jitter :: "nat \<Rightarrow> nat \<Rightarrow> 64 word" where
  "jitter t seed = word_of_int \<lfloor>real t * (0.2 + 0.3 * \<bar>sin (real seed + real t / 4000)\<bar>)\<rfloor>"

definition darwin_cpuSample :: "nat \<Rightarrow> cpu_snap" where
  "darwin_cpuSample t = \<lparr>cs_totalBusy = jitter t 0, cs_total = of_nat t,
     cs_cores = map (\<lambda>i. (jitter t (i + 1), of_nat t)) [0..<4]\<rparr>"

definition darwin_loadAvg :: "rat \<Rightarrow> rat list" where
  "darwin_loadAvg r = [2 / 10 + r * 3 / 10, 25 / 100, 2 / 10]"

definition darwin_tempC :: "rat \<Rightarrow> rat" where
  "darwin_tempC r = 45 + r * 8"

definition darwin_memInfo :: "rat \<Rightarrow> mem \<times> mem" where
  "darwin_memInfo r =
     (let pct = 40 + r * 10
      in (\<lparr>me_Pct = pct, me_UsedMB = int64_of (pct / 100 * 2048), me_TotalMB = 2048, me_Disabled = False\<rparr>,
          \<lparr>me_Pct = 2, me_UsedMB = 10, me_TotalMB = 512, me_Disabled = False\<rparr>))"

fun netstat_line :: "string \<Rightarrow> string list \<Rightarrow> 64 word \<times> 64 word" where
  "netstat_line iface [] = (0, 0)"
| "netstat_line iface (line # ls) =
     (let f = str_fields line in
      if length f < 10 \<or> f ! 0 \<noteq> iface \<or> \<not> has_prefix (f ! 2) ''<Link'' then netstat_line iface ls
      else (ParseUint (f ! 6), ParseUint (f ! 9)))"

definition darwin_netCounters :: "string \<Rightarrow> string option \<Rightarrow> 64 word \<times> 64 word" where
  "darwin_netCounters iface out =
     (case out of None \<Rightarrow> (0, 0) | Some s \<Rightarrow> netstat_line iface (tl (split_on (CHR 0x0A) s)))"

section \<open>Waking\<close>

text \<open>No link-layer frame is sent, and none failed.\<close>

definition other_sendL2 :: "string \<Rightarrow> byte list \<Rightarrow> byte list \<Rightarrow> packet list \<times> nat \<times> bool" where
  "other_sendL2 iface mac payload = ([], 0, False)"

section \<open>Reading back an arp table\<close>

record arp_row =
  ar_Host :: string
  ar_IP :: string
  ar_MAC :: string
  ar_Rest :: string

definition arp_line :: "arp_row \<Rightarrow> string" where
  "arp_line r = ar_Host r @ ''('' @ ar_IP r @ '') at '' @ ar_MAC r @ ar_Rest r"

definition arp_row_ok :: "arp_row \<Rightarrow> bool" where
  "arp_row_ok r \<longleftrightarrow> CHR ''('' \<notin> set (ar_Host r) \<and> ar_IP r \<noteq> [] \<and> list_all is_v4_char (ar_IP r) \<and>
     ar_MAC r \<noteq> [] \<and> list_all is_mac_char (ar_MAC r) \<and> ar_Rest r \<noteq> [] \<and> \<not> is_mac_char (hd (ar_Rest r)) \<and>
     CHR ''('' \<notin> set (ar_Rest r)"

declare arp_matches.simps [simp del]

lemma arp_matches_Nil [simp]: "arp_matches [] = []"
  by (subst arp_matches.simps) simp

lemma arp_matches_skip: "CHR ''('' \<notin> set p \<Longrightarrow> arp_matches (p @ s) = arp_matches s"
proof (induction p)
  case (Cons c cs)
  then have "arp_match (c # cs @ s) = None" by (auto simp: arp_match_def)
  with Cons show ?case by (subst arp_matches.simps) simp
qed simp

lemma takeWhile_upto: "list_all P xs \<Longrightarrow> ys \<noteq> [] \<Longrightarrow> \<not> P (hd ys) \<Longrightarrow> takeWhile P (xs @ ys) = xs \<and> dropWhile P (xs @ ys) = ys"
  by (induction xs) (auto simp: neq_Nil_conv)

lemma arp_matches_line:
  assumes "arp_row_ok r"
  shows "arp_matches (arp_line r @ s) = (ar_IP r, ar_MAC r) # arp_matches s"
proof -
  note ok = assms [unfolded arp_row_ok_def]
  let ?t = "ar_MAC r @ ar_Rest r @ s"
  have v4: "takeWhile is_v4_char (ar_IP r @ '') at '' @ ?t) = ar_IP r" "dropWhile is_v4_char (ar_IP r @ '') at '' @ ?t) = '') at '' @ ?t"
    using takeWhile_upto [of is_v4_char "ar_IP r" "'') at '' @ ?t"] ok by (simp_all add: is_v4_char_def dec_val_def)
  have mac: "takeWhile is_mac_char ?t = ar_MAC r" "dropWhile is_mac_char ?t = ar_Rest r @ s"
    using takeWhile_upto [of is_mac_char "ar_MAC r" "ar_Rest r @ s"] ok by simp_all
  have "arp_match (''('' @ ar_IP r @ '') at '' @ ?t) = Some ((ar_IP r, ar_MAC r), ar_Rest r @ s)"
    unfolding arp_match_def using v4 mac ok by (simp add: has_prefix_def)
  then have "arp_matches (''('' @ ar_IP r @ '') at '' @ ?t) = (ar_IP r, ar_MAC r) # arp_matches (ar_Rest r @ s)"
    by (subst arp_matches.simps) simp
  then show ?thesis using ok by (simp add: arp_line_def arp_matches_skip)
qed

lemma arp_table_read:
  assumes "list_all arp_row_ok rows"
  shows "arp_matches (concat (map arp_line rows)) = map (\<lambda>r. (ar_IP r, ar_MAC r)) rows"
  using assms by (induction rows) (simp_all add: arp_matches_line)

text \<open>
  A table of complete lines is read back row by row, the addresses normalised, broadcast and empty
  ones left out.
\<close>

lemma darwin_reads_arp_table:
  assumes "list_all arp_row_ok rows"
  shows "darwin_read (Some (concat (map arp_line rows))) =
    Some (map (\<lambda>r. \<lparr>e_IP = ar_IP r, e_MAC = NormMAC (ar_MAC r), e_State = ''stale'', e_SeenSec = -1\<rparr>)
      (filter (\<lambda>r. NormMAC (ar_MAC r) \<notin> {[], ''ff:ff:ff:ff:ff:ff''}) rows))"
  unfolding darwin_read_def option.map(2) arp_table_read [OF assms]
  by (induction rows) (simp_all add: map_filter_simps neigh_normMAC_eq Let_def)

lemma darwin_reads_arp_example:
  "darwin_read (Some ''? (10.0.0.1) at 0:1B:2c:3d:4e:5f on en0 [ethernet]'') =
   Some [\<lparr>e_IP = ''10.0.0.1'', e_MAC = ''00:1b:2c:3d:4e:5f'', e_State = ''stale'', e_SeenSec = -1\<rparr>]"
proof -
  let ?r = "\<lparr>ar_Host = ''? '', ar_IP = ''10.0.0.1'', ar_MAC = ''0:1B:2c:3d:4e:5f'', ar_Rest = '' on en0 [ethernet]''\<rparr>"
  have "NormMAC ''0:1B:2c:3d:4e:5f'' = ''00:1b:2c:3d:4e:5f''" by code_simp
  moreover have "list_all arp_row_ok [?r]" by code_simp
  ultimately show ?thesis using darwin_reads_arp_table [of "[?r]"] by (simp add: arp_line_def)
qed

end
