(* ===== verification/ScanFeed.thy ===== *)
theory ScanFeed
  imports Api
begin

text \<open>
  The workers of a sweep and the frames it streams: the pool of \<^verbatim>\<open>Sweep\<close> in
  \<^verbatim>\<open>internal/scan/scan.go\<close> and the progress callback of \<^verbatim>\<open>runScan\<close> in
  \<^verbatim>\<open>internal/server/scan.go\<close>, as a state machine. The goroutines have no identity, so the pool is
  the multiset of their program points; the producer hands the hosts over an unbuffered channel,
  the counter is raised under the mutex, and the callback, which the workers run outside of it,
  reads \<^verbatim>\<open>last\<close> in one step and writes it in another. Times are in nanoseconds of the monotonic
  clock, moved by a step of its own.
\<close>

section \<open>The pool\<close>

datatype worker =
    Idle
  | Nudging string
  | Nudged string
  | Counted nat string
  | Sending nat string
  | Returned

record pool =
  sp_todo :: "string list"
  sp_workers :: "worker multiset"
  sp_closed :: bool
  sp_cancelled :: bool
  sp_done :: nat
  sp_nudged :: "string list"
  sp_calls :: "(nat \<times> string) list"
  sp_now :: int
  sp_last :: int
  sp_sent :: "(nat \<times> string) list"

definition scan_workers :: nat where
  "scan_workers = 64"

definition frame_gap :: int where
  "frame_gap = 200 * 10 ^ 6"

definition pool_init :: "string list \<Rightarrow> int \<Rightarrow> pool \<Rightarrow> bool" where
  "pool_init hosts now st \<longleftrightarrow> st = \<lparr>sp_todo = hosts, sp_workers = replicate_mset scan_workers Idle, sp_closed = False,
     sp_cancelled = False, sp_done = 0, sp_nudged = [], sp_calls = [], sp_now = now, sp_last = now, sp_sent = []\<rparr>"

text \<open>
  \<open>Hand_over\<close>, \<open>Cancel\<close> and \<open>Close\<close> are the producer's: its select on the channel and the context,
  and the close after the last host. \<open>Check\<close> is the throttle's test, \<open>Send\<close> its assignment to
  \<^verbatim>\<open>last\<close> with the broadcast.
\<close>

datatype pool_act =
    Hand_over
  | Cancel
  | Close
  | Nudge string
  | Count string
  | Check nat string
  | Send nat string
  | Return
  | Clock int

fun pool_enabled :: "pool_act \<Rightarrow> pool \<Rightarrow> bool" where
  "pool_enabled Hand_over st \<longleftrightarrow> \<not> sp_closed st \<and> sp_todo st \<noteq> [] \<and> Idle \<in># sp_workers st"
| "pool_enabled Cancel st \<longleftrightarrow> \<not> sp_closed st \<and> sp_todo st \<noteq> []"
| "pool_enabled Close st \<longleftrightarrow> \<not> sp_closed st \<and> sp_todo st = []"
| "pool_enabled (Nudge ip) st \<longleftrightarrow> Nudging ip \<in># sp_workers st"
| "pool_enabled (Count ip) st \<longleftrightarrow> Nudged ip \<in># sp_workers st"
| "pool_enabled (Check d ip) st \<longleftrightarrow> Counted d ip \<in># sp_workers st"
| "pool_enabled (Send d ip) st \<longleftrightarrow> Sending d ip \<in># sp_workers st"
| "pool_enabled Return st \<longleftrightarrow> sp_closed st \<and> Idle \<in># sp_workers st"
| "pool_enabled (Clock t) st \<longleftrightarrow> sp_now st \<le> t"

text \<open>The throttle of the callback: a frame too soon after the last one, unless it is the final one.\<close>

definition throttled :: "nat \<Rightarrow> int \<Rightarrow> nat \<Rightarrow> bool" where
  "throttled tot since d \<longleftrightarrow> since < frame_gap \<and> d \<noteq> tot"

definition move :: "worker \<Rightarrow> worker \<Rightarrow> pool \<Rightarrow> pool" where
  "move a b st = st\<lparr>sp_workers := add_mset b (sp_workers st - {#a#})\<rparr>"

fun pool_perform :: "nat \<Rightarrow> pool_act \<Rightarrow> pool \<Rightarrow> pool" where
  "pool_perform tot Hand_over st = (move Idle (Nudging (hd (sp_todo st))) st)\<lparr>sp_todo := tl (sp_todo st)\<rparr>"
| "pool_perform tot Cancel st = st\<lparr>sp_closed := True, sp_cancelled := True\<rparr>"
| "pool_perform tot Close st = st\<lparr>sp_closed := True\<rparr>"
| "pool_perform tot (Nudge ip) st = (move (Nudging ip) (Nudged ip) st)\<lparr>sp_nudged := sp_nudged st @ [ip]\<rparr>"
| "pool_perform tot (Count ip) st = (move (Nudged ip) (Counted (Suc (sp_done st)) ip) st)\<lparr>sp_done := Suc (sp_done st)\<rparr>"
| "pool_perform tot (Check d ip) st =
     (let st' = st\<lparr>sp_calls := sp_calls st @ [(d, ip)]\<rparr> in
      if throttled tot (sp_now st - sp_last st) d then move (Counted d ip) Idle st'
      else move (Counted d ip) (Sending d ip) st')"
| "pool_perform tot (Send d ip) st =
     (move (Sending d ip) Idle st)\<lparr>sp_last := sp_now st, sp_sent := sp_sent st @ [(d, ip)]\<rparr>"
| "pool_perform tot Return st = move Idle Returned st"
| "pool_perform tot (Clock t) st = st\<lparr>sp_now := t\<rparr>"

inductive pool_step :: "nat \<Rightarrow> pool \<Rightarrow> pool \<Rightarrow> bool" for tot where
  "pool_enabled a st \<Longrightarrow> pool_step tot st (pool_perform tot a st)"

inductive_cases pool_stepE: "pool_step tot st st'"

text \<open>\<^verbatim>\<open>wg.Wait\<close> returns: the channel is closed and every worker has returned.\<close>

definition pool_finished :: "pool \<Rightarrow> bool" where
  "pool_finished st \<longleftrightarrow> sp_closed st \<and> (\<forall>w \<in># sp_workers st. w = Returned)"

text \<open>
  \<^verbatim>\<open>nudge\<close>: one byte to the discard port, where dialling succeeds. \<open>dial\<close> is given the joined host
  and port.
\<close>

definition JoinHostPort :: "string \<Rightarrow> string \<Rightarrow> string" where
  "JoinHostPort host port =
     (if CHR '':'' \<in> set host then CHR ''['' # host @ '']:'' @ port else host @ '':'' @ port)"

definition nudge :: "(string \<Rightarrow> bool) \<Rightarrow> string \<Rightarrow> (string \<times> byte list) list" where
  "nudge dial ip = (let addr = JoinHostPort ip ''9'' in if dial addr then [(addr, [0])] else [])"

definition sweep_packets :: "(string \<Rightarrow> bool) \<Rightarrow> string list \<Rightarrow> (string \<times> byte list) list" where
  "sweep_packets dial ips = concat (map (nudge dial) ips)"

section \<open>The frames\<close>

record scan_event =
  sc_State :: string
  sc_Pct :: nat
  sc_Msg :: string
  sc_Results :: "cache_view list"

definition progress_event :: "nat \<Rightarrow> nat \<times> string \<Rightarrow> scan_event" where
  "progress_event tot call = (case call of (d, cur) \<Rightarrow>
     \<lparr>sc_State = ''progress'', sc_Pct = (if tot > 0 then d * 100 div tot else 0),
      sc_Msg = ''arp probe '' @ cur @ ''  ('' @ nat_string d @ ''/'' @ nat_string tot @ '')'', sc_Results = []\<rparr>)"

text \<open>The dot of the closing message is U+00B7 in UTF-8. \<open>err\<close> is the text of the sweep's error.\<close>

definition closing_event :: "string \<Rightarrow> scan_outcome \<Rightarrow> scan_event" where
  "closing_event err outcome = (case outcome of
     Scan_failed \<Rightarrow> \<lparr>sc_State = ''error'', sc_Pct = 100, sc_Msg = err, sc_Results = []\<rparr>
   | Scan_done rows \<Rightarrow> \<lparr>sc_State = ''done'', sc_Pct = 100,
       sc_Msg = ''done '' @ [CHR 0xC2, CHR 0xB7] @ '' '' @ nat_string (length rows) @ '' new host(s)'', sc_Results = rows\<rparr>)"

definition scan_feed :: "nat \<Rightarrow> pool \<Rightarrow> string \<Rightarrow> scan_outcome \<Rightarrow> scan_event list" where
  "scan_feed tot st err outcome = map (progress_event tot) (sp_sent st) @ [closing_event err outcome]"

section \<open>What the pool keeps\<close>

text \<open>What each worker holds, by the stage it is in.\<close>

fun fresh :: "worker \<Rightarrow> string multiset" where
  "fresh (Nudging ip) = {#ip#}"
| "fresh _ = {#}"

fun probed :: "worker \<Rightarrow> string multiset" where
  "probed (Nudged ip) = {#ip#}"
| "probed (Counted d ip) = {#ip#}"
| "probed _ = {#}"

fun counted :: "worker \<Rightarrow> nat multiset" where
  "counted (Counted d ip) = {#d#}"
| "counted _ = {#}"

fun sending :: "worker \<Rightarrow> (nat \<times> string) multiset" where
  "sending (Sending d ip) = {#(d, ip)#}"
| "sending _ = {#}"

definition held :: "(worker \<Rightarrow> 'a multiset) \<Rightarrow> worker multiset \<Rightarrow> 'a multiset" where
  "held f ws = (\<Sum>w \<in># ws. f w)"

lemma held_simps [simp]:
  "held f {#} = {#}" "held f (add_mset w ws) = f w + held f ws"
  by (simp_all add: held_def)

lemma mset_set_Suc [simp]: "mset_set {Suc 0..Suc n} = add_mset (Suc n) (mset_set {Suc 0..n})"
  by (simp add: atLeastAtMostSuc_conv)

lemma subseteq_add_mset: "A \<subseteq># B \<Longrightarrow> A \<subseteq># add_mset x B"
  by (metis add_mset_add_single mset_subset_eq_add_left subset_mset.order_trans)

lemma held_none: "(\<And>w. w \<in># ws \<Longrightarrow> f w = {#}) \<Longrightarrow> held f ws = {#}"
  by (induction ws) auto

lemma sp_workers_move: "sp_workers st = add_mset a ws \<Longrightarrow> sp_workers (move a b st) = add_mset b ws"
  by (simp add: move_def)

lemma size_move [simp]: "a \<in># sp_workers st \<Longrightarrow> size (sp_workers (move a b st)) = size (sp_workers st)"
  by (auto simp: sp_workers_move dest!: multi_member_split)

lemma in_move: "w \<in># sp_workers (move a b st) \<Longrightarrow> w = b \<or> w \<in># sp_workers st"
  by (auto simp: move_def dest: in_diffD)

lemma move_simps [simp]:
  "sp_todo (move a b st) = sp_todo st" "sp_closed (move a b st) = sp_closed st"
  "sp_cancelled (move a b st) = sp_cancelled st" "sp_done (move a b st) = sp_done st"
  "sp_nudged (move a b st) = sp_nudged st" "sp_calls (move a b st) = sp_calls st"
  "sp_now (move a b st) = sp_now st" "sp_last (move a b st) = sp_last st" "sp_sent (move a b st) = sp_sent st"
  by (simp_all add: move_def)

text \<open>
  Every host is either still to come, with one worker, or nudged; every nudged host is with the
  worker that will report it, or reported; the counts given out are 1, 2, ... without gap or
  repetition; and the call that reports the last host is never throttled.
\<close>

definition hosts_kept :: "string list \<Rightarrow> pool \<Rightarrow> bool" where
  "hosts_kept hosts st \<longleftrightarrow>
     mset hosts = mset (sp_todo st) + held fresh (sp_workers st) + mset (sp_nudged st) \<and>
     mset (sp_nudged st) = held probed (sp_workers st) + mset (map snd (sp_calls st))"

definition counts_kept :: "pool \<Rightarrow> bool" where
  "counts_kept st \<longleftrightarrow>
     mset_set {1..sp_done st} = held counted (sp_workers st) + mset (map fst (sp_calls st))"

definition frames_kept :: "nat \<Rightarrow> pool \<Rightarrow> bool" where
  "frames_kept tot st \<longleftrightarrow>
     held sending (sp_workers st) + mset (sp_sent st) \<subseteq># mset (sp_calls st) \<and>
     (\<forall>ip. (tot, ip) \<in> set (sp_calls st) \<longrightarrow> (tot, ip) \<in># held sending (sp_workers st) \<or> (tot, ip) \<in> set (sp_sent st))"

definition phases_kept :: "pool \<Rightarrow> bool" where
  "phases_kept st \<longleftrightarrow>
     size (sp_workers st) = scan_workers \<and>
     (sp_closed st \<longrightarrow> sp_cancelled st \<or> sp_todo st = []) \<and>
     (sp_cancelled st \<longrightarrow> sp_closed st \<and> sp_todo st \<noteq> []) \<and>
     (Returned \<in># sp_workers st \<longrightarrow> sp_closed st)"

definition pool_inv :: "string list \<Rightarrow> pool \<Rightarrow> bool" where
  "pool_inv hosts st \<longleftrightarrow> hosts_kept hosts st \<and> counts_kept st \<and> frames_kept (length hosts) st \<and> phases_kept st"

lemma held_idle [simp]: "f Idle = {#} \<Longrightarrow> held f (replicate_mset n Idle) = {#}"
  by (rule held_none) (simp add: in_replicate_mset split: if_splits)

lemma pool_inv_init: "pool_init hosts now st \<Longrightarrow> pool_inv hosts st"
  by (simp add: pool_init_def pool_inv_def hosts_kept_def counts_kept_def frames_kept_def phases_kept_def scan_workers_def)

text \<open>The worker an action moves, and the invariant over one action, part by part.\<close>

lemma hosts_kept_perform:
  assumes "hosts_kept hosts st" and "pool_enabled a st"
  shows "hosts_kept hosts (pool_perform tot a st)"
  using assms
  by (cases a; cases "sp_todo st")
    (auto simp: hosts_kept_def sp_workers_move Let_def dest!: multi_member_split)

lemma counts_kept_perform:
  assumes "counts_kept st" and "pool_enabled a st"
  shows "counts_kept (pool_perform tot a st)"
  using assms
  by (cases a) (auto simp: counts_kept_def sp_workers_move Let_def dest!: multi_member_split)

lemma frames_kept_perform:
  assumes "frames_kept tot st" and "pool_enabled a st"
  shows "frames_kept tot (pool_perform tot a st)"
  using assms
  by (cases a) (auto simp: frames_kept_def throttled_def sp_workers_move Let_def subseteq_add_mset dest!: multi_member_split)

lemma phases_kept_perform:
  assumes "phases_kept st" and "pool_enabled a st"
  shows "phases_kept (pool_perform tot a st)"
  using assms
  by (cases a; cases "sp_todo st")
    (auto simp: phases_kept_def Let_def dest: in_move)

lemma pool_inv_step:
  assumes "pool_inv hosts st" and "pool_step (length hosts) st st'"
  shows "pool_inv hosts st'"
  using assms(2,1)
  by (auto elim!: pool_stepE
      simp: pool_inv_def hosts_kept_perform counts_kept_perform frames_kept_perform phases_kept_perform)

interpretation pool: action_machine "pool_init hosts now" "pool_step (length hosts)" "pool_inv hosts"
    pool_enabled "pool_perform (length hosts)"
  for hosts now
  by unfold_locales (rule pool_inv_init pool_inv_step pool_step.intros, assumption+)+

section \<open>Every schedule ends\<close>

fun weight :: "worker \<Rightarrow> nat" where
  "weight Idle = 1"
| "weight (Nudging ip) = 5"
| "weight (Nudged ip) = 4"
| "weight (Counted d ip) = 3"
| "weight (Sending d ip) = 2"
| "weight Returned = 0"

definition work_left :: "pool \<Rightarrow> nat" where
  "work_left st = 5 * length (sp_todo st) + (\<Sum>w \<in># sp_workers st. weight w) + (if sp_closed st then 0 else 1)"

fun is_work :: "pool_act \<Rightarrow> bool" where
  "is_work (Clock t) = False"
| "is_work _ = True"

lemma work_decreases:
  assumes "pool_enabled a st"
  shows "work_left (pool_perform tot a st) + (if is_work a then 1 else 0) \<le> work_left st"
  using assms
  by (cases a; cases "sp_todo st") (auto simp: work_left_def sp_workers_move Let_def dest!: multi_member_split)

lemma work_bounded:
  "run_actions pool_enabled (pool_perform tot) as st = Some st' \<Longrightarrow>
   length (filter is_work as) + work_left st' \<le> work_left st"
proof (induction as arbitrary: st)
  case (Cons a as)
  then have en: "pool_enabled a st" by (auto split: if_splits)
  with Cons have "length (filter is_work as) + work_left st' \<le> work_left (pool_perform tot a st)" by simp
  with work_decreases [OF en, of tot] show ?case by (auto split: if_splits)
qed simp

lemma work_init: "pool_init hosts now st \<Longrightarrow> work_left st = 5 * length hosts + 65"
  by (simp add: pool_init_def work_left_def scan_workers_def)

text \<open>
  No deadlock: while a worker has not returned, some step other than the clock's and the
  context's is possible. So every state can be completed, without cancelling.
\<close>

lemma worker_can_move:
  assumes "w \<in># sp_workers st" and "w \<noteq> Returned" and "w \<noteq> Idle"
  shows "\<exists>a. is_work a \<and> a \<noteq> Cancel \<and> pool_enabled a st"
proof (cases w)
  case (Nudging ip)
  with assms show ?thesis by (intro exI [of _ "Nudge ip"]) simp
next
  case (Nudged ip)
  with assms show ?thesis by (intro exI [of _ "Count ip"]) simp
next
  case (Counted d ip)
  with assms show ?thesis by (intro exI [of _ "Check d ip"]) simp
next
  case (Sending d ip)
  with assms show ?thesis by (intro exI [of _ "Send d ip"]) simp
qed (use assms in auto)

lemma pool_progress:
  assumes "phases_kept st" and "\<not> pool_finished st"
  shows "\<exists>a. is_work a \<and> a \<noteq> Cancel \<and> pool_enabled a st"
proof (cases "\<exists>w \<in># sp_workers st. w \<noteq> Returned \<and> w \<noteq> Idle")
  case True
  then show ?thesis using worker_can_move by blast
next
  case False
  have "sp_workers st \<noteq> {#}" using assms(1) by (auto simp: phases_kept_def scan_workers_def)
  then obtain w where "w \<in># sp_workers st" by blast
  with assms False have idle: "Idle \<in># sp_workers st"
    by (auto simp: pool_finished_def phases_kept_def)
  show ?thesis
  proof (cases "sp_closed st")
    case True
    with idle show ?thesis by (intro exI [of _ Return]) simp
  next
    case False
    with idle have "pool_enabled (if sp_todo st = [] then Close else Hand_over) st" by simp
    moreover have "is_work (if sp_todo st = [] then Close else Hand_over)" by simp
    moreover have "(if sp_todo st = [] then Close else Hand_over) \<noteq> Cancel" by simp
    ultimately show ?thesis by blast
  qed
qed

lemma not_cancelled_perform: "a \<noteq> Cancel \<Longrightarrow> sp_cancelled (pool_perform tot a st) = sp_cancelled st"
  by (cases a) (simp_all add: Let_def)

lemma pool_completes:
  assumes "phases_kept st"
  shows "\<exists>as st'. run_actions pool_enabled (pool_perform tot) as st = Some st' \<and> pool_finished st' \<and>
    sp_cancelled st' = sp_cancelled st"
  using assms
proof (induction "work_left st" arbitrary: st rule: less_induct)
  case less
  show ?case
  proof (cases "pool_finished st")
    case True
    then show ?thesis by (intro exI [of _ "[]"]) simp
  next
    case False
    then obtain a where a: "is_work a" "a \<noteq> Cancel" "pool_enabled a st"
      using pool_progress [OF less.prems] by blast
    let ?st = "pool_perform tot a st"
    have "work_left ?st < work_left st" using work_decreases [OF a(3), of tot] a(1) by simp
    from less.hyps [OF this phases_kept_perform [OF less.prems a(3)]]
    obtain as st' where "run_actions pool_enabled (pool_perform tot) as ?st = Some st'" "pool_finished st'"
      "sp_cancelled st' = sp_cancelled ?st" by blast
    with a show ?thesis by (intro exI [of _ "a # as"]) (auto simp: not_cancelled_perform)
  qed
qed

section \<open>What a finished pool has done\<close>

lemma finished_held:
  assumes "pool_finished st" and "f Returned = {#}"
  shows "held f (sp_workers st) = {#}"
  by (rule held_none) (use assms in \<open>auto simp: pool_finished_def\<close>)

lemma finished_calls:
  assumes "pool_inv hosts st" and "pool_finished st"
  shows "mset hosts = mset (sp_todo st) + mset (sp_nudged st)"
    and "mset (map snd (sp_calls st)) = mset (sp_nudged st)"
    and "mset (map fst (sp_calls st)) = mset_set {1..length (sp_nudged st)}"
    and "mset (sp_sent st) \<subseteq># mset (sp_calls st)"
    and "sp_cancelled st \<longleftrightarrow> sp_todo st \<noteq> []"
proof -
  note h = finished_held [OF assms(2)]
  show todo: "mset hosts = mset (sp_todo st) + mset (sp_nudged st)" and n: "mset (map snd (sp_calls st)) = mset (sp_nudged st)"
    using assms(1) by (simp_all add: pool_inv_def hosts_kept_def h)
  have c: "mset (map fst (sp_calls st)) = mset_set {1..sp_done st}"
    using assms(1) by (simp add: pool_inv_def counts_kept_def h)
  have "length (sp_nudged st) = length (sp_calls st)" using arg_cong [OF n, of size] by simp
  also have "\<dots> = sp_done st" using arg_cong [OF c, of size] by simp
  finally show "mset (map fst (sp_calls st)) = mset_set {1..length (sp_nudged st)}" using c by simp
  show "mset (sp_sent st) \<subseteq># mset (sp_calls st)" "sp_cancelled st \<longleftrightarrow> sp_todo st \<noteq> []"
    using assms by (auto simp: pool_inv_def frames_kept_def phases_kept_def h pool_finished_def)
qed

lemma progress_pct:
  assumes "0 < d" and "d \<le> tot"
  shows "sc_State (progress_event tot (d, ip)) = ''progress'' \<and> sc_Pct (progress_event tot (d, ip)) \<le> 100 \<and>
    (sc_Pct (progress_event tot (d, ip)) = 100 \<longleftrightarrow> d = tot)"
proof -
  have "d * 100 div tot \<le> 100" using assms by (metis div_le_mono div_mult_self1_is_m mult.commute mult_le_mono1 order_less_le_trans)
  moreover have "d * 100 div tot = 100 \<longleftrightarrow> d = tot"
  proof
    assume e: "d * 100 div tot = 100"
    have "tot * (d * 100 div tot) \<le> d * 100" by (rule times_div_less_eq_dividend)
    with e assms show "d = tot" by simp
  qed (use assms in simp)
  ultimately show ?thesis using assms by (simp add: progress_event_def)
qed

lemma finished_last_sent:
  assumes "pool_inv hosts st" and "pool_finished st"
  shows "length (filter (\<lambda>c. fst c = length hosts) (sp_sent st)) = (if sp_todo st = [] \<and> hosts \<noteq> [] then 1 else 0)"
proof -
  let ?n = "length hosts" and ?m = "length (sp_nudged st)"
  note f = finished_calls [OF assms]
  have eq: "length (filter (\<lambda>c. fst c = k) cs) = count (mset (map fst cs)) k" for k and cs :: "(nat \<times> string) list"
    by (induction cs) auto
  have "mset (map fst (sp_sent st)) \<subseteq># mset (map fst (sp_calls st))" using f(4) by (simp add: image_mset_subseteq_mono)
  then have le: "count (mset (map fst (sp_sent st))) ?n \<le> (if ?n \<in> {1..?m} then 1 else 0)"
    unfolding f(3) by (auto dest!: mset_subset_eq_count [of _ _ ?n] simp: count_mset_set')
  have n: "?n = length (sp_todo st) + ?m" using arg_cong [OF f(1), of size] by simp
  show ?thesis
  proof (cases "sp_todo st = [] \<and> hosts \<noteq> []")
    case True
    then have "?n \<in># mset (map fst (sp_calls st))" unfolding f(3) using n by (cases hosts) auto
    then obtain ip where "(?n, ip) \<in> set (sp_calls st)" by auto
    then have "(?n, ip) \<in> set (sp_sent st)"
      using assms by (auto simp: pool_inv_def frames_kept_def finished_held)
    then have "(?n, ip) \<in> set (filter (\<lambda>c. fst c = ?n) (sp_sent st))" by simp
    then have "0 < length (filter (\<lambda>c. fst c = ?n) (sp_sent st))" by (rule length_pos_if_in_set)
    moreover have "length (filter (\<lambda>c. fst c = ?n) (sp_sent st)) \<le> 1"
      unfolding eq by (rule order_trans [OF le]) simp
    ultimately have "length (filter (\<lambda>c. fst c = ?n) (sp_sent st)) = 1" by linarith
    with True show ?thesis by simp
  next
    case False
    then have "?n \<notin> {1..?m}" using n by auto
    with le False eq [of ?n "sp_sent st"] show ?thesis by auto
  qed
qed

lemma finished_pct:
  assumes "pool_inv hosts st" and "pool_finished st" and "(d, ip) \<in> set (sp_sent st)"
  shows "0 < d \<and> d \<le> length hosts"
proof -
  note f = finished_calls [OF assms(1,2)]
  have "(d, ip) \<in> set (sp_calls st)" using assms(3) mset_subset_eqD [OF f(4), of "(d, ip)"] by simp
  then have "d \<in># mset (map fst (sp_calls st))" by force
  then have "d \<in> {1..length (sp_nudged st)}" unfolding f(3) by simp
  moreover have "length (sp_nudged st) \<le> length hosts" using arg_cong [OF f(1), of size] by simp
  ultimately show ?thesis by auto
qed

lemma sweep_packets_mset: "mset xs = mset ys \<Longrightarrow> mset (sweep_packets dial xs) = mset (sweep_packets dial ys)"
  by (simp add: sweep_packets_def mset_concat flip: mset_map) (metis mset_map sum_mset_sum_list)

section \<open>Properties\<close>

text \<open>
  C26. Whatever the schedule of the 64 workers, a sweep does what its sequential description says.
  When the pool has ended, no host was nudged more often than the target lists it; each nudged
  host was reported once, under the counts 1, 2, ...; unless the sweep is the one that \<open>Sweep\<close>
  calls cancelled every host was nudged, and the datagrams are those of the hosts in order, up to
  their order.
\<close>

theorem sweep_every_schedule:
  assumes "pool_init hosts now st0"
    and "run_actions pool_enabled (pool_perform (length hosts)) as st0 = Some st" and "pool_finished st"
    and "ParseCIDR target = Some (ip, n)" and "enumerate_hosts n = Some hosts"
  shows "mset (sp_nudged st) \<subseteq># mset hosts \<and>
    mset (map snd (sp_calls st)) = mset (sp_nudged st) \<and>
    mset (map fst (sp_calls st)) = mset_set {1..length (sp_nudged st)} \<and>
    mset (sp_sent st) \<subseteq># mset (sp_calls st) \<and>
    (mset (sp_nudged st) = mset hosts \<longrightarrow> mset (sweep_packets dial (sp_nudged st)) = mset (sweep_packets dial hosts)) \<and>
    (Sweep target (sp_cancelled st) cache = Some Cancelled \<longleftrightarrow> mset (sp_nudged st) \<noteq> mset hosts)"
proof -
  have inv: "pool_inv hosts st" by (rule pool.run_inv [OF pool_inv_init [OF assms(1)] assms(2)])
  note f = finished_calls [OF inv assms(3)]
  have "Sweep target (sp_cancelled st) cache = Some Cancelled \<longleftrightarrow> sp_todo st \<noteq> []"
    using assms(4,5) f(1,5) by (auto simp: Sweep_def split: option.splits)
  with f sweep_packets_mset [of "sp_nudged st" hosts dial] show ?thesis by simp
qed

text \<open>
  C28. The progress a client is shown. In every schedule that ends, the feed is progress frames
  between 0 and 100 percent and then one closing frame, the only one of its kind; a sweep of at
  least one host that was not cancelled shows 100 percent in exactly one progress frame, however
  the workers race for the throttle, and a cancelled one in none.
\<close>

theorem scan_feed_form:
  assumes "pool_init hosts now st0"
    and "run_actions pool_enabled (pool_perform (length hosts)) as st0 = Some st" and "pool_finished st"
  shows "(\<forall>e \<in> set (butlast (scan_feed (length hosts) st err outcome)). sc_State e = ''progress'' \<and> sc_Pct e \<le> 100) \<and>
    last (scan_feed (length hosts) st err outcome) = closing_event err outcome \<and>
    sc_State (closing_event err outcome) \<noteq> ''progress'' \<and>
    length (filter (\<lambda>e. sc_Pct e = 100) (scan_feed (length hosts) st err outcome)) =
      (if sp_cancelled st \<or> hosts = [] then 1 else 2)"
proof -
  let ?n = "length hosts"
  have inv: "pool_inv hosts st" by (rule pool.run_inv [OF pool_inv_init [OF assms(1)] assms(2)])
  have pct: "sc_State (progress_event ?n c) = ''progress'' \<and> sc_Pct (progress_event ?n c) \<le> 100 \<and>
      (sc_Pct (progress_event ?n c) = 100 \<longleftrightarrow> fst c = ?n)" if "c \<in> set (sp_sent st)" for c
  proof (cases c)
    case (Pair d ip)
    with that finished_pct [OF inv assms(3), of d ip] progress_pct [of d ?n ip] show ?thesis by simp
  qed
  have "filter (\<lambda>e. sc_Pct e = 100) (map (progress_event ?n) (sp_sent st)) =
      map (progress_event ?n) (filter (\<lambda>c. fst c = ?n) (sp_sent st))"
    unfolding filter_map comp_def by (rule arg_cong [where f = "map _"], rule filter_cong) (auto simp: pct)
  moreover have "sc_Pct (closing_event err outcome) = 100" "sc_State (closing_event err outcome) \<noteq> ''progress''"
    by (simp_all add: closing_event_def split: scan_outcome.split)
  ultimately show ?thesis
    using pct finished_last_sent [OF inv assms(3)] finished_calls(5) [OF inv assms(3)]
    by (simp add: scan_feed_def)
qed

text \<open>
  C29. The pool ends. No schedule takes more than five steps for each host and 65 for the pool, the
  clock aside; and from every state it can reach the workers can be led to their end without the
  context being cancelled.
\<close>

theorem sweep_workers_end:
  assumes "pool_init hosts now st0"
    and "run_actions pool_enabled (pool_perform (length hosts)) as st0 = Some st"
  shows "length (filter is_work as) \<le> 5 * length hosts + 65 \<and>
    (\<exists>bs st'. run_actions pool_enabled (pool_perform (length hosts)) bs st = Some st' \<and> pool_finished st' \<and>
       sp_cancelled st' = sp_cancelled st)"
proof
  show "length (filter is_work as) \<le> 5 * length hosts + 65"
    using work_bounded [OF assms(2)] work_init [OF assms(1)] by simp
  have "pool_inv hosts st" by (rule pool.run_inv [OF pool_inv_init [OF assms(1)] assms(2)])
  then have "phases_kept st" by (simp add: pool_inv_def)
  then show "\<exists>bs st'. run_actions pool_enabled (pool_perform (length hosts)) bs st = Some st' \<and> pool_finished st' \<and>
       sp_cancelled st' = sp_cancelled st" by (rule pool_completes)
qed

section \<open>A concrete schedule\<close>

text \<open>
  Two hosts. The worker that counted first passes the throttle first and is overtaken before it
  broadcasts: the frame of 100 percent goes out before the one of 50, at the same instant.
\<close>

definition demo_pool :: pool where
  "demo_pool = \<lparr>sp_todo = [''10.0.0.1'', ''10.0.0.2''], sp_workers = replicate_mset scan_workers Idle, sp_closed = False,
     sp_cancelled = False, sp_done = 0, sp_nudged = [], sp_calls = [], sp_now = 0, sp_last = 0, sp_sent = []\<rparr>"

definition demo_schedule :: "pool_act list" where
  "demo_schedule = [Hand_over, Hand_over, Nudge ''10.0.0.1'', Nudge ''10.0.0.2'', Count ''10.0.0.1'', Count ''10.0.0.2'', Clock frame_gap,
     Check 1 ''10.0.0.1'', Check 2 ''10.0.0.2'', Send 2 ''10.0.0.2'', Send 1 ''10.0.0.1'', Close]"

lemma demo_init: "pool_init [''10.0.0.1'', ''10.0.0.2''] 0 demo_pool"
  by (simp add: pool_init_def demo_pool_def)

definition demo_raced :: pool where
  "demo_raced = \<lparr>sp_todo = [], sp_workers = replicate_mset scan_workers Idle, sp_closed = True, sp_cancelled = False,
     sp_done = 2, sp_nudged = [''10.0.0.1'', ''10.0.0.2''], sp_calls = [(1, ''10.0.0.1''), (2, ''10.0.0.2'')], sp_now = frame_gap,
     sp_last = frame_gap, sp_sent = [(2, ''10.0.0.2''), (1, ''10.0.0.1'')]\<rparr>"

lemma demo_race: "run_actions pool_enabled (pool_perform 2) demo_schedule demo_pool = Some demo_raced"
proof -
  have w: "replicate_mset scan_workers Idle = add_mset Idle (add_mset Idle (replicate_mset 62 Idle))"
    by (simp add: scan_workers_def eval_nat_numeral)
  show ?thesis
    unfolding demo_schedule_def demo_pool_def demo_raced_def w
    by (simp add: move_def Let_def throttled_def frame_gap_def add_mset_commute numeral_2_eq_2)
qed

lemma demo_race_witness: "sp_sent demo_raced = [(2, ''10.0.0.2''), (1, ''10.0.0.1'')] \<and>
    map sc_Pct (scan_feed 2 demo_raced [] (Scan_done [])) = [100, 50, 100]"
  by (simp add: demo_raced_def scan_feed_def progress_event_def closing_event_def)

text \<open>The workers return one by one.\<close>

lemma workers_return:
  "sp_closed st \<Longrightarrow> sp_workers st = replicate_mset n Idle + replicate_mset m Returned \<Longrightarrow>
   run_actions pool_enabled (pool_perform tot) (replicate n Return) st =
     Some (st\<lparr>sp_workers := replicate_mset (n + m) Returned\<rparr>)"
proof (induction n arbitrary: st m)
  case (Suc n)
  have "run_actions pool_enabled (pool_perform tot) (replicate n Return) (move Idle Returned st) =
      Some (move Idle Returned st\<lparr>sp_workers := replicate_mset (n + Suc m) Returned\<rparr>)"
    by (rule Suc.IH) (use Suc.prems in \<open>simp_all add: move_def\<close>)
  with Suc.prems show ?case by (simp add: move_def)
qed simp

definition demo_swept :: pool where
  "demo_swept = demo_raced\<lparr>sp_workers := replicate_mset scan_workers Returned\<rparr>"

lemma demo_sweep: "run_actions pool_enabled (pool_perform (length [''10.0.0.1'', ''10.0.0.2''])) (demo_schedule @ replicate scan_workers Return) demo_pool = Some demo_swept"
proof -
  have "run_actions pool_enabled (pool_perform 2) (replicate scan_workers Return) demo_raced = Some demo_swept"
    using workers_return [of demo_raced scan_workers 0 2] by (simp add: demo_swept_def demo_raced_def)
  with demo_race show ?thesis by (simp add: run_actions_append numeral_2_eq_2)
qed

lemma demo_finished: "pool_finished demo_swept"
  by (simp add: pool_finished_def demo_swept_def demo_raced_def in_replicate_mset)

lemma scan_feed_form_witness:
  "length (filter (\<lambda>e. sc_Pct e = 100) (scan_feed (length [''10.0.0.1'', ''10.0.0.2'']) demo_swept [] (Scan_done []))) = 2"
  using scan_feed_form [OF demo_init demo_sweep demo_finished, of "[]" "Scan_done []"]
  by (simp add: demo_swept_def demo_raced_def)

lemma sweep_workers_end_witness:
  "length (filter is_work (demo_schedule @ replicate scan_workers Return)) \<le> 75"
  using sweep_workers_end [OF demo_init demo_sweep] by simp

text \<open>The two hosts of a network of four addresses.\<close>

lemma demo_target: "ParseCIDR ''10.0.0.3/30'' = Some (v4InV6Prefix @ [10, 0, 0, 3], \<lparr>n_IP = [10, 0, 0, 0], n_Mask = [255, 255, 255, 252]\<rparr>)"
  by code_simp

lemma demo_hosts: "enumerate_hosts \<lparr>n_IP = [10, 0, 0, 0], n_Mask = [255, 255, 255, 252]\<rparr> = Some [''10.0.0.1'', ''10.0.0.2'']"
  by code_simp

lemma sweep_every_schedule_witness:
  "Sweep ''10.0.0.3/30'' (sp_cancelled demo_swept) None \<noteq> Some Cancelled"
  using sweep_every_schedule [OF demo_init demo_sweep demo_finished demo_target demo_hosts, of "\<lambda>_. True" None]
  by (simp add: demo_swept_def demo_raced_def)

end
