(* ===== verification/JsonStrings.thy ===== *)
theory JsonStrings
  imports Runes GoNetProps
begin

text \<open>
  The strings of \<^verbatim>\<open>encoding/json\<close>: what \<^verbatim>\<open>json.Marshal\<close> writes between the quotes (control
  characters, quotes, HTML characters, the two line separators of Unicode and bytes that are no
  UTF-8 are escaped) and what a reader makes of it. Strings are bytes on both sides.
\<close>

section \<open>Runes of a string, the malformed bytes marked\<close>

function rune_list :: "string \<Rightarrow> string option list" where
  "rune_list s = (if s = [] then [] else case rune_at s of
       Some r \<Rightarrow> Some r # rune_list (drop (length r) s)
     | None \<Rightarrow> None # rune_list (tl s))"
  by auto
termination
  by (relation "measure length") (auto dest: rune_at_length)

declare rune_list.simps [simp del]

lemma rune_list_Nil [simp]: "rune_list [] = []"
  by (simp add: rune_list.simps)

definition rune_bytes :: "string option \<Rightarrow> string" where
  "rune_bytes r = (case r of None \<Rightarrow> rune_error | Some r \<Rightarrow> r)"

lemma runes_rune_list: "runes s = map rune_bytes (rune_list s)"
proof (induction s rule: runes.induct)
  case (1 s)
  then show ?case
    by (subst runes.simps, subst rune_list.simps) (auto simp: rune_bytes_def split: option.splits)
qed

text \<open>What is left of a string on the wire: malformed bytes become U+FFFD.\<close>

definition clean :: "string \<Rightarrow> string" where
  "clean s = concat (runes s)"

definition utf8 :: "string \<Rightarrow> bool" where
  "utf8 s \<longleftrightarrow> None \<notin> set (rune_list s)"

lemma rune_list_ok: "Some r \<in> set (rune_list s) \<Longrightarrow> rune_ok r"
proof (induction s rule: rune_list.induct)
  case (1 s)
  show ?case
  proof (cases "s = []")
    case False
    then show ?thesis using 1
      by (subst (asm) rune_list.simps) (auto simp: rune_at_def split: option.splits if_splits)
  qed (use 1 in simp)
qed

lemma utf8_clean: "utf8 s \<Longrightarrow> clean s = s"
proof (induction s rule: rune_list.induct)
  case (1 s)
  show ?case
  proof (cases "s = []")
    case False
    with 1 show ?thesis
      unfolding utf8_def clean_def runes_rune_list
      by (subst (asm) (3) rune_list.simps, subst rune_list.simps)
        (auto simp: rune_bytes_def split: option.splits dest!: rune_at_length, metis append_take_drop_id)
  qed (simp add: clean_def)
qed

lemma rune_list_Cons: "rune_ok r \<Longrightarrow> rune_list (r @ t) = Some r # rune_list t"
  using rune_at_ok [of r t] by (subst rune_list.simps) (auto simp: rune_ok_def)

lemma clean_utf8: "utf8 (clean s)"
proof -
  have "rune_list (concat rs) = map Some rs" if "\<forall>r \<in> set rs. rune_ok r" for rs
    using that by (induction rs) (simp_all add: rune_list_Cons)
  with runes_ok [of _ s] show ?thesis by (auto simp: utf8_def clean_def)
qed

section \<open>Escaping\<close>

definition hex4 :: "nat \<Rightarrow> string" where
  "hex4 n = [hex_lower (n div 4096 mod 16), hex_lower (n div 256 mod 16), hex_lower (n div 16 mod 16), hex_lower (n mod 16)]"

definition u_escape :: "nat \<Rightarrow> string" where
  "u_escape n = CHR 0x5C # CHR ''u'' # hex4 n"

text \<open>The letter of a two-character escape.\<close>

definition short_escape :: "char \<Rightarrow> char option" where
  "short_escape c =
     (if c = CHR 0x22 \<or> c = CHR 0x5C then Some c
      else if c = CHR 0x08 then Some (CHR ''b'')
      else if c = CHR 0x0C then Some (CHR ''f'')
      else if c = CHR 0x0A then Some (CHR ''n'')
      else if c = CHR 0x0D then Some (CHR ''r'')
      else if c = CHR 0x09 then Some (CHR ''t'') else None)"

definition esc_byte :: "char \<Rightarrow> string" where
  "esc_byte c =
     (case short_escape c of Some x \<Rightarrow> [CHR 0x5C, x]
      | None \<Rightarrow> if (of_char c :: nat) < 0x20 \<or> c = CHR ''<'' \<or> c = CHR ''>'' \<or> c = CHR ''&'' then u_escape (of_char c)
          else [c])"

definition line_sep :: string where
  "line_sep = [CHR 0xE2, CHR 0x80, CHR 0xA8]"

definition par_sep :: string where
  "par_sep = [CHR 0xE2, CHR 0x80, CHR 0xA9]"

definition esc_rune :: "string option \<Rightarrow> string" where
  "esc_rune r = (case r of None \<Rightarrow> u_escape 0xFFFD
     | Some r \<Rightarrow> if length r = 1 then esc_byte (hd r)
         else if r = line_sep then u_escape 0x2028 else if r = par_sep then u_escape 0x2029 else r)"

definition escape :: "string \<Rightarrow> string" where
  "escape s = concat (map esc_rune (rune_list s))"

definition quote :: "string \<Rightarrow> string" where
  "quote s = CHR 0x22 # escape s @ [CHR 0x22]"

section \<open>Reading\<close>

text \<open>UTF-8 of a code point; a surrogate half is no code point and becomes U+FFFD.\<close>

definition encode_rune :: "nat \<Rightarrow> string" where
  "encode_rune n =
     (if n < 0x80 then [char_of n]
      else if n < 0x800 then [char_of (0xC0 + n div 64), char_of (0x80 + n mod 64)]
      else if 0xD800 \<le> n \<and> n < 0xE000 \<or> n > 0x10FFFF then rune_error
      else if n < 0x10000 then [char_of (0xE0 + n div 4096), char_of (0x80 + n div 64 mod 64), char_of (0x80 + n mod 64)]
      else [char_of (0xF0 + n div 262144), char_of (0x80 + n div 4096 mod 64), char_of (0x80 + n div 64 mod 64),
            char_of (0x80 + n mod 64)])"

fun get_u4 :: "string \<Rightarrow> (nat \<times> string) option" where
  "get_u4 (a # b # c # d # s) =
     (case (hex_val a, hex_val b, hex_val c, hex_val d) of
        (Some w, Some x, Some y, Some z) \<Rightarrow> Some (4096 * w + 256 * x + 16 * y + z, s)
      | _ \<Rightarrow> None)"
| "get_u4 _ = None"

text \<open>The second half of a surrogate pair, \<open>None\<close> when what follows is none.\<close>

fun low_surrogate :: "nat \<Rightarrow> string \<Rightarrow> (nat \<times> string) option" where
  "low_surrogate hi (b # u # s) =
     (if b = CHR 0x5C \<and> u = CHR ''u'' \<and> 0xD800 \<le> hi \<and> hi < 0xDC00 then
        (case get_u4 s of None \<Rightarrow> None
         | Some (lo, r) \<Rightarrow> if 0xDC00 \<le> lo \<and> lo < 0xE000
             then Some (0x10000 + (hi - 0xD800) * 1024 + (lo - 0xDC00), r) else None)
      else None)"
| "low_surrogate hi _ = None"

text \<open>What follows a backslash: the bytes it stands for, and the rest.\<close>

fun read_escape :: "string \<Rightarrow> (string \<times> string) option" where
  "read_escape [] = None"
| "read_escape (c # s) =
     (if c = CHR 0x22 \<or> c = CHR 0x5C \<or> c = CHR ''/'' then Some ([c], s)
      else if c = CHR ''b'' then Some ([CHR 0x08], s)
      else if c = CHR ''f'' then Some ([CHR 0x0C], s)
      else if c = CHR ''n'' then Some ([CHR 0x0A], s)
      else if c = CHR ''r'' then Some ([CHR 0x0D], s)
      else if c = CHR ''t'' then Some ([CHR 0x09], s)
      else if c = CHR ''u'' then
        (case get_u4 s of None \<Rightarrow> None
         | Some (n, r) \<Rightarrow> (case low_surrogate n r of
               Some (m, r') \<Rightarrow> Some (encode_rune m, r')
             | None \<Rightarrow> Some (encode_rune n, r)))
      else None)"

text \<open>One character of a string; the end of the input and a raw control character are errors.\<close>

definition read_char :: "string \<Rightarrow> (string \<times> string) option" where
  "read_char s =
     (if s = [] \<or> (of_char (hd s) :: nat) < 0x20 then None
      else if hd s = CHR 0x5C then read_escape (tl s)
      else (case rune_at s of Some r \<Rightarrow> Some (r, drop (length r) s) | None \<Rightarrow> Some (rune_error, tl s)))"

lemma get_u4_length: "get_u4 s = Some (n, r) \<Longrightarrow> length r < length s"
  by (cases s rule: get_u4.cases) (auto split: option.splits)

lemma low_surrogate_length: "low_surrogate n s = Some (m, r) \<Longrightarrow> length r < length s"
  by (induction n s rule: low_surrogate.induct) (auto dest: get_u4_length split: if_splits option.splits)

lemma read_escape_length: "read_escape s = Some (c, r) \<Longrightarrow> length r < length s"
  by (cases s) (fastforce split: if_splits option.splits dest: get_u4_length low_surrogate_length)+

lemma read_char_length: "read_char s = Some (c, r) \<Longrightarrow> length r < length s"
  by (cases s) (auto simp: read_char_def split: if_splits option.splits dest: read_escape_length rune_at_length)

text \<open>The bytes up to the closing quote, decoded.\<close>

function read_string :: "string \<Rightarrow> (string \<times> string) option" where
  "read_string s =
     (if s \<noteq> [] \<and> hd s = CHR 0x22 then Some ([], tl s)
      else (case read_char s of None \<Rightarrow> None
            | Some (c, r) \<Rightarrow> map_option (\<lambda>(t, u). (c @ t, u)) (read_string r)))"
  by auto
termination
  by (relation "measure length") (auto dest: read_char_length)

declare read_string.simps [simp del]

lemma read_string_length: "read_string s = Some (t, r) \<Longrightarrow> length r < length s"
proof (induction s arbitrary: t r rule: read_string.induct)
  case (1 s)
  show ?case
  proof (cases "s \<noteq> [] \<and> hd s = CHR 0x22")
    case True
    with "1.prems" show ?thesis by (subst (asm) read_string.simps) (cases s, auto)
  next
    case False
    with "1.prems" obtain c u t' where c: "read_char s = Some (c, u)" "read_string u = Some (t', r)"
      by (subst (asm) read_string.simps) (auto split: option.splits)
    from "1.IH" [OF False c(1) refl c(2)] read_char_length [OF c(1)] show ?thesis by simp
  qed
qed

section \<open>Reading back what was written\<close>

lemma get_u4_hex4:
  assumes "n < 65536"
  shows "get_u4 (hex4 n @ t) = Some (n, t)"
proof -
  define a b c where "a = n div 16" and "b = a div 16" and "c = b div 16"
  have d: "n div 256 = b" "n div 4096 = c" by (simp_all add: a_def b_def c_def flip: div_mult2_eq)
  have "c < 16" unfolding d(2) [symmetric] using assms by (simp add: less_mult_imp_div_less)
  then have "4096 * c + 256 * (b mod 16) + 16 * (a mod 16) + n mod 16 = n"
    using div_mult_mod_eq [of n 16] div_mult_mod_eq [of a 16] div_mult_mod_eq [of b 16]
    by (simp add: a_def [symmetric] b_def [symmetric] c_def [symmetric])
  with \<open>c < 16\<close> show ?thesis by (simp add: hex4_def d a_def [symmetric])
qed

lemma not_high_surrogate: "\<not> (0xD800 \<le> n \<and> n < 0xDC00) \<Longrightarrow> low_surrogate n t = None"
  by (induction n t rule: low_surrogate.induct) auto

lemma read_escape_u:
  assumes "n < 65536" and "\<not> (0xD800 \<le> n \<and> n < 0xDC00)"
  shows "read_escape (CHR ''u'' # hex4 n @ t) = Some (encode_rune n, t)"
  unfolding read_escape.simps get_u4_hex4 [OF assms(1)] option.case prod.case not_high_surrogate [OF assms(2)] by simp

lemma read_char_backslash: "read_char (CHR 0x5C # t) = read_escape t"
  by (simp add: read_char_def)

lemma read_char_u:
  assumes "n < 65536" and "\<not> (0xD800 \<le> n \<and> n < 0xDC00)"
  shows "read_char (u_escape n @ t) = Some (encode_rune n, t)"
  unfolding u_escape_def append_Cons read_char_backslash by (rule read_escape_u [OF assms])

lemma encode_rune_special:
  "encode_rune 0xFFFD = rune_error" "encode_rune 0x2028 = line_sep" "encode_rune 0x2029 = par_sep"
  by (simp_all add: encode_rune_def rune_error_def line_sep_def par_sep_def)
    (simp_all only: char_eq_nat of_char_of, simp_all)

lemma rune_ok_1: "rune_ok [c] \<longleftrightarrow> (of_char c :: nat) < 0x80"
  by (auto simp: rune_ok_def lead_width_def split: if_splits)

lemma rune_ok_high: "rune_ok r \<Longrightarrow> length r \<noteq> 1 \<Longrightarrow> r \<noteq> [] \<and> (of_char (hd r) :: nat) \<ge> 0xC2"
  by (auto simp: rune_ok_def lead_width_def split: if_splits)

lemma read_char_raw:
  assumes "rune_ok r" and "(of_char (hd r) :: nat) \<ge> 0x20" and "hd r \<noteq> CHR 0x5C"
  shows "read_char (r @ t) = Some (r, t)"
proof -
  have "r \<noteq> []" using assms(1) by (auto simp: rune_ok_def)
  with assms rune_at_ok [OF assms(1), of t] show ?thesis by (simp add: read_char_def)
qed

lemma read_short_escape: "short_escape c = Some x \<Longrightarrow> read_escape (x # t) = Some ([c], t)"
  by (auto simp: short_escape_def split: if_splits)

lemma short_escape_special: "short_escape (CHR 0x22) \<noteq> None" "short_escape (CHR 0x5C) \<noteq> None"
  by (simp_all add: short_escape_def)

lemma read_char_esc_byte:
  assumes "(of_char c :: nat) < 0x80"
  shows "read_char (esc_byte c @ t) = Some ([c], t)"
proof (cases "short_escape c")
  case (Some x)
  then show ?thesis unfolding esc_byte_def by (simp add: read_char_backslash read_short_escape del: read_escape.simps)
next
  case None
  then have c: "c \<noteq> CHR 0x5C" using short_escape_special by metis
  show ?thesis
  proof (cases "(of_char c :: nat) < 0x20 \<or> c = CHR ''<'' \<or> c = CHR ''>'' \<or> c = CHR ''&''")
    case True
    have "read_char (u_escape (of_char c) @ t) = Some (encode_rune (of_char c), t)"
      by (rule read_char_u) (use assms in simp_all)
    moreover have "encode_rune (of_char c) = [c]" using assms by (simp add: encode_rune_def)
    ultimately show ?thesis unfolding esc_byte_def None option.case using True by (simp only: if_True)
  next
    case False
    have "read_char ([c] @ t) = Some ([c], t)"
      by (rule read_char_raw) (use assms False c in \<open>simp_all add: rune_ok_1\<close>)
    then show ?thesis unfolding esc_byte_def None option.case using False by (simp only: if_False)
  qed
qed

lemma read_char_esc_rune:
  assumes "\<And>x. r = Some x \<Longrightarrow> rune_ok x"
  shows "read_char (esc_rune r @ t) = Some (rune_bytes r, t)"
proof (cases r)
  case None
  have "read_char (u_escape 0xFFFD @ t) = Some (rune_error, t)"
    unfolding encode_rune_special [symmetric] by (rule read_char_u) simp_all
  then show ?thesis unfolding None esc_rune_def rune_bytes_def option.case .
next
  case (Some x)
  then have x: "rune_ok x" using assms by simp
  have sep: "read_char (u_escape 0x2028 @ t) = Some (line_sep, t)" "read_char (u_escape 0x2029 @ t) = Some (par_sep, t)"
    unfolding encode_rune_special [symmetric] by (rule read_char_u; simp)+
  show ?thesis
  proof (cases "length x = 1")
    case True
    then obtain c where "x = [c]" by (cases x) auto
    with Some x show ?thesis by (simp add: esc_rune_def rune_bytes_def read_char_esc_byte rune_ok_1)
  next
    case False
    with rune_ok_high [OF x] have "\<not> (of_char (hd x) :: nat) < 0x80" by simp
    then have "(of_char (hd x) :: nat) \<ge> 0x20" "hd x \<noteq> CHR 0x5C" by auto
    then have raw: "read_char (x @ t) = Some (x, t)" using x by (intro read_char_raw)
    show ?thesis unfolding Some esc_rune_def rune_bytes_def option.case using False raw sep by simp
  qed
qed

lemma esc_rune_hd:
  assumes "\<And>x. r = Some x \<Longrightarrow> rune_ok x"
  shows "esc_rune r \<noteq> [] \<and> hd (esc_rune r) \<noteq> CHR 0x22"
proof (cases r)
  case None
  then show ?thesis by (simp add: esc_rune_def u_escape_def)
next
  case (Some x)
  then have x: "rune_ok x" using assms by simp
  have "esc_byte c \<noteq> [] \<and> hd (esc_byte c) \<noteq> CHR 0x22" for c
    using short_escape_special(1) by (cases "c = CHR 0x22") (auto simp: esc_byte_def u_escape_def split: option.split)
  moreover have "x \<noteq> [] \<and> hd x \<noteq> CHR 0x22" if "length x \<noteq> 1" using rune_ok_high [OF x that] by auto
  ultimately show ?thesis using Some by (simp add: esc_rune_def u_escape_def)
qed

lemma read_string_escape: "read_string (escape s @ CHR 0x22 # t) = Some (clean s, t)"
proof -
  have "read_string (concat (map esc_rune rs) @ CHR 0x22 # t) = Some (concat (map rune_bytes rs), t)"
    if "\<And>x. Some x \<in> set rs \<Longrightarrow> rune_ok x" for rs
    using that
  proof (induction rs)
    case Nil
    then show ?case by (subst read_string.simps) simp
  next
    case (Cons r rs)
    let ?u = "concat (map esc_rune rs) @ CHR 0x22 # t"
    have ok: "\<And>x. r = Some x \<Longrightarrow> rune_ok x" using Cons.prems by simp
    have IH: "read_string ?u = Some (concat (map rune_bytes rs), t)" using Cons by simp
    have "read_string (esc_rune r @ ?u) = Some (rune_bytes r @ concat (map rune_bytes rs), t)"
      using read_char_esc_rune [OF ok, where t = ?u] esc_rune_hd [OF ok] IH
      by (subst read_string.simps) simp
    then show ?case by simp
  qed
  then show ?thesis unfolding escape_def clean_def runes_rune_list by (blast dest: rune_list_ok)
qed

text \<open>An escaped string is printable: no line break can end up in a frame.\<close>

definition printable :: "string \<Rightarrow> bool" where
  "printable s \<longleftrightarrow> (\<forall>c \<in> set s. (of_char c :: nat) \<ge> 0x20)"

lemma printable_simps [simp]:
  "printable []" "printable (c # s) \<longleftrightarrow> (of_char c :: nat) \<ge> 0x20 \<and> printable s"
  "printable (s @ t) \<longleftrightarrow> printable s \<and> printable t"
  by (auto simp: printable_def)

lemma printable_u_escape: "printable (u_escape n)"
  by (simp add: u_escape_def hex4_def of_char_hex_lower)

lemma printable_short: "short_escape c = Some x \<Longrightarrow> (of_char x :: nat) \<ge> 0x20"
  by (auto simp: short_escape_def split: if_splits)

lemma printable_esc_byte: "printable (esc_byte c)"
  by (auto simp: esc_byte_def printable_u_escape printable_short split: option.split)

lemma printable_rune:
  assumes "rune_ok x" and "length x \<noteq> 1"
  shows "printable x"
proof (cases x)
  case (Cons c cs)
  have "(of_char z :: nat) \<ge> 0x80" if "z \<in> set cs" for z
    using assms that Cons by (cases cs) (auto simp: rune_ok_def byte_in_def list_all_iff second_range_def split: if_splits)
  with rune_ok_high [OF assms] Cons show ?thesis by (fastforce simp: printable_def)
qed simp

lemma printable_esc_rune: "(\<And>x. r = Some x \<Longrightarrow> rune_ok x) \<Longrightarrow> printable (esc_rune r)"
  by (auto simp: esc_rune_def printable_u_escape printable_esc_byte printable_rune split: option.split)

lemma printable_quote: "printable (quote s)"
proof -
  have "printable (concat (map esc_rune rs))" if "\<And>x. Some x \<in> set rs \<Longrightarrow> rune_ok x" for rs
    using that by (induction rs) (simp_all add: printable_esc_rune)
  then show ?thesis by (auto simp: quote_def escape_def dest: rune_list_ok)
qed

end
