(* ===== verification/Json.thy ===== *)
theory Json
  imports JsonStrings "HOL-Library.Monad_Syntax"
begin

text \<open>
  JSON values, the compact form \<^verbatim>\<open>json.Marshal\<close> writes and a reader with the grammar of
  \<^verbatim>\<open>encoding/json\<close>'s scanner, nesting limit included. A number is its text. The reader carries
  fuel, which a lemma shows never to run out when it exceeds the length of the input.
\<close>

datatype json =
    JNull
  | JBool bool
  | JNum string
  | JStr string
  | JArr "json list"
  | JObj "(string \<times> json) list"

section \<open>Writing\<close>

text \<open>\<open>elems\<close> and \<open>members\<close> write the rest of an array or object, with its closing bracket.\<close>

function marshal :: "json \<Rightarrow> string" and elems :: "json list \<Rightarrow> string" and members :: "(string \<times> json) list \<Rightarrow> string" where
  "marshal JNull = ''null''"
| "marshal (JBool b) = (if b then ''true'' else ''false'')"
| "marshal (JNum t) = t"
| "marshal (JStr s) = quote s"
| "marshal (JArr vs) = CHR ''['' # elems vs"
| "marshal (JObj fs) = CHR ''{'' # members fs"
| "elems [] = '']''"
| "elems [v] = marshal v @ '']''"
| "elems (v # w # vs) = marshal v @ CHR '','' # elems (w # vs)"
| "members [] = ''}''"
| "members [(k, v)] = quote k @ CHR '':'' # marshal v @ ''}''"
| "members ((k, v) # f # fs) = quote k @ CHR '':'' # marshal v @ CHR '','' # members (f # fs)"
  by pat_completeness auto
termination
  by (relation "measure (case_sum size (case_sum (size_list size) (size_list (size_prod (\<lambda>_. 0) size))))") auto

section \<open>Reading\<close>

definition is_ws :: "char \<Rightarrow> bool" where
  "is_ws c \<longleftrightarrow> c = CHR '' '' \<or> c = CHR 0x09 \<or> c = CHR 0x0A \<or> c = CHR 0x0D"

text \<open>The next character after white space, if it is \<open>c\<close>.\<close>

definition expect :: "char \<Rightarrow> string \<Rightarrow> string option" where
  "expect c s = (case dropWhile is_ws s of [] \<Rightarrow> None | x # r \<Rightarrow> if x = c then Some r else None)"

definition is_dec :: "char \<Rightarrow> bool" where
  "is_dec c \<longleftrightarrow> dec_val c \<noteq> None"

definition read_digits :: "string \<Rightarrow> (string \<times> string) option" where
  "read_digits s = (if takeWhile is_dec s = [] then None else Some (takeWhile is_dec s, dropWhile is_dec s))"

definition read_int :: "string \<Rightarrow> (string \<times> string) option" where
  "read_int s = (if s \<noteq> [] \<and> hd s = CHR ''0'' then Some (''0'', tl s) else read_digits s)"

definition read_frac :: "string \<Rightarrow> (string \<times> string) option" where
  "read_frac s = (if s \<noteq> [] \<and> hd s = CHR ''.'' then map_option (\<lambda>(d, r). (CHR ''.'' # d, r)) (read_digits (tl s))
     else Some ([], s))"

definition read_exp :: "string \<Rightarrow> (string \<times> string) option" where
  "read_exp s =
     (if s \<noteq> [] \<and> (hd s = CHR ''e'' \<or> hd s = CHR ''E'') then
        (if tl s \<noteq> [] \<and> (hd (tl s) = CHR ''+'' \<or> hd (tl s) = CHR ''-'')
         then map_option (\<lambda>(d, r). (hd s # hd (tl s) # d, r)) (read_digits (tl (tl s)))
         else map_option (\<lambda>(d, r). (hd s # d, r)) (read_digits (tl s)))
      else Some ([], s))"

definition read_number :: "string \<Rightarrow> (string \<times> string) option" where
  "read_number s =
     (let neg = (s \<noteq> [] \<and> hd s = CHR ''-'') in do {
        (i, s1) \<leftarrow> read_int (if neg then tl s else s);
        (f, s2) \<leftarrow> read_frac s1;
        (e, s3) \<leftarrow> read_exp s2;
        Some ((if neg then ''-'' else []) @ i @ f @ e, s3)
      })"

definition read_word :: "string \<Rightarrow> json \<Rightarrow> string \<Rightarrow> (json \<times> string) option" where
  "read_word w v s = (if has_prefix s w then Some (v, drop (length w) s) else None)"

definition read_scalar :: "string \<Rightarrow> (json \<times> string) option" where
  "read_scalar s =
     (case s of [] \<Rightarrow> None
      | c # r \<Rightarrow>
          if c = CHR 0x22 then map_option (\<lambda>(t, u). (JStr t, u)) (read_string r)
          else if c = CHR ''n'' then read_word ''null'' JNull s
          else if c = CHR ''t'' then read_word ''true'' (JBool True) s
          else if c = CHR ''f'' then read_word ''false'' (JBool False) s
          else map_option (\<lambda>(t, u). (JNum t, u)) (read_number s))"

text \<open>A value, the elements of a non-empty array and the members of a non-empty object; \<open>lim\<close> is
  how many more brackets may open.\<close>

function p_val :: "nat \<Rightarrow> nat \<Rightarrow> string \<Rightarrow> (json \<times> string) option"
  and p_elems :: "nat \<Rightarrow> nat \<Rightarrow> string \<Rightarrow> (json list \<times> string) option"
  and p_members :: "nat \<Rightarrow> nat \<Rightarrow> string \<Rightarrow> ((string \<times> json) list \<times> string) option" where
  "p_val 0 lim s = None"
| "p_val (Suc n) lim s =
     (case expect (CHR ''['') s of
        Some r \<Rightarrow>
          if lim = 0 then None
          else (case expect (CHR '']'') r of Some u \<Rightarrow> Some (JArr [], u)
                | None \<Rightarrow> map_option (\<lambda>(vs, u). (JArr vs, u)) (p_elems n (lim - 1) r))
      | None \<Rightarrow>
          (case expect (CHR ''{'') s of
             Some r \<Rightarrow>
               if lim = 0 then None
               else (case expect (CHR ''}'') r of Some u \<Rightarrow> Some (JObj [], u)
                     | None \<Rightarrow> map_option (\<lambda>(fs, u). (JObj fs, u)) (p_members n (lim - 1) r))
           | None \<Rightarrow> read_scalar (dropWhile is_ws s)))"
| "p_elems 0 lim s = None"
| "p_elems (Suc n) lim s =
     (case p_val (Suc n) lim s of
        None \<Rightarrow> None
      | Some (v, r) \<Rightarrow>
          (case expect (CHR '','') r of
             Some u \<Rightarrow> map_option (\<lambda>(vs, w). (v # vs, w)) (p_elems n lim u)
           | None \<Rightarrow> map_option (\<lambda>u. ([v], u)) (expect (CHR '']'') r)))"
| "p_members 0 lim s = None"
| "p_members (Suc n) lim s = do {
     q \<leftarrow> expect (CHR 0x22) s;
     (k, r) \<leftarrow> read_string q;
     t \<leftarrow> expect (CHR '':'') r;
     (v, u) \<leftarrow> p_val (Suc n) lim t;
     (case expect (CHR '','') u of
        Some w \<Rightarrow> map_option (\<lambda>(fs, x). ((k, v) # fs, x)) (p_members n lim w)
      | None \<Rightarrow> map_option (\<lambda>x. ([(k, v)], x)) (expect (CHR ''}'') u)) }"
  by pat_completeness auto
termination
  by (relation "measures [case_sum fst (case_sum fst fst), case_sum (\<lambda>_. 0) (\<lambda>_. 1)]") auto

text \<open>The first value of a text and what follows it.\<close>

definition json_read :: "nat \<Rightarrow> string \<Rightarrow> (json \<times> string) option" where
  "json_read lim s = p_val (Suc (length s)) lim s"

text \<open>\<^verbatim>\<open>maxNestingDepth\<close> of \<^verbatim>\<open>encoding/json\<close>; a browser takes at least that.\<close>

definition max_nesting :: nat where
  "max_nesting = 10000"

section \<open>The reader consumes what it reads, and its fuel is enough\<close>

lemma expect_length: "expect c s = Some r \<Longrightarrow> length r < length s"
  using length_dropWhile_le [of is_ws s] by (auto simp: expect_def split: list.splits if_splits)

lemma read_digits_length: "read_digits s = Some (d, r) \<Longrightarrow> length r < length s"
  by (cases s) (auto simp: read_digits_def le_imp_less_Suc length_dropWhile_le split: if_splits)

lemma read_int_length: "read_int s = Some (d, r) \<Longrightarrow> length r < length s"
  by (auto simp: read_int_def dest: read_digits_length split: if_splits)

lemma read_frac_length: "read_frac s = Some (d, r) \<Longrightarrow> length r \<le> length s"
  by (cases s) (auto simp: read_frac_def dest: read_digits_length split: if_splits)

lemma read_exp_length: "read_exp s = Some (d, r) \<Longrightarrow> length r \<le> length s"
  by (cases s; cases "tl s") (auto simp: read_exp_def dest: read_digits_length split: if_splits)

lemma read_number_length: "read_number s = Some (t, r) \<Longrightarrow> length r < length s"
  by (cases s) (fastforce simp: read_number_def Let_def split: bind_splits if_splits
      dest: read_int_length read_frac_length read_exp_length)+

lemma read_word_length: "read_word w v s = Some (j, r) \<Longrightarrow> w \<noteq> [] \<Longrightarrow> s \<noteq> [] \<Longrightarrow> length r < length s"
  by (auto simp: read_word_def split: if_splits)

lemma read_scalar_length: "read_scalar s = Some (v, r) \<Longrightarrow> length r < length s"
  by (cases s) (auto simp: read_scalar_def dest: read_string_length read_number_length read_word_length split: if_splits)

lemma p_length:
  "p_val n lim s = Some (v, r) \<Longrightarrow> length r < length s"
  "p_elems n lim s = Some (vs, r) \<Longrightarrow> length r < length s"
  "p_members n lim s = Some (fs, r) \<Longrightarrow> length r < length s"
proof (induction n lim s and n lim s and n lim s arbitrary: v r and vs r and fs r rule: p_val_p_elems_p_members.induct)
  case (2 n lim s)
  have "length (dropWhile is_ws s) \<le> length s" by (rule length_dropWhile_le)
  with 2 show ?case
    by (fastforce split: option.splits if_splits dest: expect_length read_scalar_length)
next
  case (4 n lim s)
  then show ?case by (fastforce split: option.splits dest: expect_length)
next
  case (6 n lim s)
  from "6.prems" obtain q k r1 t w u where st: "expect (CHR 0x22) s = Some q" "read_string q = Some (k, r1)"
      "expect (CHR '':'') r1 = Some t" "p_val (Suc n) lim t = Some (w, u)"
    and rest: "(case expect (CHR '','') u of Some w' \<Rightarrow> map_option (\<lambda>(fs, x). ((k, w) # fs, x)) (p_members n lim w')
      | None \<Rightarrow> map_option (\<lambda>x. ([(k, w)], x)) (expect (CHR ''}'') u)) = Some (fs, r)"
    by (auto split: bind_splits)
  have "length u < length s"
    using expect_length [OF st(1)] read_string_length [OF st(2)] expect_length [OF st(3)] "6.IH"(1) [OF st(1,2) refl st(3,4)]
    by simp
  with rest "6.IH"(2) [OF st(1,2) refl st(3,4) refl] show ?case
    by (auto split: option.splits dest!: expect_length, fastforce)
qed simp_all

lemma p_fuel:
  "length s < n \<Longrightarrow> length s < m \<Longrightarrow> p_val n lim s = p_val m lim s"
  "length s < n \<Longrightarrow> length s < m \<Longrightarrow> p_elems n lim s = p_elems m lim s"
  "length s < n \<Longrightarrow> length s < m \<Longrightarrow> p_members n lim s = p_members m lim s"
proof (induction n lim s and n lim s and n lim s arbitrary: m and m and m rule: p_val_p_elems_p_members.induct)
  case (2 n lim s)
  obtain m' where m: "m = Suc m'" using "2.prems" by (cases m) auto
  have l: "length r < n \<and> length r < m'" if "expect c s = Some r" for c r
    using expect_length [OF that] "2.prems" m by simp
  have e: "p_elems n (lim - 1) r = p_elems m' (lim - 1) r"
    if "expect (CHR ''['') s = Some r" "lim \<noteq> 0" "expect (CHR '']'') r = None" for r
    using "2.IH"(2) [OF that, of m'] l [OF that(1)] by simp
  have b: "p_members n (lim - 1) r = p_members m' (lim - 1) r"
    if "expect (CHR ''['') s = None" "expect (CHR ''{'') s = Some r" "lim \<noteq> 0" "expect (CHR ''}'') r = None" for r
    using "2.IH"(1) [OF that, of m'] l [OF that(2)] by simp
  show ?case
  proof (cases "expect (CHR ''['') s")
    case None
    then show ?thesis unfolding m p_val.simps using b [OF None] by (cases "expect (CHR ''{'') s") (auto split: option.split)
  next
    case (Some r)
    then show ?thesis unfolding m p_val.simps using e [OF Some] by (auto split: option.split)
  qed
next
  case (4 n lim s)
  obtain m' where m: "m = Suc m'" using "4.prems" by (cases m) auto
  have v: "p_val (Suc n) lim s = p_val m lim s" by (rule "4.IH"(1)) (use "4.prems" in simp_all)
  have e: "p_elems n lim u = p_elems m' lim u" if "p_val (Suc n) lim s = Some (w, r)" "expect (CHR '','') r = Some u" for w r u
    using "4.IH"(2) [OF that(1) refl that(2), of m'] expect_length [OF that(2)] p_length(1) [OF that(1)] "4.prems" m by simp
  show ?case
  proof (cases "p_val (Suc n) lim s")
    case None
    with v show ?thesis unfolding m p_elems.simps by simp
  next
    case (Some wr)
    then obtain w r where wr: "p_val (Suc n) lim s = Some (w, r)" by (cases wr) auto
    with v have "p_val (Suc m') lim s = Some (w, r)" by (simp only: m)
    then show ?thesis unfolding m p_elems.simps wr using e [OF wr] by (simp split: option.split)
  qed
next
  case (6 n lim s)
  obtain m' where m: "m = Suc m'" using "6.prems" by (cases m) auto
  have v: "p_val (Suc n) lim t = p_val m lim t"
    if "expect (CHR 0x22) s = Some q" "read_string q = Some (k, r)" "expect (CHR '':'') r = Some t" for q k r t
    using "6.IH"(1) [OF that(1,2) refl that(3), of m] expect_length [OF that(1)] read_string_length [OF that(2)]
      expect_length [OF that(3)] "6.prems" by simp
  have e: "p_members n lim w = p_members m' lim w"
    if "expect (CHR 0x22) s = Some q" "read_string q = Some (k, r)" "expect (CHR '':'') r = Some t"
      "p_val (Suc n) lim t = Some (x, u)" "expect (CHR '','') u = Some w" for q k r t x u w
    using "6.IH"(2) [OF that(1,2) refl that(3,4) refl that(5), of m'] expect_length [OF that(1)] read_string_length [OF that(2)]
      expect_length [OF that(3)] p_length(1) [OF that(4)] expect_length [OF that(5)] "6.prems" m by simp
  show ?case
  proof (cases "Option.bind (expect (CHR 0x22) s) read_string")
    case None
    then show ?thesis unfolding m p_members.simps by (cases "expect (CHR 0x22) s") auto
  next
    case (Some kr)
    then obtain q k r where st: "expect (CHR 0x22) s = Some q" "read_string q = Some (k, r)"
      by (cases kr) (auto split: bind_splits)
    show ?thesis
    proof (cases "expect (CHR '':'') r")
      case None
      then show ?thesis unfolding m p_members.simps using st by simp
    next
      case (Some t)
      then show ?thesis
        unfolding m p_members.simps using st v [OF st Some] e [OF st Some] unfolding m
        by (cases "p_val (Suc m') lim t") (auto split: option.splits)
    qed
  qed
qed simp_all

lemma json_read_fuel: "length s < n \<Longrightarrow> p_val n lim s = json_read lim s"
  unfolding json_read_def by (rule p_fuel(1)) simp_all

section \<open>Reading back what was written\<close>

text \<open>What may follow a number without changing it.\<close>

definition ends :: "string \<Rightarrow> bool" where
  "ends s \<longleftrightarrow> s = [] \<or> hd s \<in> {CHR '','', CHR '']'', CHR ''}'', CHR 0x0A}"

definition number_text :: "string \<Rightarrow> bool" where
  "number_text t \<longleftrightarrow> read_number t = Some (t, [])"

lemma ends_stop:
  assumes "ends s"
  shows "s = [] \<or> \<not> is_dec (hd s) \<and> hd s \<noteq> CHR ''.'' \<and> hd s \<noteq> CHR ''e'' \<and> hd s \<noteq> CHR ''E'' \<and>
    hd s \<noteq> CHR ''+'' \<and> hd s \<noteq> CHR ''-'' \<and> hd s \<noteq> CHR ''0''"
proof (cases "s = []")
  case False
  with assms have "hd s = CHR '','' \<or> hd s = CHR '']'' \<or> hd s = CHR ''}'' \<or> hd s = CHR 0x0A" by (simp add: ends_def)
  then show ?thesis by (elim disjE) (simp_all add: is_dec_def dec_val_def)
qed simp

lemma takeWhile_ends:
  assumes "ends r"
  shows "takeWhile is_dec (s @ r) = takeWhile is_dec s" "dropWhile is_dec (s @ r) = dropWhile is_dec s @ r"
  using ends_stop [OF assms] by (induction s; cases r; auto)+

abbreviation followed :: "string \<Rightarrow> (string \<times> string) option \<Rightarrow> (string \<times> string) option" where
  "followed r \<equiv> map_option (\<lambda>(t, u). (t, u @ r))"

lemma read_digits_append: "ends r \<Longrightarrow> read_digits (s @ r) = followed r (read_digits s)"
  by (simp add: read_digits_def takeWhile_ends)

lemma hd_ends: "ends r \<Longrightarrow> c \<in> {CHR ''.'', CHR ''e'', CHR ''E'', CHR ''+'', CHR ''-'', CHR ''0''} \<Longrightarrow>
  (s @ r \<noteq> [] \<and> hd (s @ r) = c) = (s \<noteq> [] \<and> hd s = c)"
  using ends_stop [of r] by (cases s) auto

lemma read_int_append: "ends r \<Longrightarrow> read_int (s @ r) = followed r (read_int s)"
  unfolding read_int_def by (subst hd_ends) (auto simp: read_digits_append)

lemma read_frac_append: "ends r \<Longrightarrow> read_frac (s @ r) = followed r (read_frac s)"
  unfolding read_frac_def by (subst hd_ends) (auto simp: read_digits_append option.map_comp comp_def split_def)

lemma read_exp_append: "ends r \<Longrightarrow> read_exp (s @ r) = followed r (read_exp s)"
proof -
  assume r: "ends r"
  show ?thesis
  proof (cases "s \<noteq> [] \<and> (hd s = CHR ''e'' \<or> hd s = CHR ''E'')")
    case True
    then obtain c u where s: "s = c # u" "c = CHR ''e'' \<or> c = CHR ''E''" by (cases s) auto
    have "(u @ r \<noteq> [] \<and> (hd (u @ r) = CHR ''+'' \<or> hd (u @ r) = CHR ''-'')) = (u \<noteq> [] \<and> (hd u = CHR ''+'' \<or> hd u = CHR ''-''))"
      using hd_ends [OF r, of "CHR ''+''" u] hd_ends [OF r, of "CHR ''-''" u] by auto
    then show ?thesis
      using s read_digits_append [OF r, of u] read_digits_append [OF r, of "tl u"]
      by (cases u) (auto simp: read_exp_def option.map_comp comp_def split_def)
  next
    case False
    then have "\<not> (s @ r \<noteq> [] \<and> (hd (s @ r) = CHR ''e'' \<or> hd (s @ r) = CHR ''E''))"
      using hd_ends [OF r, of "CHR ''e''" s] hd_ends [OF r, of "CHR ''E''" s] by auto
    with False show ?thesis by (simp only: read_exp_def if_False option.map prod.case)
  qed
qed

lemma read_number_append:
  assumes "ends r"
  shows "read_number (s @ r) = followed r (read_number s)"
proof -
  have neg: "(s @ r \<noteq> [] \<and> hd (s @ r) = CHR ''-'') = (s \<noteq> [] \<and> hd s = CHR ''-'')" by (rule hd_ends [OF assms]) simp
  have tl: "(if s \<noteq> [] \<and> hd s = CHR ''-'' then tl (s @ r) else s @ r) = (if s \<noteq> [] \<and> hd s = CHR ''-'' then tl s else s) @ r"
    by (cases s) auto
  show ?thesis
    unfolding read_number_def Let_def neg tl
    using assms by (auto simp: read_int_append read_frac_append read_exp_append split: bind_splits option.splits)
qed

lemma number_read: "number_text t \<Longrightarrow> ends r \<Longrightarrow> read_number (t @ r) = Some (t, r)"
  by (simp add: number_text_def read_number_append)

text \<open>The first character of a number.\<close>

lemma read_digits_hd: "read_digits s = Some (d, r) \<Longrightarrow> s \<noteq> [] \<and> is_dec (hd s)"
  by (cases s) (auto simp: read_digits_def split: if_splits)

lemma number_hd: "number_text t \<Longrightarrow> t \<noteq> [] \<and> (hd t = CHR ''-'' \<or> is_dec (hd t))"
  by (auto simp: number_text_def read_number_def read_int_def Let_def is_dec_def dec_val_def
      dest: read_digits_hd split: bind_splits if_splits)

lemma is_dec_digit: "d < 10 \<Longrightarrow> is_dec (char_of (48 + d :: nat))"
  by (simp add: is_dec_def dec_val_def)

lemma nat_string_dec: "\<forall>c \<in> set (nat_string n). is_dec c"
  using nat_string_chars [of _ n] is_dec_digit by blast

lemma number_int_string [simp]: "number_text (int_string i)"
proof -
  have nat: "read_int (nat_string n) = Some (nat_string n, [])" for n
  proof (cases "n < 10")
    case True
    then have "nat_string n = [char_of (48 + n)]" by (subst nat_string_rec) simp
    with is_dec_digit [OF True] show ?thesis by (simp add: read_int_def read_digits_def)
  next
    case False
    then have "hd (nat_string n) \<noteq> CHR ''0''" by (intro nat_string_hd) simp
    moreover have tw: "takeWhile is_dec (nat_string n) = nat_string n" "dropWhile is_dec (nat_string n) = []"
      using nat_string_dec [of n] by (simp_all add: takeWhile_eq_all_conv dropWhile_eq_Nil_conv)
    ultimately show ?thesis unfolding read_int_def read_digits_def tw by simp
  qed
  have neg: "hd (nat_string n) \<noteq> CHR ''-''" for n
    using nat_string_dec [of n] by (cases "nat_string n") (auto simp: is_dec_def dec_val_def)
  show ?thesis
    by (simp add: number_text_def read_number_def int_string_def nat neg read_frac_def read_exp_def)
qed

text \<open>What a value becomes on the wire, and which values can be written.\<close>

fun clean_json :: "json \<Rightarrow> json" where
  "clean_json (JStr s) = JStr (clean s)"
| "clean_json (JArr vs) = JArr (map clean_json vs)"
| "clean_json (JObj fs) = JObj (map (\<lambda>(k, v). (clean k, clean_json v)) fs)"
| "clean_json v = v"

fun wf_json :: "json \<Rightarrow> bool" where
  "wf_json (JNum t) \<longleftrightarrow> number_text t"
| "wf_json (JArr vs) \<longleftrightarrow> (\<forall>v \<in> set vs. wf_json v)"
| "wf_json (JObj fs) \<longleftrightarrow> (\<forall>f \<in> set fs. wf_json (snd f))"
| "wf_json v \<longleftrightarrow> True"

fun utf8_json :: "json \<Rightarrow> bool" where
  "utf8_json (JStr s) \<longleftrightarrow> utf8 s"
| "utf8_json (JArr vs) \<longleftrightarrow> (\<forall>v \<in> set vs. utf8_json v)"
| "utf8_json (JObj fs) \<longleftrightarrow> (\<forall>f \<in> set fs. utf8 (fst f) \<and> utf8_json (snd f))"
| "utf8_json v \<longleftrightarrow> True"

text \<open>\<open>nests d v\<close>: no more than \<open>d\<close> brackets are open at once in \<open>v\<close>.\<close>

fun nests :: "nat \<Rightarrow> json \<Rightarrow> bool" where
  "nests d (JArr vs) \<longleftrightarrow> (d > 0 \<and> (\<forall>v \<in> set vs. nests (d - 1) v))"
| "nests d (JObj fs) \<longleftrightarrow> (d > 0 \<and> (\<forall>f \<in> set fs. nests (d - 1) (snd f)))"
| "nests d v \<longleftrightarrow> True"

lemma utf8_clean_json: "utf8_json v \<Longrightarrow> clean_json v = v"
proof (induction v rule: clean_json.induct)
  case (3 fs)
  then show ?case by (auto simp: utf8_clean intro!: map_idI)
qed (auto simp: utf8_clean intro!: map_idI)

lemma expect_hit: "\<not> is_ws c \<Longrightarrow> expect c (c # r) = Some r"
  by (simp add: expect_def)

lemma expect_miss: "\<not> is_ws x \<Longrightarrow> x \<noteq> c \<Longrightarrow> expect c (x # r) = None"
  by (simp add: expect_def)

lemma punctuation [simp]: "\<not> is_ws (CHR 0x22)" "\<not> is_ws (CHR ''['')" "\<not> is_ws (CHR '']'')" "\<not> is_ws (CHR ''{'')"
    "\<not> is_ws (CHR ''}'')" "\<not> is_ws (CHR '','')" "\<not> is_ws (CHR '':'')" "\<not> is_ws (CHR ''n'')" "\<not> is_ws (CHR ''t'')"
    "\<not> is_ws (CHR ''f'')" "\<not> is_ws (CHR ''-'')"
  by (simp_all add: is_ws_def)

text \<open>A scalar: its first character is neither white space nor a bracket.\<close>

definition scalar_start :: "char \<Rightarrow> bool" where
  "scalar_start c \<longleftrightarrow> \<not> is_ws c \<and> c \<notin> {CHR ''['', CHR ''{'', CHR '']'', CHR ''}'', CHR '',''}"

lemma digit_start: "c = CHR ''-'' \<or> is_dec c \<Longrightarrow>
  scalar_start c \<and> c \<noteq> CHR 0x22 \<and> c \<noteq> CHR ''n'' \<and> c \<noteq> CHR ''t'' \<and> c \<noteq> CHR ''f''"
  by (auto simp: scalar_start_def is_ws_def is_dec_def dec_val_def)

lemma p_val_scalar:
  assumes "scalar_start c" and "read_scalar (c # s) = Some (v, r)" and "0 < n"
  shows "p_val n lim (c # s) = Some (v, r)"
proof -
  obtain m where "n = Suc m" using assms(3) by (cases n) auto
  with assms(1,2) show ?thesis by (simp add: expect_miss scalar_start_def)
qed

lemma p_val_number:
  assumes "number_text t" and "ends r" and "0 < n"
  shows "p_val n lim (t @ r) = Some (JNum t, r)"
proof -
  obtain c u where t: "t = c # u" "c = CHR ''-'' \<or> is_dec c" using number_hd [OF assms(1)] by (cases t) auto
  note d = digit_start [OF t(2)]
  have "read_scalar (c # u @ r) = Some (JNum t, r)"
    using d number_read [OF assms(1,2)] t(1) by (simp add: read_scalar_def)
  then show ?thesis using p_val_scalar [OF conjunct1 [OF d] _ assms(3)] t(1) by simp
qed

lemma p_val_quote: "0 < n \<Longrightarrow> p_val n lim (quote s @ r) = Some (JStr (clean s), r)"
  unfolding quote_def append_Cons append_assoc
  by (rule p_val_scalar) (simp_all add: scalar_start_def is_ws_def read_scalar_def read_string_escape)

lemma p_val_word:
  assumes "0 < n"
  shows "p_val n lim (''null'' @ r) = Some (JNull, r)" "p_val n lim (''true'' @ r) = Some (JBool True, r)"
    "p_val n lim (''false'' @ r) = Some (JBool False, r)"
  unfolding append_Cons append_Nil
  by (rule p_val_scalar [OF _ _ assms]; simp add: scalar_start_def is_ws_def read_scalar_def read_word_def has_prefix_def)+

lemma marshal_start:
  assumes "wf_json v"
  shows "\<exists>c r. marshal v = c # r \<and> \<not> is_ws c \<and> c \<noteq> CHR '']'' \<and> c \<noteq> CHR ''}''"
proof (cases v)
  case (JNum t)
  with assms have t: "number_text t" by simp
  from number_hd [OF t] JNum digit_start show ?thesis by (cases t) (auto simp: scalar_start_def)
qed (auto simp: quote_def)

lemma elems_start: "\<forall>v \<in> set vs. wf_json v \<Longrightarrow> vs \<noteq> [] \<Longrightarrow> expect (CHR '']'') (elems vs @ r) = None"
proof -
  assume "\<forall>v \<in> set vs. wf_json v" "vs \<noteq> []"
  then obtain v c u where "elems vs @ r = c # u" "\<not> is_ws c" "c \<noteq> CHR '']''"
    by (cases vs rule: elems.cases) (auto dest: marshal_start)
  then show ?thesis by (simp add: expect_miss)
qed

lemma ends_punctuation [simp]: "ends (CHR '','' # r)" "ends (CHR '']'' # r)" "ends (CHR ''}'' # r)"
  by (simp_all add: ends_def)

lemma read_back:
  "wf_json v \<Longrightarrow> nests lim v \<Longrightarrow> ends r \<Longrightarrow> length (marshal v) < n \<Longrightarrow>
    p_val n lim (marshal v @ r) = Some (clean_json v, r)"
  "\<forall>v \<in> set vs. wf_json v \<and> nests lim v \<Longrightarrow> vs \<noteq> [] \<Longrightarrow> length (elems vs) \<le> n \<Longrightarrow>
    p_elems n lim (elems vs @ r) = Some (map clean_json vs, r)"
  "\<forall>f \<in> set fs. wf_json (snd f) \<and> nests lim (snd f) \<Longrightarrow> fs \<noteq> [] \<Longrightarrow> length (members fs) \<le> n \<Longrightarrow>
    p_members n lim (members fs @ r) = Some (map (\<lambda>(k, v). (clean k, clean_json v)) fs, r)"
proof (induction v and vs and fs arbitrary: n lim r and n lim r and n lim r rule: marshal_elems_members.induct)
  case (5 vs)
  then obtain m where n: "n = Suc m" by (cases n) auto
  show ?case
  proof (cases "vs = []")
    case True
    with 5 n show ?thesis by (simp add: expect_hit)
  next
    case False
    have "p_elems m (lim - 1) (elems vs @ r) = Some (map clean_json vs, r)"
      using "5.prems" False n by (intro "5.IH") auto
    with 5 n False elems_start [of vs r] show ?thesis by (simp add: expect_hit)
  qed
next
  case (6 fs)
  then obtain m where n: "n = Suc m" by (cases n) auto
  show ?case
  proof (cases "fs = []")
    case True
    with 6 n show ?thesis by (simp add: expect_hit expect_miss)
  next
    case False
    have "p_members m (lim - 1) (members fs @ r) = Some (map (\<lambda>(k, v). (clean k, clean_json v)) fs, r)"
      using "6.prems" False n by (intro "6.IH") auto
    moreover have "expect (CHR ''}'') (members fs @ r) = None"
      using False by (cases fs rule: members.cases) (auto simp: quote_def expect_miss)
    ultimately show ?thesis using 6 n by (simp add: expect_hit expect_miss)
  qed
next
  case (8 v)
  then obtain m where n: "n = Suc m" by (cases n) auto
  have "p_val n lim (marshal v @ CHR '']'' # r) = Some (clean_json v, CHR '']'' # r)"
    using 8 by (intro "8.IH") auto
  with n show ?case by (simp add: expect_hit expect_miss)
next
  case (9 v w vs)
  then obtain m where n: "n = Suc m" by (cases n) auto
  have "p_val n lim (marshal v @ CHR '','' # elems (w # vs) @ r) = Some (clean_json v, CHR '','' # elems (w # vs) @ r)"
    using "9.prems" by (intro "9.IH"(1)) auto
  moreover have "p_elems m lim (elems (w # vs) @ r) = Some (map clean_json (w # vs), r)"
    using "9.prems" n by (intro "9.IH"(2)) auto
  ultimately show ?case using n by (simp add: expect_hit)
next
  case (11 k v)
  then obtain m where n: "n = Suc m" by (cases n) auto
  have "p_val n lim (marshal v @ CHR ''}'' # r) = Some (clean_json v, CHR ''}'' # r)"
    using 11 by (intro "11.IH") auto
  with n show ?case by (simp add: expect_hit expect_miss quote_def read_string_escape)
next
  case (12 k v f fs)
  then obtain m where n: "n = Suc m" by (cases n) auto
  have "p_val n lim (marshal v @ CHR '','' # members (f # fs) @ r) = Some (clean_json v, CHR '','' # members (f # fs) @ r)"
    using "12.prems" by (intro "12.IH"(1)) auto
  moreover have "p_members m lim (members (f # fs) @ r) = Some (map (\<lambda>(k, v). (clean k, clean_json v)) (f # fs), r)"
    using "12.prems" n by (intro "12.IH"(2)) auto
  ultimately show ?case using n by (simp add: expect_hit quote_def read_string_escape)
next
  case 1
  then show ?case using p_val_word(1) [of n lim r] by simp
next
  case (2 b)
  then show ?case using p_val_word(2,3) [of n lim r] by simp
next
  case (3 t)
  then show ?case by (simp add: p_val_number)
next
  case (4 s)
  then show ?case by (simp add: p_val_quote)
qed simp_all

text \<open>The contract of the wire: a value comes back, whatever follows it, up to malformed UTF-8.\<close>

lemma json_read_marshal:
  assumes "wf_json v" and "nests lim v" and "ends r"
  shows "json_read lim (marshal v @ r) = Some (clean_json v, r)"
  unfolding json_read_def using assms by (intro read_back(1)) auto

lemma marshal_inj:
  assumes "wf_json v" "wf_json w" and "nests lim v" "nests lim w" and "utf8_json v" "utf8_json w"
  shows "marshal v = marshal w \<longleftrightarrow> v = w"
proof -
  have "json_read lim (marshal x) = Some (x, [])" if "wf_json x" "nests lim x" "utf8_json x" for x
    using json_read_marshal [OF that(1,2), of "[]"] utf8_clean_json [OF that(3)] by (simp add: ends_def)
  with assms show ?thesis by (metis option.inject prod.inject)
qed

section \<open>A written value is one printable line\<close>

lemma printable_digits: "read_digits s = Some (d, r) \<Longrightarrow> printable d"
proof -
  assume "read_digits s = Some (d, r)"
  then have d: "d = takeWhile is_dec s" by (auto simp: read_digits_def split: if_splits)
  have "(of_char c :: nat) \<ge> 0x20" if "is_dec c" for c
    using that by (simp add: is_dec_def dec_val_def Let_def split: if_splits)
  then show "printable d" unfolding d printable_def by (blast dest: set_takeWhileD)
qed

lemma printable_int: "read_int s = Some (d, r) \<Longrightarrow> printable d"
  by (auto simp: read_int_def printable_digits split: if_splits)

lemma printable_frac: "read_frac s = Some (d, r) \<Longrightarrow> printable d"
  by (auto simp: read_frac_def printable_digits split: if_splits)

lemma printable_exp:
  assumes "read_exp s = Some (d, r)"
  shows "printable d"
proof (cases "s \<noteq> [] \<and> (hd s = CHR ''e'' \<or> hd s = CHR ''E'')")
  case True
  then have "printable [hd s]" by auto
  moreover have "printable [hd (tl s)]" if "hd (tl s) = CHR ''+'' \<or> hd (tl s) = CHR ''-''" using that by auto
  ultimately show ?thesis
    using assms True unfolding read_exp_def if_P [OF True]
    by (cases "tl s \<noteq> [] \<and> (hd (tl s) = CHR ''+'' \<or> hd (tl s) = CHR ''-'')") (clarsimp simp: printable_digits)+
next
  case False
  with assms show ?thesis unfolding read_exp_def if_not_P [OF False] by simp
qed

lemma printable_number: "number_text t \<Longrightarrow> printable t"
  by (auto simp: number_text_def read_number_def Let_def printable_int printable_frac printable_exp split: bind_splits if_splits)

lemma printable_marshal:
  "wf_json v \<Longrightarrow> printable (marshal v)"
  "\<forall>v \<in> set vs. wf_json v \<Longrightarrow> printable (elems vs)"
  "\<forall>f \<in> set fs. wf_json (snd f) \<Longrightarrow> printable (members fs)"
  by (induction v and vs and fs rule: marshal_elems_members.induct)
    (auto simp: printable_number printable_quote)

end
