(* ===== verification/EventStream.thy ===== *)
theory EventStream
  imports HubInv Json
begin

text \<open>
  What a browser makes of the bytes of an event stream. The reader below is the one of the
  \<^verbatim>\<open>EventSource\<close> standard that \<^verbatim>\<open>web/assets/app.js\<close> relies on: lines end in CR, LF or both, a line
  that starts with a colon is a comment, \<^verbatim>\<open>event\<close> and \<^verbatim>\<open>data\<close> fill the pending event and an empty
  line dispatches it; what follows the last line break is not read yet. The theorem of this
  theory is that the frames \<^verbatim>\<open>server/frames.go\<close> builds come out as the events they were built from,
  on every run of the hub, for every connection and at every moment.
\<close>

section \<open>The reader\<close>

fun stream_lines :: "string \<Rightarrow> bool \<Rightarrow> string \<Rightarrow> string list" where
  "stream_lines acc cr [] = []"
| "stream_lines acc cr (c # s) =
     (if cr \<and> c = CHR 0x0A then stream_lines acc False s
      else if c = CHR 0x0A then rev acc # stream_lines [] False s
      else if c = CHR 0x0D then rev acc # stream_lines [] True s
      else stream_lines (c # acc) False s)"

text \<open>A field line: its name and its value without one leading space.\<close>

definition field_line :: "string \<Rightarrow> string \<times> string" where
  "field_line l = (case index_where (\<lambda>c. c = CHR '':'') l of
       None \<Rightarrow> (l, [])
     | Some i \<Rightarrow> (take i l, let v = drop (Suc i) l in if v \<noteq> [] \<and> hd v = CHR '' '' then tl v else v))"

fun dispatch :: "string \<Rightarrow> string \<Rightarrow> string list \<Rightarrow> (string \<times> string) list" where
  "dispatch ev data [] = []"
| "dispatch ev data (l # ls) =
     (if l = [] then
        (if data = [] then dispatch [] [] ls
         else (if ev = [] then ''message'' else ev, butlast data) # dispatch [] [] ls)
      else if hd l = CHR '':'' then dispatch ev data ls
      else (let (name, v) = field_line l in
        if name = ''event'' then dispatch v data ls
        else if name = ''data'' then dispatch ev (data @ v @ [CHR 0x0A]) ls
        else dispatch ev data ls))"

definition event_stream :: "string \<Rightarrow> (string \<times> string) list" where
  "event_stream s = dispatch [] [] (stream_lines [] False s)"

section \<open>One frame is one event\<close>

definition event_names :: "string list" where
  "event_names = [''hello'', ''stats'', ''devices'', ''cache'', ''services'', ''scan'', ''wake'']"

definition event_frame :: "string \<Rightarrow> json \<Rightarrow> frame" where
  "event_frame ev v = ''event: '' @ ev @ [newline] @ ''data: '' @ marshal v @ [newline, newline]"

lemma sseFrame_event: "sseFrame ev (Some (marshal v)) = Some (event_frame ev v)"
  by (simp add: sseFrame_def event_frame_def)

lemma printable_no_break: "printable s \<Longrightarrow> CHR 0x0A \<notin> set s \<and> CHR 0x0D \<notin> set s"
  by (auto simp: printable_def)

lemma stream_lines_line:
  "CHR 0x0A \<notin> set l \<Longrightarrow> CHR 0x0D \<notin> set l \<Longrightarrow>
   stream_lines acc False (l @ CHR 0x0A # s) = (rev acc @ l) # stream_lines [] False s"
  by (induction l arbitrary: acc) auto

lemma event_names_simple: "ev \<in> set event_names \<Longrightarrow> printable ev \<and> ev \<noteq> []"
  by (auto simp: event_names_def)

lemma marshal_nonempty: "wf_json v \<Longrightarrow> marshal v \<noteq> []"
  using marshal_start [of v] by auto

lemma lines_frame:
  assumes "printable ev" and "printable p"
  shows "stream_lines [] False (''event: '' @ ev @ [newline] @ ''data: '' @ p @ [newline, newline] @ s) =
    (''event: '' @ ev) # (''data: '' @ p) # [] # stream_lines [] False s"
proof -
  have "stream_lines [] False (l @ newline # t) = l # stream_lines [] False t" if "printable l" for l t
    using stream_lines_line [of l "[]" t] printable_no_break [OF that] by (simp add: newline_def)
  from this [of "''event: '' @ ev"] this [of "''data: '' @ p"] this [of "[]"] assms show ?thesis by simp
qed

lemma event_stream_frame:
  assumes "ev \<in> set event_names" and "wf_json v"
  shows "event_stream (event_frame ev v @ s) = (ev, marshal v) # event_stream s"
proof -
  have "stream_lines [] False (event_frame ev v @ s) =
      (''event: '' @ ev) # (''data: '' @ marshal v) # [] # stream_lines [] False s"
    unfolding event_frame_def append_assoc
    by (rule lines_frame) (use assms event_names_simple printable_marshal(1) in auto)
  moreover have "field_line (''event: '' @ ev) = (''event'', ev)" "field_line (''data: '' @ marshal v) = (''data'', marshal v)"
    by (simp_all add: field_line_def)
  ultimately show ?thesis using event_names_simple [OF assms(1)] by (simp add: event_stream_def)
qed

lemma event_stream_ping: "event_stream (ping @ s) = event_stream s"
  by (simp add: event_stream_def ping_def newline_def)

section \<open>Every frame of a run is one event\<close>

text \<open>What \<^verbatim>\<open>json.Marshal\<close> is given here: numbers are JSON numbers and the nesting is one a reader takes.\<close>

definition sendable :: "json \<Rightarrow> bool" where
  "sendable v \<longleftrightarrow> wf_json v \<and> nests max_nesting v"

definition json_frame :: "frame \<Rightarrow> bool" where
  "json_frame b \<longleftrightarrow> (\<exists>ev v. ev \<in> set event_names \<and> sendable v \<and> b = event_frame ev v)"

text \<open>A payload as \<^verbatim>\<open>json.Marshal\<close> gives it, and an action whose payloads are such.\<close>

definition marshalled :: "string option \<Rightarrow> bool" where
  "marshalled p \<longleftrightarrow> (\<forall>t. p = Some t \<longrightarrow> (\<exists>v. sendable v \<and> t = marshal v))"

fun wire_act :: "sse_act \<Rightarrow> bool" where
  "wire_act (Greet c hello now) \<longleftrightarrow> marshalled hello"
| "wire_act (Publish p) \<longleftrightarrow> marshalled (p_hello p) \<and> marshalled (p_stats p) \<and> marshalled (p_devices p) \<and>
     marshalled (p_cache p) \<and> marshalled (p_services p)"
| "wire_act (Event ev p ks) \<longleftrightarrow> marshalled p"
| "wire_act a \<longleftrightarrow> True"

definition json_frames :: "frameSet option \<Rightarrow> bool" where
  "json_frames f \<longleftrightarrow> (\<forall>fs b. f = Some fs \<longrightarrow> Some b \<in> {f_hello fs, f_stats fs, f_devices fs, f_cache fs, f_services fs} \<longrightarrow> json_frame b)"

definition good_conn :: "conn \<Rightarrow> bool" where
  "good_conn k \<longleftrightarrow> (\<forall>b \<in> set (stream k). json_frame b \<or> b = ping)"

definition wire_inv :: "sse_sys \<Rightarrow> bool" where
  "wire_inv y \<longleftrightarrow> json_frames (g_frames y) \<and> (\<forall>b \<in> set (pending y). json_frame b) \<and>
     (\<forall>c ch. h_chans (g_hub y) c = Some ch \<longrightarrow> (\<forall>b \<in> set (ch_buf ch). json_frame b)) \<and>
     (\<forall>c k. g_conns y c = Some k \<longrightarrow> good_conn k)"

lemma json_frame_sse: "marshalled p \<Longrightarrow> ev \<in> set event_names \<Longrightarrow> sseFrame ev p = Some b \<Longrightarrow> json_frame b"
proof -
  assume a: "marshalled p" "ev \<in> set event_names" "sseFrame ev p = Some b"
  then obtain t where "p = Some t" by (cases p) (auto simp: sseFrame_def)
  with a obtain v where "sendable v" "sseFrame ev (Some (marshal v)) = Some b" by (auto simp: marshalled_def)
  with a(2) show "json_frame b" unfolding json_frame_def sseFrame_event by blast
qed

lemma json_frames_build: "wire_act (Publish p) \<Longrightarrow> json_frames (Some (build_frames p))"
proof -
  assume "wire_act (Publish p)"
  moreover have "json_frame b" if "Some b = sseFrame ev q" "marshalled q" "ev \<in> set event_names" for b ev q
    using json_frame_sse [OF that(2,3)] that(1) by simp
  ultimately show "json_frames (Some (build_frames p))"
    by (auto simp: json_frames_def build_frames_def event_names_def)
qed

lemma set_send_if: "b \<in> set (send_if x m) \<Longrightarrow> m = Some b"
  by (cases x; cases m) (simp_all add: send_if_def)

lemma json_frames_sends: "json_frames (Some fs) \<Longrightarrow> b \<in> set (render_sends prev fs) \<Longrightarrow> json_frame b"
  by (auto simp: render_sends_def Let_def json_frames_def dest!: set_send_if)

lemma json_frames_greet:
  assumes "json_frames f" and "marshalled hello" and "b \<in> set (greet_frames hello f)"
  shows "json_frame b"
proof (cases f)
  case None
  have h: "''hello'' \<in> set event_names" by (simp add: event_names_def)
  from None assms(3) have "sseFrame ''hello'' hello = Some b"
    by (cases "sseFrame ''hello'' hello") (simp_all add: greet_frames_def greeting_def map_filter_simps)
  then show ?thesis by (rule json_frame_sse [OF assms(2) h])
next
  case (Some fs)
  with assms(1,3) show ?thesis
    unfolding greet_frames_def greeting_def Some option.map option.case greeting_split field.simps
    by (auto simp: json_frames_def dest!: set_send_if)
qed

lemma send_all_bufs:
  "send_all m ks chans = Some chans' \<Longrightarrow> chans' c = Some ch' \<Longrightarrow>
   \<exists>ch. chans c = Some ch \<and> set (ch_buf ch') \<subseteq> insert m (set (ch_buf ch))"
proof (induction ks arbitrary: chans)
  case (Cons k ks)
  then obtain ch1 ch2 where s: "chans k = Some ch1" "try_send m ch1 = Some ch2" "send_all m ks (chans(k \<mapsto> ch2)) = Some chans'"
    by (auto split: option.splits)
  moreover have "set (ch_buf ch2) \<subseteq> insert m (set (ch_buf ch1))"
    using s(2) by (auto simp: try_send_def split: if_splits)
  ultimately show ?case using Cons.IH [OF s(3) Cons.prems(2)] by (auto split: if_splits)
qed auto

lemma frame_of_simps [simp]: "frame_of (W_greet b) = b" "frame_of (W_msg b) = b" "frame_of W_ping = ping"
  by (simp_all add: frame_of_def)

lemma good_conn_note [simp]: "good_conn (k\<lparr>k_sent := a, k_dropped := n\<rparr>) = good_conn k"
  by (simp add: good_conn_def stream_def)

lemma good_conn_new: "good_conn \<lparr>k_phase = Attached, k_written = [], k_sent = [], k_dropped = 0\<rparr>"
  by (simp add: good_conn_def stream_def)

lemma good_conn_phase: "good_conn k \<Longrightarrow> (\<And>bs. p \<noteq> Greeting bs) \<Longrightarrow> good_conn (k\<lparr>k_phase := p\<rparr>)"
  by (cases p) (auto simp: good_conn_def stream_def)

lemma good_conn_greet: "good_conn k \<Longrightarrow> \<forall>b \<in> set bs. json_frame b \<Longrightarrow> good_conn (k\<lparr>k_phase := Greeting bs\<rparr>)"
  by (auto simp: good_conn_def stream_def)

lemma good_conn_greeted:
  "good_conn k \<Longrightarrow> k_phase k = Greeting (b # bs) \<Longrightarrow>
   good_conn (k\<lparr>k_phase := Greeting bs, k_written := k_written k @ [W_greet b]\<rparr>)"
  by (auto simp: good_conn_def stream_def)

lemma good_conn_write:
  "good_conn k \<Longrightarrow> k_phase k = Relaying \<Longrightarrow> json_frame (frame_of w) \<or> w = W_ping \<Longrightarrow>
   good_conn (k\<lparr>k_written := k_written k @ [w]\<rparr>)"
  by (auto simp: good_conn_def stream_def)

lemma wire_do_send:
  assumes "wire_inv y" and "do_send ks msg y = Some y'" and "\<And>b. msg = Some b \<Longrightarrow> json_frame b"
  shows "wire_inv y'"
proof (cases msg)
  case None
  with assms show ?thesis by (auto simp: do_send_def hub_send_def wire_inv_def pending_def)
next
  case (Some m)
  then obtain chans where s: "send_all m ks (h_chans (g_hub y)) = Some chans"
    and y': "y' = y\<lparr>g_hub := (g_hub y)\<lparr>h_chans := chans\<rparr>, g_conns := note_sent m (g_hub y) (g_conns y)\<rparr>"
    using assms(2) by (auto simp: do_send_def hub_send_def)
  have "\<forall>b \<in> set (ch_buf ch). json_frame b" if "chans c = Some ch" for c ch
    using send_all_bufs [OF s that] assms(1,3) Some by (auto simp: wire_inv_def)
  moreover have "good_conn k" if "note_sent m (g_hub y) (g_conns y) c = Some k" for c k
    using that assms(1) by (auto simp: note_sent_def wire_inv_def split: if_splits)
  ultimately show ?thesis using assms(1) y' by (simp add: wire_inv_def pending_def)
qed

lemma wire_set_conn:
  assumes "wire_inv y" and "\<And>k. g_conns y c = Some k \<Longrightarrow> good_conn k \<Longrightarrow> good_conn (f k)"
  shows "wire_inv (set_conn c f y)"
  using assms by (auto simp: wire_inv_def set_conn_def pending_def)

lemma wire_hub: "wire_inv y \<Longrightarrow> h_chans h = h_chans (g_hub y) \<Longrightarrow> wire_inv (y\<lparr>g_hub := h\<rparr>)"
  by (simp add: wire_inv_def pending_def)

lemma wire_perform:
  assumes inv: "wire_inv y" and en: "sse_enabled a y" and p: "sse_perform a y = Some y'" and ok: "wire_act a"
  shows "wire_inv y'"
proof (cases a)
  case (Attach c)
  then have y': "y' = y\<lparr>g_hub := hub_add c (g_hub y),
      g_conns := (g_conns y)(c \<mapsto> \<lparr>k_phase = Attached, k_written = [], k_sent = [], k_dropped = 0\<rparr>)\<rparr>"
    using p by simp
  show ?thesis using inv good_conn_new unfolding y' by (auto simp: wire_inv_def hub_add_def pending_def)
next
  case (Greet c hello now)
  have b: "\<forall>b \<in> set (greet_frames hello (g_frames y)). json_frame b"
    using json_frames_greet [of "g_frames y" hello] inv ok Greet by (simp add: wire_inv_def)
  have "wire_inv (set_conn c (k_phase_update (\<lambda>_. Greeting (greet_frames hello (g_frames y)))) (y\<lparr>g_hub := hub_Pulse now (g_hub y)\<rparr>))"
    by (rule wire_set_conn [OF wire_hub [OF inv]]) (simp_all add: hub_Pulse_def good_conn_greet b)
  with p Greet show ?thesis by simp
next
  case (Write c ok')
  have "wire_inv (set_conn c (\<lambda>k. case k_phase k of
       Greeting (b # bs) \<Rightarrow> if ok' then k\<lparr>k_phase := Greeting bs, k_written := k_written k @ [W_greet b]\<rparr> else k\<lparr>k_phase := Exiting\<rparr>
     | _ \<Rightarrow> k\<lparr>k_phase := Relaying\<rparr>) y)"
    by (rule wire_set_conn [OF inv]) (auto simp: good_conn_phase good_conn_greeted split: conn_phase.split list.split)
  with p Write show ?thesis by simp
next
  case (Heartbeat c ok')
  have "wire_inv (set_conn c (\<lambda>k. if ok' then k\<lparr>k_written := k_written k @ [W_ping]\<rparr> else k\<lparr>k_phase := Exiting\<rparr>) y)"
    by (rule wire_set_conn [OF inv]) (use en Heartbeat in \<open>auto simp: good_conn_phase good_conn_write phase_of_def\<close>)
  with p Heartbeat show ?thesis by simp
next
  case (Disconnect c)
  have "wire_inv (set_conn c (k_phase_update (\<lambda>_. Exiting)) y)"
    by (rule wire_set_conn [OF inv]) (simp add: good_conn_phase)
  with p Disconnect show ?thesis by simp
next
  case (Detach c)
  have "wire_inv (set_conn c (k_phase_update (\<lambda>_. Removed)) (y\<lparr>g_hub := hub_delete c (g_hub y)\<rparr>))"
    by (rule wire_set_conn [OF wire_hub [OF inv]]) (simp_all add: hub_delete_def good_conn_phase)
  with p Detach show ?thesis by simp
next
  case (Close c)
  then obtain h where h: "close_chan c (g_hub y) = Some h" "y' = set_conn c (k_phase_update (\<lambda>_. Gone)) (y\<lparr>g_hub := h\<rparr>)"
    using p by auto
  have "wire_inv (y\<lparr>g_hub := h\<rparr>)"
    using inv h(1) by (auto simp: wire_inv_def pending_def close_chan_def split: option.splits if_splits)
  then show ?thesis unfolding h(2) by (rule wire_set_conn) (simp add: good_conn_phase)
next
  case (Publish q)
  have b: "json_frames (Some (build_frames q))" using json_frames_build ok Publish by simp
  have y': "y' = y\<lparr>g_frames := Some (build_frames q), g_render := R_swapped (g_frames y) (build_frames q)\<rparr>"
    using p Publish by simp
  show ?thesis using inv b json_frames_sends [OF b] unfolding y' by (simp add: wire_inv_def pending_def)
next
  case Check
  with p en inv show ?thesis by (auto simp: wire_inv_def pending_def split: render_phase.splits if_splits)
next
  case (Event ev q ks)
  show ?thesis
  proof (rule wire_do_send [OF inv])
    show "do_send ks (sseFrame ev q) y = Some y'" using p Event by simp
    have "ev \<in> set event_names" using en Event by (auto simp: event_names_def)
    then show "json_frame b" if "sseFrame ev q = Some b" for b using json_frame_sse [OF _ _ that] ok Event by simp
  qed
next
  case (Pulse now)
  with p wire_hub [OF inv, of "hub_Pulse now (g_hub y)"] show ?thesis by (simp add: hub_Pulse_def)
next
  case (Send ks)
  show ?thesis
  proof (cases "\<exists>m ms. g_render y = R_sending (m # ms)")
    case True
    then obtain m ms where r: "g_render y = R_sending (m # ms)" by blast
    then obtain z where z: "do_send ks (Some m) y = Some z" "y' = z\<lparr>g_render := R_sending ms\<rparr>"
      using p Send by auto
    have m: "\<forall>b \<in> set (m # ms). json_frame b" using inv r by (simp add: wire_inv_def pending_def)
    have "wire_inv z" by (rule wire_do_send [OF inv z(1)]) (use m in auto)
    with z(2) m show ?thesis by (simp add: wire_inv_def pending_def)
  next
    case False
    then have "y' = y\<lparr>g_render := R_idle\<rparr>" using p Send by (auto split: render_phase.splits list.splits)
    with inv show ?thesis by (simp add: wire_inv_def pending_def)
  qed
next
  case (Relay c ok')
  with en obtain ch where ch: "h_chans (g_hub y) c = Some ch" "ch_buf ch \<noteq> []" and ph: "phase_of c y = Some Relaying"
    by (auto split: option.splits)
  let ?z = "y\<lparr>g_hub := (g_hub y)\<lparr>h_chans := (h_chans (g_hub y))(c \<mapsto> ch\<lparr>ch_buf := tl (ch_buf ch)\<rparr>)\<rparr>\<rparr>"
  have buf: "\<forall>b \<in> set (ch_buf ch). json_frame b" using inv ch(1) by (auto simp: wire_inv_def)
  have z: "wire_inv ?z" using inv buf by (auto simp: wire_inv_def pending_def dest: list.set_sel(2) [OF ch(2)])
  have "wire_inv (set_conn c (\<lambda>k. if ok' then k\<lparr>k_written := k_written k @ [W_msg (hd (ch_buf ch))]\<rparr> else k\<lparr>k_phase := Exiting\<rparr>) ?z)"
    by (rule wire_set_conn [OF z])
      (use ph buf ch(2) in \<open>auto simp: good_conn_phase good_conn_write phase_of_def\<close>)
  with p Relay ch(1) show ?thesis by simp
qed

lemma wire_inv_init: "sse_init y \<Longrightarrow> wire_inv y"
  by (auto simp: sse_init_def wire_inv_def json_frames_def pending_def newHub_def)

lemma wire_run: "wire_inv y \<Longrightarrow> run_sse as y = Some y' \<Longrightarrow> \<forall>a \<in> set as. wire_act a \<Longrightarrow> wire_inv y'"
proof (induction as arbitrary: y)
  case (Cons a as)
  then obtain z where z: "sse_enabled a y" "sse_perform a y = Some z" "run_sse as z = Some y'"
    by (auto split: if_splits bind_splits)
  have "wire_inv z" by (rule wire_perform [OF Cons.prems(1) z(1,2)]) (use Cons.prems(3) in simp)
  with Cons.IH [OF _ z(3)] Cons.prems(3) show ?case by simp
qed simp

text \<open>The events of a list of writes: one for each frame, none for a heartbeat.\<close>

lemma written_events:
  assumes "\<forall>b \<in> set bs. json_frame b \<or> b = ping"
  shows "\<exists>evs. event_stream (concat bs) = map (\<lambda>(ev, v). (ev, marshal v)) evs \<and>
    filter (\<lambda>b. b \<noteq> ping) bs = map (\<lambda>(ev, v). event_frame ev v) evs \<and>
    (\<forall>(ev, v) \<in> set evs. ev \<in> set event_names \<and> sendable v)"
  using assms
proof (induction bs)
  case Nil
  then show ?case by (auto simp: event_stream_def intro!: exI [of _ "[]"])
next
  case (Cons b bs)
  then obtain evs where evs: "event_stream (concat bs) = map (\<lambda>(ev, v). (ev, marshal v)) evs"
      "filter (\<lambda>b. b \<noteq> ping) bs = map (\<lambda>(ev, v). event_frame ev v) evs"
      "\<forall>(ev, v) \<in> set evs. ev \<in> set event_names \<and> sendable v" by auto
  show ?case
  proof (cases "b = ping")
    case True
    with evs show ?thesis by (intro exI [of _ evs]) (simp add: event_stream_ping)
  next
    case False
    with Cons.prems obtain ev v where b: "ev \<in> set event_names" "sendable v" "b = event_frame ev v"
      by (auto simp: json_frame_def)
    with evs False show ?thesis by (intro exI [of _ "(ev, v) # evs"]) (simp add: event_stream_frame sendable_def)
  qed
qed

text \<open>The data of the last event of a name, and the last frame of that name.\<close>

definition last_data :: "string \<Rightarrow> string \<Rightarrow> string option" where
  "last_data ev s = map_of (rev (event_stream s)) ev"

lemma kind_of_event_frame: "ev \<in> set event_names \<Longrightarrow> kind_of (event_frame ev v) = ev"
  using kind_of_sseFrame [OF sseFrame_event] event_names_simple [of ev] printable_no_break [of ev] by (simp add: newline_def)

lemma last_of_no_ping: "K \<noteq> [] \<Longrightarrow> last_of K (filter (\<lambda>b. b \<noteq> ping) bs) = last_of K bs"
  by (induction bs) (auto simp: kind_of_ping split: option.splits)

lemma last_of_event_frames:
  "\<forall>(ev, v) \<in> set evs. ev \<in> set event_names \<Longrightarrow>
   last_of K (map (\<lambda>(ev, v). event_frame ev v) evs) = map_option (event_frame K) (map_of (rev evs) K)"
  by (induction evs) (auto simp: kind_of_event_frame map_add_def split: option.splits)

lemma last_data_of:
  assumes "\<forall>b \<in> set bs. json_frame b \<or> b = ping" and "K \<noteq> []" and "last_of K bs = Some (event_frame K v)"
  shows "last_data K (concat bs) = Some (marshal v)"
proof -
  obtain evs where evs: "event_stream (concat bs) = map (\<lambda>(ev, v). (ev, marshal v)) evs"
      "filter (\<lambda>b. b \<noteq> ping) bs = map (\<lambda>(ev, v). event_frame ev v) evs"
      "\<forall>(ev, v) \<in> set evs. ev \<in> set event_names \<and> sendable v"
    using written_events [OF assms(1)] by blast
  have "last_of K (map (\<lambda>(ev, v). event_frame ev v) evs) = Some (event_frame K v)"
    using last_of_no_ping [OF assms(2), of bs] assms(3) evs(2) by simp
  then have "map_option (event_frame K) (map_of (rev evs) K) = Some (event_frame K v)"
    using last_of_event_frames [of evs K] evs(3) by (simp add: case_prod_unfold)
  then obtain w where w: "map_of (rev evs) K = Some w" "event_frame K w = event_frame K v" by auto
  have "map_of (rev (map (\<lambda>(ev, v). (ev, marshal v)) evs)) K = map_option marshal (map_of (rev evs) K)"
    by (simp add: rev_map map_of_map)
  with w evs(1) show ?thesis by (simp add: last_data_def event_frame_def)
qed

section \<open>Properties\<close>

text \<open>
  C16. What the browser reads is what was framed. On every run of the hub whose payloads come from
  \<^verbatim>\<open>json.Marshal\<close>, at every moment and for every connection, the event stream reader finds in
  the bytes written so far exactly the events of the frames written, in their order, heartbeats
  aside, and the data of each reads back as its value, with malformed UTF-8 replaced.
\<close>

theorem stream_is_events:
  assumes "sse_init y0" and "run_sse as y0 = Some y" and "\<forall>a \<in> set as. wire_act a" and "g_conns y c = Some k"
  shows "\<exists>evs. filter (\<lambda>b. b \<noteq> ping) (map frame_of (k_written k)) = map (\<lambda>(ev, v). event_frame ev v) evs \<and>
    event_stream (concat (map frame_of (k_written k))) = map (\<lambda>(ev, v). (ev, marshal v)) evs \<and>
    (\<forall>(ev, v) \<in> set evs. ev \<in> set event_names \<and> json_read max_nesting (marshal v) = Some (clean_json v, []))"
proof -
  have inv: "wire_inv y" by (rule wire_run [OF wire_inv_init [OF assms(1)] assms(2,3)])
  then have "\<forall>b \<in> set (map frame_of (k_written k)). json_frame b \<or> b = ping"
    using assms(4) by (auto simp: wire_inv_def good_conn_def stream_def)
  from written_events [OF this] obtain evs
    where evs: "event_stream (concat (map frame_of (k_written k))) = map (\<lambda>(ev, v). (ev, marshal v)) evs"
      "filter (\<lambda>b. b \<noteq> ping) (map frame_of (k_written k)) = map (\<lambda>(ev, v). event_frame ev v) evs"
      "\<forall>(ev, v) \<in> set evs. ev \<in> set event_names \<and> sendable v" by blast
  have "json_read max_nesting (marshal v) = Some (clean_json v, [])" if "sendable v" for v
    using json_read_marshal [of v max_nesting "[]"] that by (simp add: sendable_def ends_def)
  with evs show ?thesis by (intro exI [of _ evs]) auto
qed

text \<open>A client that is greeted, gets one render and a heartbeat, and is sent a text with a line break.\<close>

definition wire_demo_run :: "sse_act list" where
  "wire_demo_run = [Attach 0, Greet 0 (Some (marshal (JObj [(''host'', JStr ''puck'')]))) 5, Write 0 True, Write 0 True,
     Publish \<lparr>p_hello = Some (marshal JNull), p_stats = None, p_devices = Some (marshal (JArr [JBool True])),
       p_cache = None, p_services = None\<rparr>, Check, Send [0], Send [0], Relay 0 True, Heartbeat 0 True,
     Event ''scan'' (Some (marshal (JStr [CHR 0x0A, CHR ''<'']))) [0], Relay 0 True]"

definition wire_demo_start :: sse_sys where
  "wire_demo_start = \<lparr>g_hub = newHub 30, g_frames = None, g_render = R_idle, g_conns = Map.empty\<rparr>"

lemma sse_init_wire_demo: "sse_init wire_demo_start"
  by (auto simp: sse_init_def wire_demo_start_def)

lemma marshalled_marshal: "sendable v \<Longrightarrow> marshalled (Some (marshal v))" "marshalled None"
  by (auto simp: marshalled_def)

lemma stream_is_events_witness:
  "\<exists>y k evs. run_sse wire_demo_run wire_demo_start = Some y \<and> g_conns y 0 = Some k \<and> length evs = 3 \<and>
    event_stream (concat (map frame_of (k_written k))) = map (\<lambda>(ev, v). (ev, marshal v)) evs"
proof -
  have "run_sse wire_demo_run wire_demo_start \<noteq> None" by code_simp
  then obtain y where y: "run_sse wire_demo_run wire_demo_start = Some y" by auto
  have "case run_sse wire_demo_run wire_demo_start of None \<Rightarrow> False
      | Some y \<Rightarrow> (case g_conns y 0 of None \<Rightarrow> False
          | Some k \<Rightarrow> length (event_stream (concat (map frame_of (k_written k)))) = 3)" by code_simp
  then obtain k where k: "g_conns y 0 = Some k" "length (event_stream (concat (map frame_of (k_written k)))) = 3"
    unfolding y by (auto split: option.splits)
  have acts: "\<forall>a \<in> set wire_demo_run. wire_act a"
    by (simp add: wire_demo_run_def marshalled_marshal sendable_def max_nesting_def del: marshal.simps)
  from stream_is_events [OF sse_init_wire_demo y acts k(1)] obtain evs
    where "event_stream (concat (map frame_of (k_written k))) = map (\<lambda>(ev, v). (ev, marshal v)) evs" by blast
  with y k show ?thesis by (intro exI [of _ y] exI [of _ k] exI [of _ evs]) (auto dest: arg_cong [of _ _ length])
qed

end
