(* ===== verification/Wire.thy ===== *)
theory Wire
  imports EventStream HubSpecs Routes Services Sysinfo Wake ScanFeed
begin

text \<open>
  The payloads on the wire: the JSON form of every struct the server sends, field by field in the
  order and under the keys of its tags, with \<^verbatim>\<open>omitempty\<close> and the difference between a nil and an
  empty slice where the code can produce either. The text of a \<^verbatim>\<open>float64\<close> is an argument \<open>fl\<close>;
  only that it is a JSON number is assumed of it.
\<close>

section \<open>Structs as JSON\<close>

abbreviation j_int :: "int \<Rightarrow> json" where "j_int i \<equiv> JNum (int_string i)"

definition icmp_json :: "icmp_result \<Rightarrow> json" where
  "icmp_json r = JObj [(''st'', JStr (ic_St r)), (''rtt'', j_int (ic_RTT r))]"

definition probe_json :: "probe_view \<Rightarrow> json" where
  "probe_json p = JObj ([(''port'', j_int (pv_Port p)), (''st'', JStr (pv_St p)), (''rtt'', j_int (pv_RTT p))] @
     (if pv_Note p = [] then [] else [(''note'', JStr (pv_Note p))]))"

definition opt_json :: "('a \<Rightarrow> json) \<Rightarrow> 'a option \<Rightarrow> json" where
  "opt_json f x = (case x of None \<Rightarrow> JNull | Some y \<Rightarrow> f y)"

text \<open>\<^verbatim>\<open>deviceView\<close>. Its probes are never the nil slice.\<close>

definition device_json :: "device_view \<Rightarrow> json" where
  "device_json v = JObj [(''mac'', JStr (dv_MAC v)), (''ip'', JStr (dv_IP v)), (''name'', JStr (dv_Name v)),
     (''vendor'', JStr (dv_Vendor v)), (''seen'', JStr (dv_Seen v)), (''arp'', JStr (dv_Arp v)),
     (''icmp'', opt_json icmp_json (dv_Icmp v)), (''probes'', JArr (map probe_json (dv_Probes v))),
     (''seenL2'', JBool (dv_SeenL2 v)), (''unseenSec'', j_int (dv_UnseenSec v)), (''icmpSeen'', JBool (dv_IcmpSeen v))]"

definition devices_json :: "device_view list \<Rightarrow> json" where
  "devices_json vs = JArr (map device_json vs)"

definition cache_row_json :: "cache_view \<Rightarrow> json" where
  "cache_row_json v = JObj [(''ip'', JStr (cv_IP v)), (''mac'', JStr (cv_MAC v)), (''name'', JStr (cv_Name v)),
     (''vendor'', JStr (cv_Vendor v)), (''state'', JStr (cv_State v)), (''seen'', JStr (cv_Seen v))]"

definition cache_json :: "cache_view list \<Rightarrow> json" where
  "cache_json vs = JArr (map cache_row_json vs)"

text \<open>The services are appended to a nil slice: without any the payload is \<^verbatim>\<open>null\<close>.\<close>

definition nil_json :: "('a \<Rightarrow> json) \<Rightarrow> 'a list \<Rightarrow> json" where
  "nil_json f vs = (if vs = [] then JNull else JArr (map f vs))"

definition service_json :: "service_view \<Rightarrow> json" where
  "service_json v = JObj [(''name'', JStr (se_Name v)), (''url'', JStr (se_URL v)), (''detail'', JStr (se_Detail v)),
     (''up'', JBool (se_Up v))]"

definition services_json :: "service_view list \<Rightarrow> json" where
  "services_json vs = nil_json service_json vs"

definition ts_json :: "ts_info \<Rightarrow> json" where
  "ts_json i = JObj [(''state'', JStr (ti_State i)), (''name'', JStr (ti_Name i)), (''magicdns'', JBool (ti_MagicDNS i)),
     (''exit_node'', JBool (ti_ExitNode i))]"

definition cpu_json :: "(rat \<Rightarrow> string) \<Rightarrow> bool \<Rightarrow> cpu \<Rightarrow> json" where
  "cpu_json fl primed c = JObj [(''pct'', JNum (fl (cp_Pct c))),
     (''cores'', if primed then nil_json (\<lambda>x. JNum (fl x)) (cp_Cores c) else JArr (map (\<lambda>x. JNum (fl x)) (cp_Cores c))),
     (''load'', JArr (map (\<lambda>x. JNum (fl x)) (cp_Load c))), (''temp'', JNum (fl (cp_TempC c)))]"

definition mem_json :: "(rat \<Rightarrow> string) \<Rightarrow> mem \<Rightarrow> json" where
  "mem_json fl m = JObj [(''pct'', JNum (fl (me_Pct m))), (''usedMB'', j_int (me_UsedMB m)),
     (''totalMB'', j_int (me_TotalMB m)), (''disabled'', JBool (me_Disabled m))]"

definition disk_json :: "(rat \<Rightarrow> string) \<Rightarrow> disk \<Rightarrow> json" where
  "disk_json fl d = JObj [(''pct'', JNum (fl (dk_Pct d))), (''usedGB'', JNum (fl (dk_UsedGB d))),
     (''totalGB'', JNum (fl (dk_TotalGB d)))]"

definition net_json :: "(rat \<Rightarrow> string) \<Rightarrow> net \<Rightarrow> json" where
  "net_json fl n = JObj [(''rxKBs'', JNum (fl (nt_RxKBs n))), (''txKBs'', JNum (fl (nt_TxKBs n))),
     (''rx'', JArr (map (\<lambda>x. JNum (fl x)) (nt_Rx n))), (''tx'', JArr (map (\<lambda>x. JNum (fl x)) (nt_Tx n)))]"

text \<open>
  \<^verbatim>\<open>statsPayload\<close>: the fields of the embedded \<^verbatim>\<open>Stats\<close>, then the tailnet state unless it is nil.
  \<open>primed\<close>: the sampler had an earlier reading, whose cores are appended to a nil slice.
\<close>

definition stats_json :: "(rat \<Rightarrow> string) \<Rightarrow> bool \<Rightarrow> stats \<Rightarrow> ts_info option \<Rightarrow> json" where
  "stats_json fl primed st ts = JObj ([(''uptimeSec'', j_int (st_UptimeSec st)), (''cpu'', cpu_json fl primed (st_CPU st)),
     (''mem'', mem_json fl (st_Mem st)), (''swap'', mem_json fl (st_Swap st)), (''disk'', disk_json fl (st_Disk st)),
     (''net'', net_json fl (st_Net st))] @ (case ts of None \<Rightarrow> [] | Some i \<Rightarrow> [(''ts'', ts_json i)]))"

definition info_json :: "net_info \<Rightarrow> json" where
  "info_json n = JObj [(''iface'', JStr (ni_Iface n)), (''ip'', JStr (ni_IP n)), (''cidr'', JStr (ni_CIDR n)),
     (''broadcast'', JStr (ni_Broadcast n)), (''gateway'', JStr (ni_Gateway n)), (''dns'', nil_json JStr (ni_DNS n)),
     (''ts_ip'', JStr (ni_TSIP n))]"

text \<open>The hello is a map: its keys are sorted.\<close>

definition hello_json :: "hello \<Rightarrow> json" where
  "hello_json h = JObj [(''host'', JStr (he_host h)), (''net'', info_json (he_net h)), (''version'', JStr (he_version h))]"

definition wake_json :: "wake_event \<Rightarrow> json" where
  "wake_json e = JObj [(''mac'', JStr (we_MAC e)), (''elapsed'', j_int (we_Elapsed e)), (''timeout'', j_int (we_Timeout e)),
     (''packets'', j_int (int (we_Packets e))), (''arp'', JStr (we_Arp e)), (''icmp'', opt_json icmp_json (we_Icmp e)),
     (''probes'', JArr (map probe_json (we_Probes e))), (''up'', JBool (we_Up e)), (''done'', JBool (we_Done e))]"

definition scan_json :: "scan_event \<Rightarrow> json" where
  "scan_json e = JObj ([(''state'', JStr (sc_State e)), (''pct'', j_int (int (sc_Pct e))), (''msg'', JStr (sc_Msg e))] @
     (if sc_Results e = [] then [] else [(''results'', JArr (map cache_row_json (sc_Results e)))]))"

definition result_json :: "name_result \<Rightarrow> json" where
  "result_json r = JObj [(''name'', JStr (nr_Name r)), (''source'', JStr (nr_Source r)), (''vendor'', JStr (nr_Vendor r))]"

text \<open>\<^verbatim>\<open>writeJSON\<close> and \<^verbatim>\<open>writeErr\<close>: the encoder ends a value with a line break.\<close>

definition writeJSON :: "json \<Rightarrow> string" where
  "writeJSON v = marshal v @ [newline]"

definition error_json :: "string \<Rightarrow> json" where
  "error_json msg = JObj [(''error'', JStr msg)]"

section \<open>The payloads of a render\<close>

definition view_payloads :: "(rat \<Rightarrow> string) \<Rightarrow> hello \<Rightarrow> bool \<Rightarrow> stats \<Rightarrow> ts_info option \<Rightarrow>
    device_view list \<Rightarrow> cache_view list \<Rightarrow> service_view list \<Rightarrow> payloads" where
  "view_payloads fl h primed st ts devs cache svcs = \<lparr>p_hello = Some (marshal (hello_json h)),
     p_stats = Some (marshal (stats_json fl primed st ts)), p_devices = Some (marshal (devices_json devs)),
     p_cache = Some (marshal (cache_json cache)), p_services = Some (marshal (services_json svcs))\<rparr>"

named_theorems wire_json
lemmas [wire_json] = icmp_json_def probe_json_def opt_json_def device_json_def devices_json_def cache_row_json_def cache_json_def
  nil_json_def service_json_def services_json_def ts_json_def cpu_json_def mem_json_def disk_json_def net_json_def
  stats_json_def info_json_def hello_json_def wake_json_def scan_json_def result_json_def error_json_def

text \<open>Every payload can be sent and read.\<close>

lemma nests_shallow: "nests 10 v \<Longrightarrow> nests max_nesting v"
proof -
  have mono: "nests d v \<Longrightarrow> d \<le> e \<Longrightarrow> nests e v" for d e
    by (induction d v arbitrary: e rule: nests.induct) (auto intro: diff_le_mono)
  assume "nests 10 v"
  then show "nests max_nesting v" by (rule mono) (simp add: max_nesting_def)
qed

lemma sendable_views:
  "sendable (devices_json vs)" "sendable (cache_json cs)" "sendable (services_json ss)" "sendable (hello_json h)"
  "sendable (wake_json w)" "sendable (scan_json e)" "sendable (result_json r)" "sendable (error_json msg)"
  unfolding sendable_def
  by (intro conjI nests_shallow; auto simp: wire_json split: option.splits)+

lemma sendable_stats: "(\<And>x. number_text (fl x)) \<Longrightarrow> sendable (stats_json fl primed st ts)"
  unfolding sendable_def by (intro conjI nests_shallow; auto simp: wire_json split: option.splits)

section \<open>The bytes tell the rows apart\<close>

lemma nat_string_inj: "nat_string m = nat_string n \<longleftrightarrow> m = n"
  by (metis option.inject parse_nat_string)

lemma int_string_inj [simp]: "int_string i = int_string j \<longleftrightarrow> i = j"
proof -
  have "hd (nat_string n) \<noteq> CHR ''-''" for n
    using nat_string_dec [of n] by (cases "nat_string n") (auto simp: is_dec_def dec_val_def)
  then have "CHR ''-'' # t \<noteq> nat_string n" for t n by (metis list.sel(1))
  then show ?thesis by (auto simp: int_string_def nat_string_inj split: if_splits) (metis+)?
qed

lemma icmp_json_inj: "icmp_json a = icmp_json b \<longleftrightarrow> a = b"
  by (cases a; cases b) (simp add: icmp_json_def)

lemma probe_json_inj: "probe_json a = probe_json b \<longleftrightarrow> a = b"
  by (cases a; cases b) (auto simp: probe_json_def)

lemma map_json_inj: "(\<And>a b. f a = f b \<longleftrightarrow> a = b) \<Longrightarrow> map f xs = map f ys \<longleftrightarrow> xs = ys"
  by (rule inj_map_eq_map) (simp add: inj_def)

lemma opt_json_inj: "(\<And>a b. f a = f b \<longleftrightarrow> a = b) \<Longrightarrow> (\<And>a. f a \<noteq> JNull) \<Longrightarrow> opt_json f x = opt_json f y \<longleftrightarrow> x = y"
  by (cases x; cases y) (auto simp: opt_json_def dest: sym)

lemma device_json_inj: "device_json a = device_json b \<longleftrightarrow> a = b"
proof -
  have "icmp_json r \<noteq> JNull" for r by (simp add: icmp_json_def)
  then have "opt_json icmp_json x = opt_json icmp_json y \<longleftrightarrow> x = y" for x y
    by (intro opt_json_inj icmp_json_inj)
  moreover have "map probe_json ps = map probe_json qs \<longleftrightarrow> ps = qs" for ps qs by (intro map_json_inj probe_json_inj)
  ultimately show ?thesis by (cases a; cases b) (simp add: device_json_def)
qed

lemma devices_json_inj: "devices_json xs = devices_json ys \<longleftrightarrow> xs = ys"
  by (simp add: devices_json_def map_json_inj [OF device_json_inj])

lemma cache_json_inj: "cache_json xs = cache_json ys \<longleftrightarrow> xs = ys"
proof -
  have "cache_row_json a = cache_row_json b \<longleftrightarrow> a = b" for a b by (cases a; cases b) (simp add: cache_row_json_def)
  from map_json_inj [OF this] show ?thesis by (simp add: cache_json_def)
qed

lemma services_json_inj: "services_json xs = services_json ys \<longleftrightarrow> xs = ys"
proof -
  have "service_json a = service_json b \<longleftrightarrow> a = b" for a b by (cases a; cases b) (simp add: service_json_def)
  from map_json_inj [OF this, of xs ys] show ?thesis by (auto simp: services_json_def nil_json_def)
qed

lemma changed_marshalled:
  assumes "sendable v" "sendable w" and "utf8_json v" "utf8_json w"
  shows "changed (sseFrame ev (Some (marshal v))) (sseFrame ev (Some (marshal w))) \<longleftrightarrow> v \<noteq> w"
  using marshal_inj [of v w max_nesting] assms by (auto simp: changed_def sseFrame_event event_frame_def sendable_def)

section \<open>Properties\<close>

text \<open>
  C15. The comparison of bytes that decides what is broadcast is a comparison of rows. For views
  in UTF-8, the devices, cache and services frames of two renders differ exactly when the rows do.
\<close>

theorem changed_is_new_rows:
  assumes "utf8_json (devices_json ds)" "utf8_json (devices_json ds')" and "utf8_json (cache_json cs)" "utf8_json (cache_json cs')"
    and "utf8_json (services_json ss)" "utf8_json (services_json ss')"
  shows "(changed (f_devices (build_frames (view_payloads fl h pr st ts ds cs ss)))
        (f_devices (build_frames (view_payloads fl h' pr' st' ts' ds' cs' ss'))) \<longleftrightarrow> ds \<noteq> ds') \<and>
    (changed (f_cache (build_frames (view_payloads fl h pr st ts ds cs ss)))
        (f_cache (build_frames (view_payloads fl h' pr' st' ts' ds' cs' ss'))) \<longleftrightarrow> cs \<noteq> cs') \<and>
    (changed (f_services (build_frames (view_payloads fl h pr st ts ds cs ss)))
        (f_services (build_frames (view_payloads fl h' pr' st' ts' ds' cs' ss'))) \<longleftrightarrow> ss \<noteq> ss')"
  using assms
  by (simp add: build_frames_def view_payloads_def changed_marshalled sendable_views devices_json_inj cache_json_inj services_json_inj)

text \<open>
  C3. A dashboard that keeps up shows what is published. Between two renders of a run whose frames
  are built from views, a client that is relaying, has drained its buffer and lost no frame has
  received bytes whose last devices, cache and services events hold the JSON of exactly the
  published rows, and that JSON reads back as those rows, malformed UTF-8 aside.
\<close>

theorem browser_shows_published:
  assumes "sse_init y0" and "run_sse as y0 = Some y" and "\<forall>a \<in> set as. wire_act a"
    and "g_render y = R_idle" and "g_conns y c = Some k" and "k_phase k = Relaying" and "k_dropped k = 0"
    and "h_chans (g_hub y) c = Some ch" and "ch_buf ch = []"
    and "g_frames y = Some (build_frames (view_payloads fl h pr st ts ds cs ss))"
    and "(ev, v) \<in> {(''devices'', devices_json ds), (''cache'', cache_json cs), (''services'', services_json ss)}"
  shows "last_data ev (concat (map frame_of (k_written k))) = Some (marshal v) \<and>
    json_read max_nesting (marshal v) = Some (clean_json v, [])"
proof -
  have "reachable sse_init sse_step y" by (rule run_sse_reachable [OF _ assms(2)]) (rule reach_init, rule assms(1))
  then have "sse_inv y" by (rule sse.reachable_inv)
  with assms(5,8) have view: "conn_view (pending y) (\<lambda>K. published K y) k ch"
    unfolding sse_inv_def by (metis conns_okD option.inject)
  have inv: "wire_inv y" by (rule wire_run [OF wire_inv_init [OF assms(1)] assms(2,3)])
  have last: "last_of (event K) (map frame_of (k_written k)) = Some x" if "published K y = Some x" for K x
    using view that assms(4,6,7,9) by (auto simp: conn_view_def pending_def stream_def active_phase_def client_phase_def)
  have "last_of ev (map frame_of (k_written k)) = Some (event_frame ev v)"
    using assms(10,11) last [of Devices] last [of Cache] last [of Services]
    by (auto simp: published_def build_frames_def view_payloads_def sseFrame_event event.simps)
  moreover have "\<forall>b \<in> set (map frame_of (k_written k)). json_frame b \<or> b = ping"
    using inv assms(5) by (auto simp: wire_inv_def good_conn_def stream_def)
  moreover have "ev \<noteq> []" using assms(11) by auto
  ultimately have "last_data ev (concat (map frame_of (k_written k))) = Some (marshal v)" by (intro last_data_of)
  moreover have "sendable v" using assms(11) sendable_views by auto
  then have "json_read max_nesting (marshal v) = Some (clean_json v, [])"
    using json_read_marshal [of v max_nesting "[]"] by (simp add: sendable_def ends_def)
  ultimately show ?thesis by simp
qed

section \<open>Concrete views\<close>

definition wire_hello :: hello where
  "wire_hello = \<lparr>he_host = ''puck'', he_version = ''v1'', he_net = \<lparr>ni_Iface = ''br0'', ni_IP = ''10.0.0.2'', ni_CIDR = ''10.0.0.0/24'',
     ni_Broadcast = ''10.0.0.255'', ni_Gateway = ''10.0.0.1'', ni_DNS = [''10.0.0.1''], ni_TSIP = [], ni_ipNet = \<lparr>n_IP = [10, 0, 0, 0], n_Mask = [255, 255, 255, 0]\<rparr>\<rparr>\<rparr>"

definition wire_stats :: stats where
  "wire_stats = \<lparr>st_UptimeSec = 60, st_CPU = \<lparr>cp_Pct = 0, cp_Cores = [0, 0], cp_Load = [0, 0, 0], cp_TempC = 0\<rparr>,
     st_Mem = no_mem, st_Swap = no_mem, st_Disk = \<lparr>dk_Pct = 0, dk_UsedGB = 0, dk_TotalGB = 0\<rparr>,
     st_Net = \<lparr>nt_RxKBs = 0, nt_TxKBs = 0, nt_Rx = [0], nt_Tx = [0]\<rparr>\<rparr>"

definition wire_device :: device_view where
  "wire_device = \<lparr>dv_MAC = ''02:00:00:00:00:0a'', dv_IP = ''10.0.0.7'', dv_Name = ''tv <1>'', dv_Vendor = [], dv_Seen = ''now'',
     dv_Arp = ''REACHABLE'', dv_Icmp = Some \<lparr>ic_St = ''up'', ic_RTT = 3\<rparr>,
     dv_Probes = [\<lparr>pv_Port = 22, pv_St = ''open'', pv_RTT = 2, pv_Note = []\<rparr>], dv_SeenL2 = True, dv_UnseenSec = 0, dv_IcmpSeen = True\<rparr>"

definition wire_row :: cache_view where
  "wire_row = \<lparr>cv_IP = ''10.0.0.9'', cv_MAC = ''02:00:00:00:00:0b'', cv_Name = [], cv_Vendor = ''Acme'', cv_State = ''STALE'', cv_Seen = ''2m''\<rparr>"

definition wire_service :: service_view where
  "wire_service = \<lparr>se_Name = ''grafana'', se_URL = ''https://g/'', se_Detail = ''proxy'', se_Up = True\<rparr>"

abbreviation wire_payloads :: payloads where
  "wire_payloads \<equiv> view_payloads (\<lambda>_. ''0'') wire_hello True wire_stats None [wire_device] [wire_row] [wire_service]"

definition wire_render_run :: "sse_act list" where
  "wire_render_run = [Attach 0, Greet 0 (Some (marshal (hello_json wire_hello))) 5, Write 0 True, Write 0 True,
     Publish wire_payloads, sse_act.Check] @ replicate 5 (sse_act.Send [0]) @ replicate 4 (Relay 0 True)"

lemmas wire_demo_defs = wire_hello_def wire_stats_def wire_device_def wire_row_def wire_service_def

lemma changed_is_new_rows_witness:
  "changed (f_devices (build_frames wire_payloads))
     (f_devices (build_frames (view_payloads (\<lambda>_. ''0'') wire_hello True wire_stats None [] [wire_row] [])))"
proof -
  have "utf8_json (devices_json [wire_device])" "utf8_json (devices_json [])" "utf8_json (cache_json [wire_row])"
    "utf8_json (services_json [wire_service])" "utf8_json (services_json [])" by code_simp+
  from changed_is_new_rows [OF this(1,2) this(3,3) this(4,5)] show ?thesis by blast
qed

lemma browser_shows_published_witness:
  "\<exists>y k. run_sse wire_render_run wire_demo_start = Some y \<and> g_conns y 0 = Some k \<and>
    last_data ''devices'' (concat (map frame_of (k_written k))) = Some (marshal (devices_json [wire_device]))"
proof -
  have run: "case run_sse wire_render_run wire_demo_start of None \<Rightarrow> False
      | Some y \<Rightarrow> g_render y = R_idle \<and> g_frames y = Some (build_frames wire_payloads) \<and>
         (case (g_conns y 0, h_chans (g_hub y) 0) of
            (Some k, Some ch) \<Rightarrow> k_phase k = Relaying \<and> k_dropped k = 0 \<and> ch_buf ch = []
          | _ \<Rightarrow> False)" by code_simp
  then obtain y where y: "run_sse wire_render_run wire_demo_start = Some y" by (auto split: option.splits)
  with run obtain k ch where k: "g_render y = R_idle" "g_conns y 0 = Some k" "k_phase k = Relaying" "k_dropped k = 0"
      "h_chans (g_hub y) 0 = Some ch" "ch_buf ch = []" "g_frames y = Some (build_frames wire_payloads)"
    by (auto split: option.splits)
  have "number_text ''0''" by code_simp
  then have "marshalled (p_stats wire_payloads)"
    using sendable_stats [of "\<lambda>_. ''0''" True wire_stats None] by (simp add: view_payloads_def marshalled_marshal del: marshal.simps)
  then have acts: "\<forall>a \<in> set wire_render_run. wire_act a"
    by (simp add: wire_render_run_def view_payloads_def marshalled_marshal sendable_views del: marshal.simps)
  from browser_shows_published [OF sse_init_wire_demo y acts k(1-7), of "''devices''" "devices_json [wire_device]"] y k(2)
  show ?thesis by simp
qed

end
