(* ===== verification/Bodies.thy ===== *)
theory Bodies
  imports Json Routes ApiSpecs
begin

text \<open>
  Request bodies, from their bytes: \<^verbatim>\<open>decode\<close> of \<^verbatim>\<open>server/api.go\<close> on the structs the four handlers read
  into. \<^verbatim>\<open>json.Decoder\<close> takes the first value of the body and leaves the rest unread; it finds a
  field by its exact name or else by its folded name, sets the fields in the order of the members,
  skips unknown members, and fails when a value has not the type of its field. \<^verbatim>\<open>null\<close> sets a pointer
  to nil and leaves any other field, or a whole struct, as it is. With that, a request is its bytes.
\<close>

section \<open>Finding the field\<close>

text \<open>
  \<^verbatim>\<open>foldName\<close>, as far as it tells ASCII names apart: letters become upper case, the Kelvin sign folds
  to K and the long s to S; no other rune folds to an ASCII one.
\<close>

fun fold_name :: "string \<Rightarrow> string" where
  "fold_name [] = []"
| "fold_name (c # s) =
     (if c = CHR 0xC5 \<and> s \<noteq> [] \<and> hd s = CHR 0xBF then CHR ''S'' # fold_name (drop 1 s)
      else if c = CHR 0xE2 \<and> take 2 s = [CHR 0x84, CHR 0xAA] then CHR ''K'' # fold_name (drop 2 s)
      else upper_char c # fold_name s)"

definition match_field :: "string list \<Rightarrow> string \<Rightarrow> string option" where
  "match_field names key = (if key \<in> set names then Some key else find (\<lambda>n. fold_name n = fold_name key) names)"

section \<open>Decoding into a struct\<close>

fun set_fields :: "string list \<Rightarrow> (string \<Rightarrow> json \<Rightarrow> 'r \<Rightarrow> 'r option) \<Rightarrow> (string \<times> json) list \<Rightarrow> 'r \<Rightarrow> 'r option" where
  "set_fields names store [] r = Some r"
| "set_fields names store ((k, v) # ms) r =
     (case match_field names k of
        None \<Rightarrow> set_fields names store ms r
      | Some n \<Rightarrow> (case store n v r of None \<Rightarrow> None | Some r' \<Rightarrow> set_fields names store ms r'))"

definition decode :: "string list \<Rightarrow> (string \<Rightarrow> json \<Rightarrow> 'r \<Rightarrow> 'r option) \<Rightarrow> 'r \<Rightarrow> string \<Rightarrow> 'r option" where
  "decode names store zero body =
     (case json_read max_nesting body of
        Some (JObj ms, rest) \<Rightarrow> set_fields names store ms zero
      | Some (JNull, rest) \<Rightarrow> Some zero
      | _ \<Rightarrow> None)"

text \<open>The value of a \<^verbatim>\<open>string\<close>, \<^verbatim>\<open>bool\<close>, \<^verbatim>\<open>int\<close> and \<^verbatim>\<open>*string\<close> field after a member.\<close>

fun to_text :: "json \<Rightarrow> string \<Rightarrow> string option" where
  "to_text JNull old = Some old"
| "to_text (JStr s) old = Some s"
| "to_text _ old = None"

fun to_bool :: "json \<Rightarrow> bool \<Rightarrow> bool option" where
  "to_bool JNull old = Some old"
| "to_bool (JBool b) old = Some b"
| "to_bool _ old = None"

fun to_int :: "json \<Rightarrow> int \<Rightarrow> int option" where
  "to_int JNull old = Some old"
| "to_int (JNum t) old = Atoi t"
| "to_int _ old = None"

fun to_pointer :: "json \<Rightarrow> string option option" where
  "to_pointer JNull = Some None"
| "to_pointer (JStr s) = Some (Some s)"
| "to_pointer _ = None"

section \<open>The bodies\<close>

definition track_names :: "string list" where
  "track_names = [''MAC'', ''IP'', ''Name'', ''manual'']"

definition store_track :: "string \<Rightarrow> json \<Rightarrow> track_body \<Rightarrow> track_body option" where
  "store_track n v b =
     (if n = ''MAC'' then map_option (\<lambda>s. b\<lparr>tb_MAC := s\<rparr>) (to_text v (tb_MAC b))
      else if n = ''IP'' then map_option (\<lambda>s. b\<lparr>tb_IP := s\<rparr>) (to_text v (tb_IP b))
      else if n = ''Name'' then map_option (\<lambda>s. b\<lparr>tb_Name := s\<rparr>) (to_text v (tb_Name b))
      else map_option (\<lambda>x. b\<lparr>tb_Manual := x\<rparr>) (to_bool v (tb_Manual b)))"

definition decode_track :: "string \<Rightarrow> track_body option" where
  "decode_track = decode track_names store_track \<lparr>tb_MAC = [], tb_IP = [], tb_Name = [], tb_Manual = False\<rparr>"

definition patch_names :: "string list" where
  "patch_names = [''name'', ''link'', ''notes'', ''ip'']"

definition no_patch :: patch_body where
  "no_patch = \<lparr>pb_Name = None, pb_Link = None, pb_Notes = None, pb_IP = None\<rparr>"

definition store_patch :: "string \<Rightarrow> json \<Rightarrow> patch_body \<Rightarrow> patch_body option" where
  "store_patch n v b =
     (if n = ''name'' then map_option (\<lambda>s. b\<lparr>pb_Name := s\<rparr>) (to_pointer v)
      else if n = ''link'' then map_option (\<lambda>s. b\<lparr>pb_Link := s\<rparr>) (to_pointer v)
      else if n = ''notes'' then map_option (\<lambda>s. b\<lparr>pb_Notes := s\<rparr>) (to_pointer v)
      else map_option (\<lambda>s. b\<lparr>pb_IP := s\<rparr>) (to_pointer v))"

definition decode_patch :: "string \<Rightarrow> patch_body option" where
  "decode_patch = decode patch_names store_patch no_patch"

definition decode_port :: "string \<Rightarrow> int option" where
  "decode_port = decode [''port''] (\<lambda>n. to_int) 0"

definition decode_cidr :: "string \<Rightarrow> string option" where
  "decode_cidr = decode [''cidr''] (\<lambda>n. to_text) []"

section \<open>A request as its bytes\<close>

record raw_request =
  rq_method :: string
  rq_path :: string
  rq_body :: string

text \<open>What each handler would read from the body; only the one the route names does.\<close>

definition decoded :: "raw_request \<Rightarrow> http_request" where
  "decoded r = \<lparr>hq_method = rq_method r, hq_path = rq_path r, hq_track = decode_track (rq_body r),
     hq_patch = decode_patch (rq_body r), hq_port = decode_port (rq_body r), hq_cidr = decode_cidr (rq_body r)\<rparr>"

definition raw_serve :: "surroundings \<Rightarrow> raw_request \<Rightarrow> site \<Rightarrow> reply \<times> site" where
  "raw_serve x r st = http_serve x (decoded r) st"

section \<open>Members by folded name\<close>

lemma upper_lower_fold [simp]: "fold_name ''MAC'' = ''MAC''" "fold_name ''IP'' = ''IP''" "fold_name ''Name'' = ''NAME''"
  "fold_name ''manual'' = ''MANUAL''" "fold_name ''name'' = ''NAME''" "fold_name ''link'' = ''LINK''" "fold_name ''notes'' = ''NOTES''"
  "fold_name ''ip'' = ''IP''" "fold_name ''port'' = ''PORT''" "fold_name ''cidr'' = ''CIDR''" "fold_name ''mac'' = ''MAC''"
  by code_simp+

declare fold_name.simps [simp del]

lemma match_field_fold:
  assumes "distinct (map fold_name names)"
  shows "match_field names k = find (\<lambda>n. fold_name n = fold_name k) names"
proof (cases "k \<in> set names")
  case True
  with assms have "find (\<lambda>n. fold_name n = fold_name k) names = Some k"
    by (induction names) (auto simp: image_iff)
  with True show ?thesis by (simp add: match_field_def)
qed (simp add: match_field_def)

lemma find_flip: "find (\<lambda>n. fold_name n = x) names = find (\<lambda>n. x = fold_name n) names"
  by (rule find_cong) auto

lemma match_field_track: "match_field track_names k =
    (if fold_name k = ''MAC'' then Some ''MAC'' else if fold_name k = ''IP'' then Some ''IP''
     else if fold_name k = ''NAME'' then Some ''Name'' else if fold_name k = ''MANUAL'' then Some ''manual'' else None)"
proof -
  have d: "distinct (map fold_name track_names)" by (simp add: track_names_def)
  show ?thesis unfolding match_field_fold [OF d] find_flip by (simp add: track_names_def)
qed

lemma match_field_patch: "match_field patch_names k =
    (if fold_name k = ''NAME'' then Some ''name'' else if fold_name k = ''LINK'' then Some ''link''
     else if fold_name k = ''NOTES'' then Some ''notes'' else if fold_name k = ''IP'' then Some ''ip'' else None)"
proof -
  have d: "distinct (map fold_name patch_names)" by (simp add: patch_names_def)
  show ?thesis unfolding match_field_fold [OF d] find_flip by (simp add: patch_names_def)
qed

lemma match_field_one: "match_field [n] k = (if fold_name k = fold_name n then Some n else None)"
  by (simp add: match_field_fold)

text \<open>The value of the last member whose name folds to \<open>K\<close>.\<close>

definition last_member :: "string \<Rightarrow> (string \<times> json) list \<Rightarrow> json option" where
  "last_member K ms = map_of (rev (map (\<lambda>(k, v). (fold_name k, v)) ms)) K"

lemma last_member_simps [simp]:
  "last_member K [] = None"
  "last_member K ((k, v) # ms) = (case last_member K ms of None \<Rightarrow> if fold_name k = K then Some v else None | Some w \<Rightarrow> Some w)"
  by (auto simp: last_member_def map_add_def split: option.splits)

definition pointer_after :: "string option \<Rightarrow> json option \<Rightarrow> string option" where
  "pointer_after old m = (case m of None \<Rightarrow> old | Some (JStr s) \<Rightarrow> Some s | Some _ \<Rightarrow> None)"

definition text_or_null :: "json \<Rightarrow> bool" where
  "text_or_null v \<longleftrightarrow> to_pointer v \<noteq> None"

definition last_text :: "string \<Rightarrow> (string \<times> json) list \<Rightarrow> string option" where
  "last_text K ms = (case last_member K ms of Some (JStr s) \<Rightarrow> Some s | _ \<Rightarrow> None)"

definition object_or_null :: "string \<Rightarrow> bool" where
  "object_or_null body \<longleftrightarrow> (case json_read max_nesting body of Some (JObj ms, rest) \<Rightarrow> True | Some (JNull, rest) \<Rightarrow> True | _ \<Rightarrow> False)"

lemma pointer_after_text: "pointer_after None (last_member K ms) = last_text K ms"
  by (simp add: pointer_after_def last_text_def split: option.split json.split)

lemma text_or_null_cases: "text_or_null v \<longleftrightarrow> v = JNull \<or> (\<exists>s. v = JStr s)"
  by (cases v) (simp_all add: text_or_null_def)

lemma store_patch_simps:
  "store_patch ''name'' v b = map_option (\<lambda>s. b\<lparr>pb_Name := s\<rparr>) (to_pointer v)"
  "store_patch ''link'' v b = map_option (\<lambda>s. b\<lparr>pb_Link := s\<rparr>) (to_pointer v)"
  "store_patch ''notes'' v b = map_option (\<lambda>s. b\<lparr>pb_Notes := s\<rparr>) (to_pointer v)"
  "store_patch ''ip'' v b = map_option (\<lambda>s. b\<lparr>pb_IP := s\<rparr>) (to_pointer v)"
  by (simp_all add: store_patch_def)

lemma set_patch_fields:
  "set_fields patch_names store_patch ms b =
    (if \<forall>(k, v) \<in> set ms. fold_name k \<in> {''NAME'', ''LINK'', ''NOTES'', ''IP''} \<longrightarrow> text_or_null v
     then Some \<lparr>pb_Name = pointer_after (pb_Name b) (last_member ''NAME'' ms), pb_Link = pointer_after (pb_Link b) (last_member ''LINK'' ms),
       pb_Notes = pointer_after (pb_Notes b) (last_member ''NOTES'' ms), pb_IP = pointer_after (pb_IP b) (last_member ''IP'' ms)\<rparr>
     else None)"
proof (induction ms arbitrary: b)
  case (Cons m ms)
  obtain k v where m: "m = (k, v)" by (cases m)
  have *: "pointer_after (pointer_after old (Some v)) y = pointer_after old (case y of None \<Rightarrow> Some v | Some w \<Rightarrow> Some w)" for old y
    by (simp add: pointer_after_def split: option.split)
  have v: "to_pointer v = (if text_or_null v then Some (pointer_after old (Some v)) else None)" for old
    by (cases v) (simp_all add: text_or_null_def pointer_after_def)
  have none: "(case y of None \<Rightarrow> None | Some w \<Rightarrow> Some w) = y" for y :: "json option" by (cases y) simp_all
  consider "fold_name k = ''NAME''" | "fold_name k = ''LINK''" | "fold_name k = ''NOTES''" | "fold_name k = ''IP''"
    | "fold_name k \<noteq> ''NAME''" "fold_name k \<noteq> ''LINK''" "fold_name k \<noteq> ''NOTES''" "fold_name k \<noteq> ''IP''" by blast
  then show ?case
  proof cases
    case 1
    then show ?thesis by (simp add: m match_field_patch store_patch_simps v [of "pb_Name b"] Cons.IH * none)
  next
    case 2
    then show ?thesis by (simp add: m match_field_patch store_patch_simps v [of "pb_Link b"] Cons.IH * none)
  next
    case 3
    then show ?thesis by (simp add: m match_field_patch store_patch_simps v [of "pb_Notes b"] Cons.IH * none)
  next
    case 4
    then show ?thesis by (simp add: m match_field_patch store_patch_simps v [of "pb_IP b"] Cons.IH * none)
  next
    case 5
    then show ?thesis by (simp add: m match_field_patch Cons.IH none)
  qed
qed (simp add: pointer_after_def)

section \<open>What a client sends\<close>

text \<open>The value of the body a client sends for a request, as \<^verbatim>\<open>web/assets/app.js\<close> writes it.\<close>

definition track_json :: "track_body \<Rightarrow> json" where
  "track_json b = JObj ([(''mac'', JStr (tb_MAC b)), (''ip'', JStr (tb_IP b)), (''name'', JStr (tb_Name b))] @
     (if tb_Manual b then [(''manual'', JBool True)] else []))"

definition patch_json :: "patch_body \<Rightarrow> json" where
  "patch_json b = JObj (List.map_filter (\<lambda>(k, v). map_option (\<lambda>s. (k, JStr s)) v)
     [(''name'', pb_Name b), (''link'', pb_Link b), (''notes'', pb_Notes b), (''ip'', pb_IP b)])"

fun body_json :: "request \<Rightarrow> json option" where
  "body_json (Req_track b) = map_option track_json b"
| "body_json (Req_patch m b) = map_option patch_json b"
| "body_json (Req_add_probe m b) = map_option (\<lambda>p. JObj [(''port'', JNum (int_string p))]) b"
| "body_json (Req_scan b) = map_option (\<lambda>c. JObj [(''cidr'', JStr c)]) b"
| "body_json _ = None"

text \<open>Requests whose body is absent are not sent; an int is a 64-bit one.\<close>

fun sendable_request :: "request \<Rightarrow> bool" where
  "sendable_request (Req_add_probe m b) \<longleftrightarrow> (case b of None \<Rightarrow> False | Some p \<Rightarrow> - (2 ^ 63) \<le> p \<and> p < 2 ^ 63)"
| "sendable_request (Req_track b) \<longleftrightarrow> b \<noteq> None"
| "sendable_request (Req_patch m b) \<longleftrightarrow> b \<noteq> None"
| "sendable_request (Req_scan b) \<longleftrightarrow> b \<noteq> None"
| "sendable_request _ \<longleftrightarrow> True"

fun route_of :: "request \<Rightarrow> string \<times> string list" where
  "route_of (Req_track b) = (''POST'', [''api'', ''devices''])"
| "route_of (Req_patch m b) = (''PATCH'', [''api'', ''devices'', m])"
| "route_of (Req_untrack m) = (''DELETE'', [''api'', ''devices'', m])"
| "route_of (Req_add_probe m b) = (''POST'', [''api'', ''devices'', m, ''probes''])"
| "route_of (Req_delete_probe m p) = (''DELETE'', [''api'', ''devices'', m, ''probes'', p])"
| "route_of (Req_resolve m) = (''POST'', [''api'', ''devices'', m, ''resolve''])"
| "route_of (Req_scan b) = (''POST'', [''api'', ''scan''])"

definition sends :: "request \<Rightarrow> raw_request \<Rightarrow> bool" where
  "sends req r \<longleftrightarrow> sendable_request req \<and> (rq_method r, path_segments (rq_path r)) = route_of req \<and>
     ''/'' \<notin> set (path_segments (rq_path r)) \<and>
     (body_json req \<noteq> None \<longrightarrow> map_option fst (json_read max_nesting (rq_body r)) = body_json req)"

lemma Atoi_int_string: "- (2 ^ 63) \<le> i \<Longrightarrow> i < 2 ^ 63 \<Longrightarrow> Atoi (int_string i) = Some i"
proof -
  have ne: "nat_string n \<noteq> []" for n by (simp add: nat_string.simps [of n])
  have d: "dec_digits 0 (nat_string n) = Some n" for n by (rule dec_digits_nat_string)
  have hd: "c \<noteq> CHR ''-'' \<and> c \<noteq> CHR ''+''" if "nat_string n = c # cs" for n c cs
    using nat_string_dec [of n] that by (auto simp: is_dec_def dec_val_def)
  assume i: "- (2 ^ 63) \<le> i" "i < 2 ^ 63"
  obtain c cs where c: "nat_string (nat \<bar>i\<bar>) = c # cs" using ne by (cases "nat_string (nat \<bar>i\<bar>)") auto
  from hd [OF c] d [of "nat \<bar>i\<bar>"] c i show ?thesis
    by (cases "i < 0") (simp_all add: Atoi_def int_string_def Let_def del: dec_digits.simps)
qed

lemma decode_object:
  "map_option fst (json_read max_nesting body) = Some (JObj ms) \<Longrightarrow> decode names store zero body = set_fields names store ms zero"
  by (cases "json_read max_nesting body") (auto simp: decode_def)

lemma decode_track_json:
  "map_option fst (json_read max_nesting body) = Some (track_json b) \<Longrightarrow> decode_track body = Some b"
  unfolding track_json_def decode_track_def
  by (subst decode_object, assumption) (cases "tb_Manual b"; simp add: match_field_track store_track_def)

lemma decode_patch_json:
  "map_option fst (json_read max_nesting body) = Some (patch_json b) \<Longrightarrow> decode_patch body = Some b"
  unfolding patch_json_def decode_patch_def
  by (subst decode_object, assumption)
    (cases "pb_Name b"; cases "pb_Link b"; cases "pb_Notes b"; cases "pb_IP b";
     simp add: map_filter_simps match_field_patch store_patch_simps no_patch_def)

lemma decode_port_json:
  "map_option fst (json_read max_nesting body) = Some (JObj [(''port'', JNum (int_string p))]) \<Longrightarrow> - (2 ^ 63) \<le> p \<Longrightarrow> p < 2 ^ 63 \<Longrightarrow>
   decode_port body = Some p"
  unfolding decode_port_def by (subst decode_object, assumption) (simp add: match_field_one Atoi_int_string)

lemma decode_cidr_json:
  "map_option fst (json_read max_nesting body) = Some (JObj [(''cidr'', JStr c)]) \<Longrightarrow> decode_cidr body = Some c"
  unfolding decode_cidr_def by (subst decode_object, assumption) (simp add: match_field_one)

lemmas decode_json = decode_track_json decode_patch_json decode_port_json decode_cidr_json

lemma sends_api_call: "sends req r \<Longrightarrow> api_call req (decoded r)"
  by (cases req rule: sendable_request.cases) (auto simp: sends_def api_call_def decoded_def decode_json split: option.splits)

lemma raw_serve_call:
  assumes "rq_method r \<noteq> ''CONNECT''" and "cleanPath (rq_path r) = rq_path r" and "api_call req (decoded r)"
  shows "raw_serve x r st = serve_call x req st"
proof -
  have "routed (decoded r) = Some req" using routed_call [of "decoded r" req] assms by (simp add: decoded_def)
  then show ?thesis by (simp add: raw_serve_def http_serve_routed)
qed

section \<open>Properties\<close>

text \<open>
  C2. A client's call does to the registry what it says. When the database works, a request with a
  clean path whose body reads as the call's value, in whatever spelling and whatever follows it, is
  served by the handler of the call, which leaves hub and wakes alone, and the stored devices and
  watchdogs make exactly the call's step when it is accepted and none when it is refused.
\<close>

theorem client_call_steps_registry:
  assumes "wf_db (sv_db (si_server st))" and "\<forall>i k. \<not> hx_faults x i k" and "cleanPath (rq_path r) = rq_path r" and "sends req r"
  shows "\<exists>resp jobs sv'. raw_serve x r st = (Api_reply resp jobs, st\<lparr>si_server := sv'\<rparr>) \<and>
    serve (hx_api x) (hx_faults x) (hx_now x) req (si_server st) = (resp, jobs, sv') \<and>
    abs_db (sv_db sv') = (case resp of Done _ \<Rightarrow> spec (hx_api x) req (abs_db (sv_db (si_server st))) | Fail _ _ \<Rightarrow> abs_db (sv_db (si_server st)))"
proof -
  obtain resp jobs sv' where s: "serve (hx_api x) (hx_faults x) (hx_now x) req (si_server st) = (resp, jobs, sv')" by (rule prod_cases3)
  have "fst (route_of req) \<noteq> ''CONNECT''" by (cases req) simp_all
  then have "rq_method r \<noteq> ''CONNECT''" using assms(4) by (auto simp: sends_def dest: sym)
  with s have "raw_serve x r st = (Api_reply resp jobs, st\<lparr>si_server := sv'\<rparr>)"
    using raw_serve_call [OF _ assms(3) sends_api_call [OF assms(4)]] by (simp add: serve_call_def)
  with s api_refines_registry [OF assms(1,2) s] show ?thesis by blast
qed

text \<open>
  C30. What a patch names. The body of a \<^verbatim>\<open>PATCH\<close> decodes exactly when it begins with an object whose
  members of a known name, in any case, are strings or null, or with null; a field is then what the
  last member of its name says, and untouched when there is none or it is null.
\<close>

theorem patch_body_exact:
  "decode_patch body = (case json_read max_nesting body of
     Some (JNull, rest) \<Rightarrow> Some no_patch
   | Some (JObj ms, rest) \<Rightarrow>
       if \<forall>(k, v) \<in> set ms. fold_name k \<in> {''NAME'', ''LINK'', ''NOTES'', ''IP''} \<longrightarrow> v = JNull \<or> (\<exists>s. v = JStr s)
       then Some \<lparr>pb_Name = last_text ''NAME'' ms, pb_Link = last_text ''LINK'' ms, pb_Notes = last_text ''NOTES'' ms, pb_IP = last_text ''IP'' ms\<rparr>
       else None
   | _ \<Rightarrow> None)"
  by (simp add: decode_patch_def decode_def set_patch_fields text_or_null_cases no_patch_def pointer_after_text split: option.split json.split)

text \<open>
  C17. A body that is no object is refused. Whatever fails later, a request for one of the four
  handlers with a body, on a clean path, whose body does not begin with a JSON object or null is
  answered 400, starts nothing and changes nothing.
\<close>

theorem bad_body_refused:
  assumes "cleanPath (rq_path r) = rq_path r" and "\<not> object_or_null (rq_body r)" and "''/'' \<notin> set (path_segments (rq_path r))"
    and "(rq_method r, path_segments (rq_path r)) \<in> {route_of (Req_track None), route_of (Req_patch m None),
      route_of (Req_add_probe m None), route_of (Req_scan None)}"
  shows "raw_serve x r st =
    (Api_reply (Fail 400 (if (rq_method r, path_segments (rq_path r)) = route_of (Req_add_probe m None) then Invalid_port else Bad_json)) [], st)"
proof -
  have "decode names store zero (rq_body r) = None" for names zero and store :: "string \<Rightarrow> json \<Rightarrow> 'r \<Rightarrow> 'r option"
    using assms(2) by (auto simp: object_or_null_def decode_def split: option.splits json.splits)
  then have none: "hq_track (decoded r) = None" "hq_patch (decoded r) = None" "hq_port (decoded r) = None" "hq_cidr (decoded r) = None"
    by (simp_all add: decoded_def decode_track_def decode_patch_def decode_port_def decode_cidr_def)
  have raw: "hq_method (decoded r) = rq_method r" "hq_path (decoded r) = rq_path r" by (simp_all add: decoded_def)
  obtain req where req: "req \<in> {Req_track None, Req_patch m None, Req_add_probe m None, Req_scan None}"
    "(rq_method r, path_segments (rq_path r)) = route_of req" using assms(4) by blast
  then have "api_call req (decoded r)" using assms(3) none by (elim insertE) (simp_all add: api_call_def raw)
  moreover have "rq_method r \<noteq> ''CONNECT''" using req by (elim insertE) simp_all
  ultimately have "raw_serve x r st = serve_call x req st"
    using raw_serve_call [OF _ assms(1)] by blast
  with req show ?thesis
    by (elim insertE) (simp_all add: serve_call_def handleTrackDevice_def handlePatchDevice_def handleAddProbe_def handleScan_def)
qed

section \<open>Concrete requests\<close>

definition raw_probe :: "string \<Rightarrow> raw_request" where
  "raw_probe body = \<lparr>rq_method = ''POST'', rq_path = ''/api/devices/m/probes'', rq_body = body\<rparr>"

lemma clean_raw_probe: "cleanPath (rq_path (raw_probe b)) = rq_path (raw_probe b)"
  "path_segments (rq_path (raw_probe b)) = [''api'', ''devices'', ''m'', ''probes'']" "rq_method (raw_probe b) = ''POST''"
  "rq_body (raw_probe b) = b"
  by (simp_all add: raw_probe_def) code_simp+

lemma client_call_steps_registry_witness:
  "\<forall>x st. \<exists>sv'. raw_serve (x\<lparr>hx_api := demo_env, hx_faults := no_faults, hx_now := 9\<rparr>) (raw_probe ''{ \"port\" : 80 } ...'')
      (st\<lparr>si_server := demo_server\<rparr>) = (Api_reply (Done 201) [], st\<lparr>si_server := sv'\<rparr>) \<and>
     snd (abs_db (sv_db sv')) = {(''m'', 22), (''m'', 80)}"
proof (intro allI)
  fix x :: surroundings and st :: site
  let ?x = "x\<lparr>hx_api := demo_env, hx_faults := no_faults, hx_now := 9\<rparr>" and ?st = "st\<lparr>si_server := demo_server\<rparr>"
  let ?r = "raw_probe ''{ \"port\" : 80 } ...''" and ?q = "Req_add_probe ''m'' (Some 80)"
  have "map_option fst (json_read max_nesting ''{ \"port\" : 80 } ...'') = body_json ?q" by code_simp
  then have q: "sends ?q ?r" by (simp add: sends_def clean_raw_probe)
  have wf: "wf_db (sv_db (si_server ?st))" "\<forall>i k. \<not> hx_faults ?x i k" by (simp_all add: demo_server_def wf_demo_db)
  obtain sv1 where s: "serve demo_env no_faults 9 ?q demo_server = (Done 201, [], sv1)" using demo_serve by blast
  with client_call_steps_registry [OF wf clean_raw_probe(1) q]
  have "raw_serve ?x ?r ?st = (Api_reply (Done 201) [], st\<lparr>si_server := sv1\<rparr>)"
    "abs_db (sv_db sv1) = spec demo_env ?q (abs_db (sv_db demo_server))" by auto
  moreover have "snd (spec demo_env ?q (abs_db (sv_db demo_server))) = {(''m'', 22), (''m'', 80)}"
    by (simp add: abs_db_def demo_server_def) (auto simp: demo_db_def)
  ultimately show "\<exists>sv'. raw_serve ?x ?r ?st = (Api_reply (Done 201) [], st\<lparr>si_server := sv'\<rparr>) \<and>
       snd (abs_db (sv_db sv')) = {(''m'', 22), (''m'', 80)}" by auto
qed

text \<open>A repeated member in another case counts last, one of another name not at all.\<close>

lemma patch_body_exact_witness:
  "decode_patch ''{\"name\":\"a\",\"NAME\":\"b\",\"x\":[1],\"link\":null}'' = Some (no_patch\<lparr>pb_Name := Some ''b''\<rparr>) \<and>
   decode_patch ''{\"name\":5}'' = None"
proof -
  have "json_read max_nesting ''{\"name\":\"a\",\"NAME\":\"b\",\"x\":[1],\"link\":null}'' =
      Some (JObj [(''name'', JStr ''a''), (''NAME'', JStr ''b''), (''x'', JArr [JNum ''1'']), (''link'', JNull)], [])"
    "json_read max_nesting ''{\"name\":5}'' = Some (JObj [(''name'', JNum ''5'')], [])"
    "fold_name ''NAME'' = ''NAME''" "fold_name ''x'' = ''X''" by code_simp+
  then show ?thesis
    using patch_body_exact [of "''{\"name\":\"a\",\"NAME\":\"b\",\"x\":[1],\"link\":null}''"] patch_body_exact [of "''{\"name\":5}''"]
    by (simp add: last_text_def no_patch_def)
qed

lemma bad_body_refused_witness:
  "\<forall>x st. raw_serve x (raw_probe ''{\"port\":80'') st = (Api_reply (Fail 400 Invalid_port) [], st)"
proof -
  have "\<not> object_or_null ''{\"port\":80''" by code_simp
  then show ?thesis using bad_body_refused [of "raw_probe ''{\"port\":80''" "''m''"] by (simp add: clean_raw_probe)
qed

end
