(* ===== verification/Spec2Isabelle.thy ===== *)
theory Spec2Isabelle
  imports PresenceLog StoreSpecs StoreHistory JournalSpecs Oui Naming Wol Netconf Scan
    HubSpecs DevicesSpecs ViewSpecs WakeSpecs ApiSpecs
    Publish Names Services Sysinfo Config Operations Lifecycle Routes Darwin
    ScanFeed Wire Bodies
begin

text \<open>
  A verification development for puckview, the Wake-on-LAN, presence and diagnostics dashboard of
  this repository (Go, \<^verbatim>\<open>puckview/\<close>). Paths below are relative to \<^verbatim>\<open>puckview/internal\<close>.

  The program. A store (SQLite) keeps tracked devices by MAC, their TCP watchdogs, the transition
  log and remembered untracked hosts. In memory, \<^verbatim>\<open>server/state.go\<close> is the authority for presence
  and the store its journal: loops fold observations into memory (the kernel's neighbour cache
  every second, ICMP and TCP probes every two seconds while the activity gate is open), a
  maintenance loop drains what is dirty into the store, and a failed flush is handed back. A render
  loop builds the views, publishes a frame set and broadcasts to the event streams; API handlers
  change the store, reload memory and kick the renderer. Beside these stand the wake loop, scans,
  name resolution, network detection, the vendor table and the box diagnostics.

  How it is modelled. A struct is a record, a method a function on it, an error a value; a method
  that runs under a mutex is one atomic step. What the program gets from outside is an argument:
  which SQL statements fail (a predicate on their position), the clock, the neighbour dump, files
  as lists of lines, sockets and what arrives on them, resolver answers, the text of
  a \<^verbatim>\<open>float64\<close>, \<^verbatim>\<open>icmp.ParseMessage\<close>, \<^verbatim>\<open>url.Parse\<close>. JSON is modelled down to the bytes: the machines
  take payloads and decoded bodies as they come, and the last theories below say which they are. The iteration order of a Go map is an
  argument too, and the theorems hold for every order. Goroutines interleave as step relations.
  The build is the Linux one, the stubs of the macOS build stand apart.

  Theories and sources.
    \<^verbatim>\<open>Prelude\<close>, \<^verbatim>\<open>Macs\<close>, \<^verbatim>\<open>Runes\<close>, \<^verbatim>\<open>Strconv\<close>: Go strings, sorting, hardware addresses (\<^verbatim>\<open>NormMAC\<close>),
      UTF-8, number parsing; the contract of a state machine (\<^verbatim>\<open>state_machine\<close>) and of a
      \<^verbatim>\<open>sort.Slice\<close> order (\<^verbatim>\<open>slice_order\<close>).
    \<^verbatim>\<open>Tables\<close>: the SQL the store issues on row lists, with the contract of an upsert
      (\<^verbatim>\<open>upsert_table\<close>). \<^verbatim>\<open>Store\<close>, \<^verbatim>\<open>StoreProps\<close>, \<^verbatim>\<open>StoreSpecs\<close>, \<^verbatim>\<open>StoreHistory\<close>: \<^verbatim>\<open>store/store.go\<close>, every
      operation with its statements in order, the migration and the legacy backfill; the table
      invariant, presence that only moves forward, all-or-nothing flushes, what is read back,
      retries of interrupted migrations.
    \<^verbatim>\<open>Presence\<close>, \<^verbatim>\<open>PresenceProps\<close>, \<^verbatim>\<open>PresenceLog\<close>: \<^verbatim>\<open>server/state.go\<close>; what each method does per
      key, the transition log as the change points of the verdicts, drain and restore.
    \<^verbatim>\<open>Journal\<close>, \<^verbatim>\<open>JournalProps\<close>, \<^verbatim>\<open>JournalSpecs\<close>: the loops and handlers of \<^verbatim>\<open>server/server.go\<close> on
      memory and store as a step relation. A flush is three steps and a reload two, and everything
      else may run between them; exactly-once transition rows, durability of clean devices,
      shutdown and restart.
    \<^verbatim>\<open>Neigh\<close>, \<^verbatim>\<open>Probe\<close>, \<^verbatim>\<open>Devices\<close>, \<^verbatim>\<open>DevicesSpecs\<close>, \<^verbatim>\<open>ViewSpecs\<close>, \<^verbatim>\<open>Names\<close>: \<^verbatim>\<open>neigh\<close>, \<^verbatim>\<open>probe\<close>,
      \<^verbatim>\<open>server/liveness.go\<close>, \<^verbatim>\<open>devices.go\<close>, \<^verbatim>\<open>names.go\<close> and the gated probe loop: decoding of the
      neighbour cache, probes, the device and neighbour views, the SEEN columns, the name cache.
    \<^verbatim>\<open>Hub\<close>, \<^verbatim>\<open>HubInv\<close>, \<^verbatim>\<open>HubSpecs\<close>: \<^verbatim>\<open>server/sse.go\<close>, \<^verbatim>\<open>frames.go\<close> and \<^verbatim>\<open>render\<close>: channels with
      buffers of 16 frames, connections from attach to removal, publishing; no panic, delivery in
      order, and when a dashboard is current.
    \<^verbatim>\<open>Api\<close>, \<^verbatim>\<open>ApiSpecs\<close>: \<^verbatim>\<open>server/api.go\<close>, \<^verbatim>\<open>scan.go\<close>: every handler, refined by an abstract registry.
    \<^verbatim>\<open>Operations\<close>: requests, renders, probe cycles, flushes, prunes, the backfill and the start as
      whole operations composed of all these, and their histories as runs of the journal machine.
    \<^verbatim>\<open>Lifecycle\<close>: \<^verbatim>\<open>cmd/puckview/main.go\<close> and \<^verbatim>\<open>Server.Run\<close>: opening, the loops, the signal, the final
      flush and the exit as a machine around the journal machine; what a clean exit leaves, and
      that a stop is never blocked.
    \<^verbatim>\<open>Routes\<close>: the route table of \<^verbatim>\<open>server.go\<close>, \<^verbatim>\<open>ServeMux\<close> dispatch on it, and any request from
      method and path down to its handler, on a state that joins server, hub and wakes: which
      requests change which of the three.
    \<^verbatim>\<open>Publish\<close>: the kick channel and the steps of a render beside the journal machine, which it
      contains: no mutation is lost on its way to the published rows.
    \<^verbatim>\<open>Wol\<close>, \<^verbatim>\<open>Wake\<close>, \<^verbatim>\<open>WakeSpecs\<close>: \<^verbatim>\<open>wol\<close> and \<^verbatim>\<open>server/wake.go\<close>: payload, frames, the barrage, the
      registry of cancel functions as a machine and the watch loop.
    \<^verbatim>\<open>GoNet\<close>, \<^verbatim>\<open>GoNetProps\<close>, \<^verbatim>\<open>Netconf\<close>, \<^verbatim>\<open>Scan\<close>: the used part of package \<^verbatim>\<open>net\<close>, \<^verbatim>\<open>netconf\<close>, \<^verbatim>\<open>scan\<close>.
    \<^verbatim>\<open>ScanFeed\<close>: the 64 workers of a sweep as a machine, every schedule of which does what \<open>Sweep\<close> says,
      the throttled progress callback they race for, and the frames of a scan.
    \<^verbatim>\<open>JsonStrings\<close>, \<^verbatim>\<open>Json\<close>: the part of \<^verbatim>\<open>encoding/json\<close> in use: string escapes, values, writer and
      reader, which are inverse to each other up to malformed UTF-8.
    \<^verbatim>\<open>EventStream\<close>, \<^verbatim>\<open>Wire\<close>: the reader of an \<^verbatim>\<open>EventSource\<close>, the JSON of every struct the server sends,
      and the runs of the hub with it: frames come out as the events they were built from, a change
      of bytes is a change of rows, a current dashboard holds the published rows.
    \<^verbatim>\<open>Bodies\<close>: \<^verbatim>\<open>decode\<close> of \<^verbatim>\<open>server/api.go\<close> on the body structs, and the API on requests that are bytes.
    \<^verbatim>\<open>Oui\<close>, \<^verbatim>\<open>Naming\<close>: the vendor table, NetBIOS and reverse DNS.
    \<^verbatim>\<open>Services\<close>: \<^verbatim>\<open>tailscale\<close>, \<^verbatim>\<open>catalogue\<close> and \<^verbatim>\<open>server/services.go\<close>. \<^verbatim>\<open>Sysinfo\<close>: \<^verbatim>\<open>sysinfo\<close> on Linux.
      \<^verbatim>\<open>Config\<close>: \<^verbatim>\<open>config\<close>. \<^verbatim>\<open>Darwin\<close>: the platform files of macOS.

  Interfaces. \<^verbatim>\<open>state_machine\<close> is the contract of an invariant and \<^verbatim>\<open>action_machine\<close> extends it for machines
  whose steps are enabled actions, with their sequential runs; the event stream interprets the
  first, the journal, the probe gate, the wake registry, the render loop, the sweep's pool and
  the process the second, each on its own step relation. \<^verbatim>\<open>upsert_table\<close> is interpreted by the two tables the store upserts,
  \<^verbatim>\<open>slice_order\<close> by the order of remembered hosts.

  Bounds. Client buffers hold 16 frames, as in the code. The wake loop is a partial function and is
  proved to return within 121 turns (its timeout over its interval). A validated sweep enumerates
  at most 1023 hosts, 1022 for a target in dotted form, and the enumeration loop has as many turns as there are addresses in the
  network. Histories keep 24 values. Duration parsing terminates because every part consumes
  its unit. A stop takes at most 15 steps from wherever it finds the process: five loops, a flush of
  three calls at most, begun twice at most, and the steps of \<^verbatim>\<open>main\<close>. A sweep's pool
  takes at most five steps a host and 65 in every schedule. The JSON reader has one unit of fuel
  more than its text has bytes, which never runs out (\<open>json_read_fuel\<close>), and its nesting limit is that of
  \<^verbatim>\<open>encoding/json\<close>, 10000. There is no other fuel.

  Simplifications. \<^verbatim>\<open>TrimSpace\<close>, \<^verbatim>\<open>Fields\<close>, \<^verbatim>\<open>ToLower\<close> and \<^verbatim>\<open>ToUpper\<close> work on ASCII. A \<^verbatim>\<open>float64\<close> of the
  diagnostics is a rational number. The parallel probes are collected by key. The name queries of
  one call share a clock and have one answer per address; which of them are answered before the loop
  has started them all is an argument. A
  handler is one step of the API model; its interleavings are those of the journal and render
  machines. Insertion sort stands for \<^verbatim>\<open>sort.Slice\<close>.

  Not modelled: HTTP headers, the digits of a \<^verbatim>\<open>float64\<close>, the file server below \<^verbatim>\<open>/static/\<close>, log lines, tickers
  (a loop may take its turn at any time) and the five seconds granted to \<^verbatim>\<open>Shutdown\<close>; SQLite itself,
  its pragmas and the file size reported after the backfill; the netlink and packet sockets below
  the decoded messages; the 600 milliseconds a sweep waits for the kernel.
\<close>

end
